(* ===== verification/Prelude.thy ===== *)
theory Prelude
  imports Main "HOL-Library.Word" "HOL-Library.Monad_Syntax"
begin

unbundle bit_operations_syntax

text \<open>
  The vocabulary shared by all components: machine words, the flat byte memory
  the C routines work on, NUL-terminated strings in that memory, and the lemma
  collections used for automation.

  A C object graph is a finite flat memory (\<open>mem\<close>, a list of bytes); a pointer is an index
  into it. Reading or writing past the end is undefined behaviour in C: it is the
  value \<open>None\<close> here, so that a theorem \<open>f \<dots> = Some r\<close> also says that \<open>f\<close> stays
  inside its memory. Every loop that advances a pointer therefore ends.
\<close>

section \<open>Machine words, memory\<close>

type_synonym u8 = "8 word"
type_synonym u16 = "16 word"
type_synonym u32 = "32 word"
type_synonym bytes = "u8 list"
type_synonym mem = "u8 list"
type_synonym addr = nat

named_theorems mem_simps \<open>rewrite rules for reads and writes of the flat memory\<close>
named_theorems str_simps \<open>rewrite rules for NUL-terminated strings\<close>

definition rd :: "mem \<Rightarrow> addr \<Rightarrow> u8 option" where
  "rd m a = (if a < length m then Some (m ! a) else None)"

definition wr :: "mem \<Rightarrow> addr \<Rightarrow> u8 \<Rightarrow> mem option" where
  "wr m a v = (if a < length m then Some (m[a := v]) else None)"

lemma rd_eq_Some [simp]: "rd m a = Some v \<longleftrightarrow> a < length m \<and> m ! a = v"
  by (auto simp: rd_def)

lemma wr_eq_Some [simp]: "wr m a v = Some m' \<longleftrightarrow> a < length m \<and> m[a := v] = m'"
  by (auto simp: wr_def)

lemma rd_in [mem_simps]: "a < length m \<Longrightarrow> rd m a = Some (m ! a)"
  by simp

lemma wr_in [mem_simps]: "a < length m \<Longrightarrow> wr m a v = Some (m[a := v])"
  by simp

lemma rd_out: "length m \<le> a \<Longrightarrow> rd m a = None"
  by (simp add: rd_def)

lemma rd_upd [mem_simps]:
  "a < length m \<Longrightarrow> rd (m[a := v]) b = (if a = b then Some v else rd m b)"
  by (auto simp: rd_def)

text \<open>The code of a character literal of the source.\<close>

definition byte_of :: "char \<Rightarrow> u8" where
  "byte_of c = of_char c"

definition bytes_of :: "string \<Rightarrow> bytes" where
  "bytes_of s = map byte_of s"

lemma bytes_of_Nil [simp]: "bytes_of [] = []"
  by (simp add: bytes_of_def)

lemma bytes_of_Cons [simp]: "bytes_of (c # s) = byte_of c # bytes_of s"
  by (simp add: bytes_of_def)

lemma length_bytes_of [simp]: "length (bytes_of s) = length s"
  by (simp add: bytes_of_def)

lemma unat_byte_of: "unat (byte_of c) = of_char c"
proof -
  have "(of_char c :: nat) < 2 ^ LENGTH(8)" using nat_of_char_less_256 [of c] by simp
  then have "unat (of_nat (of_char c) :: u8) = of_char c" by (simp only: unsigned_of_nat take_bit_nat_eq_self of_nat_id)
  then show ?thesis by (simp only: byte_of_def of_nat_of_char)
qed


lemma byte_of_inject [simp]: "byte_of c = byte_of d \<longleftrightarrow> c = d"
  by (metis unat_byte_of of_char_eq_iff)

lemma byte_of_nul: "byte_of (CHR 0x00) = 0" by (simp add: byte_of_def)

lemma byte_of_eq_0 [simp]: "byte_of c = 0 \<longleftrightarrow> c = CHR 0x00"
  by (simp only: byte_of_nul [symmetric] byte_of_inject)

section \<open>Blocks of bytes\<close>

text \<open>\<open>blit m p bs\<close> stores the block \<open>bs\<close> at \<open>p\<close>; \<open>slice m p n\<close> is the block of \<open>n\<close> bytes at \<open>p\<close>.\<close>

fun blit :: "mem \<Rightarrow> addr \<Rightarrow> bytes \<Rightarrow> mem" where
  "blit m p [] = m"
| "blit m p (c # cs) = blit (m[p := c]) (Suc p) cs"

definition slice :: "mem \<Rightarrow> addr \<Rightarrow> nat \<Rightarrow> bytes" where
  "slice m p n = take n (drop p m)"

lemma length_blit [simp]: "length (blit m p bs) = length m"
  by (induction bs arbitrary: m p) auto

lemma length_slice [simp]: "length (slice m p n) = min n (length m - p)"
  by (simp add: slice_def)

lemma nth_slice [mem_simps]: "i < n \<Longrightarrow> p + i < length m \<Longrightarrow> slice m p n ! i = m ! (p + i)"
  by (simp add: slice_def)

lemma nth_blit [mem_simps]:
  "i < length m \<Longrightarrow>
   blit m p bs ! i = (if p \<le> i \<and> i < p + length bs then bs ! (i - p) else m ! i)"
proof (induction bs arbitrary: m p)
  case Nil
  then show ?case by auto
next
  case (Cons c cs)
  then show ?case
    by (auto simp: nth_list_update nth_Cons' Suc_le_eq less_Suc_eq intro!: arg_cong [where f = "nth cs"])
qed

lemma blit_append: "blit m p (xs @ ys) = blit (blit m p xs) (p + length xs) ys"
  by (induction xs arbitrary: m p) auto

lemma blit_snoc: "blit m p (xs @ [y]) = (blit m p xs)[p + length xs := y]"
  by (simp add: blit_append)

lemma slice_0 [simp]: "slice m p 0 = []"
  by (simp add: slice_def)

lemma slice_Suc: "p < length m \<Longrightarrow> slice m p (Suc n) = m ! p # slice m (Suc p) n"
  by (simp add: slice_def Cons_nth_drop_Suc [symmetric])

lemma slice_snoc: "p + n < length m \<Longrightarrow> slice m p (Suc n) = slice m p n @ [m ! (p + n)]"
  by (simp add: slice_def take_Suc_conv_app_nth)

lemma slice_blit_same: "p + length bs \<le> length m \<Longrightarrow> slice (blit m p bs) p (length bs) = bs"
  by (rule nth_equalityI) (auto simp: mem_simps)

lemma slice_blit_other:
  "q + n \<le> p \<or> p + length bs \<le> q \<Longrightarrow> slice (blit m p bs) q n = slice m q n"
  by (rule nth_equalityI) (auto simp: mem_simps)

lemma slice_update_other:
  "q + n \<le> p \<or> p < q \<Longrightarrow> slice (m[p := v]) q n = slice m q n"
  using slice_blit_other [of q n p "[v]" m] by (simp add: Suc_le_eq)

lemma blit_splice: "p + length bs \<le> length m \<Longrightarrow> blit m p bs = take p m @ bs @ drop (p + length bs) m"
  by (rule nth_equalityI) (auto simp: nth_blit nth_append min_def)

lemma nth_blit_other: "i < p \<or> p + length bs \<le> i \<Longrightarrow> blit m p bs ! i = m ! i"
  by (induction bs arbitrary: m p) auto

text \<open>Words of the big-endian target in memory.\<close>

definition be16 :: "u16 \<Rightarrow> bytes" where
  "be16 w = [ucast (drop_bit 8 w), ucast w]"

definition be32 :: "u32 \<Rightarrow> bytes" where
  "be32 w = [ucast (drop_bit 24 w), ucast (drop_bit 16 w), ucast (drop_bit 8 w), ucast w]"

definition of_be16 :: "u8 \<Rightarrow> u8 \<Rightarrow> u16" where
  "of_be16 a b = push_bit 8 (ucast a) OR ucast b"

definition of_be32 :: "u8 \<Rightarrow> u8 \<Rightarrow> u8 \<Rightarrow> u8 \<Rightarrow> u32" where
  "of_be32 a b c d = push_bit 24 (ucast a) OR push_bit 16 (ucast b) OR push_bit 8 (ucast c) OR ucast d"

definition rd16 :: "mem \<Rightarrow> addr \<Rightarrow> u16 option" where
  "rd16 m p = do { a \<leftarrow> rd m p; b \<leftarrow> rd m (p + 1); Some (of_be16 a b) }"

definition rd32 :: "mem \<Rightarrow> addr \<Rightarrow> u32 option" where
  "rd32 m p = do { a \<leftarrow> rd m p; b \<leftarrow> rd m (p + 1); c \<leftarrow> rd m (p + 2); d \<leftarrow> rd m (p + 3);
     Some (of_be32 a b c d) }"

definition wr16 :: "mem \<Rightarrow> addr \<Rightarrow> u16 \<Rightarrow> mem option" where
  "wr16 m p w = (if p + 2 \<le> length m then Some (blit m p (be16 w)) else None)"

definition wr32 :: "mem \<Rightarrow> addr \<Rightarrow> u32 \<Rightarrow> mem option" where
  "wr32 m p w = (if p + 4 \<le> length m then Some (blit m p (be32 w)) else None)"

lemma length_be [simp]: "length (be16 w) = 2" "length (be32 v) = 4"
  by (simp_all add: be16_def be32_def)

lemma of_be32_be32: "of_be32 (ucast (drop_bit 24 w)) (ucast (drop_bit 16 w)) (ucast (drop_bit 8 w)) (ucast w) = w"
proof (rule bit_word_eqI)
  fix n
  assume "n < LENGTH(32)"
  then consider "n < 8" | "8 \<le> n" "n < 16" | "16 \<le> n" "n < 24" | "24 \<le> n" "n < 32" by fastforce
  then show "bit (of_be32 (ucast (drop_bit 24 w)) (ucast (drop_bit 16 w)) (ucast (drop_bit 8 w)) (ucast w)) n = bit w n"
    by cases (auto simp: of_be32_def bit_simps)
qed

lemma rd32_blit: "p + 4 \<le> length m \<Longrightarrow> rd32 (blit m p (be32 w)) p = Some w"
  by (simp add: rd32_def rd_def nth_blit del: blit.simps) (simp add: be32_def of_be32_be32)

section \<open>NUL-terminated strings in memory\<close>

text \<open>\<open>is_cstr m p s\<close>: at \<open>p\<close> there are the non-NUL bytes \<open>s\<close> followed by a NUL.\<close>

fun is_cstr :: "mem \<Rightarrow> addr \<Rightarrow> bytes \<Rightarrow> bool" where
  "is_cstr m p [] = (rd m p = Some 0)"
| "is_cstr m p (c # cs) = (c \<noteq> 0 \<and> rd m p = Some c \<and> is_cstr m (Suc p) cs)"

lemma is_cstr_bound: "is_cstr m p s \<Longrightarrow> p + length s < length m"
proof (induction s arbitrary: p)
  case (Cons c cs)
  then show ?case using Cons.IH [of "Suc p"] by simp
qed simp

lemma is_cstr_nul_free: "is_cstr m p s \<Longrightarrow> 0 \<notin> set s"
  by (induction s arbitrary: p) auto

lemma is_cstr_nth: "is_cstr m p s \<Longrightarrow> i < length s \<Longrightarrow> m ! (p + i) = s ! i"
proof (induction s arbitrary: p i)
  case (Cons c cs)
  then show ?case by (cases i) (auto dest: Cons.IH [of "Suc p"])
qed simp

lemma is_cstr_end: "is_cstr m p s \<Longrightarrow> m ! (p + length s) = 0"
proof (induction s arbitrary: p)
  case (Cons c cs)
  then show ?case using Cons.IH [of "Suc p"] by simp
qed simp

lemma is_cstr_drop:
  "is_cstr m p s \<Longrightarrow> i \<le> length s \<Longrightarrow> is_cstr m (p + i) (drop i s)"
proof (induction s arbitrary: p i)
  case (Cons c cs)
  then show ?case by (cases i) (auto dest: Cons.IH [of "Suc p"])
qed simp

lemma is_cstr_iff:
  "is_cstr m p s \<longleftrightarrow> 0 \<notin> set s \<and> p + length s < length m \<and>
     slice m p (Suc (length s)) = s @ [0]"
proof (induction s arbitrary: p)
  case Nil
  then show ?case by (auto simp: slice_def take_Suc hd_drop_conv_nth)
next
  case (Cons c cs)
  then show ?case
    by (cases "p < length m") (auto simp: slice_Suc)
qed

lemma is_cstr_update [str_simps]:
  "a < p \<or> p + length s < a \<Longrightarrow> is_cstr (m[a := v]) p s = is_cstr m p s"
  by (induction s arbitrary: p) auto

lemma is_cstr_blit [str_simps]:
  "a + length bs \<le> p \<or> p + length s < a \<Longrightarrow> is_cstr (blit m a bs) p s = is_cstr m p s"
  by (induction bs arbitrary: m a) (auto simp: str_simps)

lemma is_cstr_blit_same:
  "0 \<notin> set s \<Longrightarrow> p + length s < length m \<Longrightarrow> is_cstr (blit m p (s @ [0])) p s"
  using slice_blit_same [of p "s @ [0]" m] by (simp add: is_cstr_iff)

lemma is_cstr_unique: "is_cstr m p s \<Longrightarrow> is_cstr m p t \<Longrightarrow> s = t"
proof (induction s arbitrary: p t)
  case Nil
  then show ?case by (cases t) auto
next
  case (Cons c cs)
  then show ?case by (cases t) auto
qed

text \<open>The C truth value of a condition.\<close>

definition c_bool :: "bool \<Rightarrow> int" where
  "c_bool b = (if b then 1 else 0)"

lemma c_bool_simps [simp]: "c_bool True = 1" "c_bool False = 0" "c_bool b = 0 \<longleftrightarrow> \<not> b"
  by (simp_all add: c_bool_def)

end
