(* ===== verification/Ctype.thy ===== *)
theory Ctype
  imports Prelude
begin

text \<open>
  Character classes: the table \<^verbatim>\<open>_ctype\<close> of \<^verbatim>\<open>lib_generic/ctype.c\<close> and the macros and inline
  functions of \<^verbatim>\<open>include/linux/ctype.h\<close> that index it. The table is copied entry by entry; the lemmas
  say which bytes each class holds.
\<close>

section \<open>The table\<close>

definition ct_U :: u8 where "ct_U = 0x01"
definition ct_L :: u8 where "ct_L = 0x02"
definition ct_D :: u8 where "ct_D = 0x04"
definition ct_C :: u8 where "ct_C = 0x08"
definition ct_P :: u8 where "ct_P = 0x10"
definition ct_S :: u8 where "ct_S = 0x20"
definition ct_X :: u8 where "ct_X = 0x40"
definition ct_SP :: u8 where "ct_SP = 0x80"

lemmas ct_bits = ct_U_def ct_L_def ct_D_def ct_C_def ct_P_def ct_S_def ct_X_def ct_SP_def

definition ctype_table :: "u8 list" where
  "ctype_table =
   [ct_C, ct_C, ct_C, ct_C, ct_C, ct_C, ct_C, ct_C,
    ct_C, ct_C OR ct_S, ct_C OR ct_S, ct_C OR ct_S, ct_C OR ct_S, ct_C OR ct_S, ct_C, ct_C,
    ct_C, ct_C, ct_C, ct_C, ct_C, ct_C, ct_C, ct_C,
    ct_C, ct_C, ct_C, ct_C, ct_C, ct_C, ct_C, ct_C,
    ct_S OR ct_SP, ct_P, ct_P, ct_P, ct_P, ct_P, ct_P, ct_P,
    ct_P, ct_P, ct_P, ct_P, ct_P, ct_P, ct_P, ct_P,
    ct_D, ct_D, ct_D, ct_D, ct_D, ct_D, ct_D, ct_D,
    ct_D, ct_D, ct_P, ct_P, ct_P, ct_P, ct_P, ct_P,
    ct_P, ct_U OR ct_X, ct_U OR ct_X, ct_U OR ct_X, ct_U OR ct_X, ct_U OR ct_X, ct_U OR ct_X, ct_U,
    ct_U, ct_U, ct_U, ct_U, ct_U, ct_U, ct_U, ct_U,
    ct_U, ct_U, ct_U, ct_U, ct_U, ct_U, ct_U, ct_U,
    ct_U, ct_U, ct_U, ct_P, ct_P, ct_P, ct_P, ct_P,
    ct_P, ct_L OR ct_X, ct_L OR ct_X, ct_L OR ct_X, ct_L OR ct_X, ct_L OR ct_X, ct_L OR ct_X, ct_L,
    ct_L, ct_L, ct_L, ct_L, ct_L, ct_L, ct_L, ct_L,
    ct_L, ct_L, ct_L, ct_L, ct_L, ct_L, ct_L, ct_L,
    ct_L, ct_L, ct_L, ct_P, ct_P, ct_P, ct_P, ct_C] @
   replicate 32 0 @
   [ct_S OR ct_SP, ct_P, ct_P, ct_P, ct_P, ct_P, ct_P, ct_P,
    ct_P, ct_P, ct_P, ct_P, ct_P, ct_P, ct_P, ct_P] @
   replicate 16 ct_P @
   replicate 16 ct_U @
   replicate 7 ct_U @ [ct_P] @ replicate 7 ct_U @ [ct_L] @
   replicate 16 ct_L @
   replicate 7 ct_L @ [ct_P] @ replicate 8 ct_L"

section \<open>The macros\<close>

definition ismask :: "u8 \<Rightarrow> u8" where
  "ismask x = ctype_table ! unat x"

definition isalnum :: "u8 \<Rightarrow> bool" where "isalnum c \<longleftrightarrow> ismask c AND (ct_U OR ct_L OR ct_D) \<noteq> 0"
definition isalpha :: "u8 \<Rightarrow> bool" where "isalpha c \<longleftrightarrow> ismask c AND (ct_U OR ct_L) \<noteq> 0"
definition iscntrl :: "u8 \<Rightarrow> bool" where "iscntrl c \<longleftrightarrow> ismask c AND ct_C \<noteq> 0"
definition isdigit :: "u8 \<Rightarrow> bool" where "isdigit c \<longleftrightarrow> ismask c AND ct_D \<noteq> 0"
definition isgraph :: "u8 \<Rightarrow> bool" where
  "isgraph c \<longleftrightarrow> ismask c AND (ct_P OR ct_U OR ct_L OR ct_D) \<noteq> 0"
definition islower :: "u8 \<Rightarrow> bool" where "islower c \<longleftrightarrow> ismask c AND ct_L \<noteq> 0"
definition isprint :: "u8 \<Rightarrow> bool" where
  "isprint c \<longleftrightarrow> ismask c AND (ct_P OR ct_U OR ct_L OR ct_D OR ct_SP) \<noteq> 0"
definition ispunct :: "u8 \<Rightarrow> bool" where "ispunct c \<longleftrightarrow> ismask c AND ct_P \<noteq> 0"
definition isspace :: "u8 \<Rightarrow> bool" where "isspace c \<longleftrightarrow> ismask c AND ct_S \<noteq> 0"
definition isupper :: "u8 \<Rightarrow> bool" where "isupper c \<longleftrightarrow> ismask c AND ct_U \<noteq> 0"
definition isxdigit :: "u8 \<Rightarrow> bool" where "isxdigit c \<longleftrightarrow> ismask c AND (ct_D OR ct_X) \<noteq> 0"

text \<open>\<^verbatim>\<open>c -= 'A'-'a'\<close> and \<^verbatim>\<open>c -= 'a'-'A'\<close>, on an \<^verbatim>\<open>unsigned char\<close>.\<close>

definition tolower :: "u8 \<Rightarrow> u8" where
  "tolower c = (if isupper c then c - (65 - 97) else c)"

definition toupper :: "u8 \<Rightarrow> u8" where
  "toupper c = (if islower c then c - (97 - 65) else c)"

section \<open>Which bytes the classes hold\<close>

lemma length_ctype_table [simp]: "length ctype_table = 256"
  by (simp add: ctype_table_def)

text \<open>A statement about a byte and its entry holds if it holds along the table.\<close>

lemma all_ctype:
  assumes "list_all (\<lambda>(n, e). P (of_nat n) e) (List.enumerate 0 ctype_table)"
  shows "P (c :: u8) (ismask c)"
proof -
  have "unat c < 2 ^ LENGTH(8)" by (rule unsigned_less)
  then have "unat c < 256" by simp
  then have "(unat c, ctype_table ! unat c) \<in> set (List.enumerate 0 ctype_table)"
    by (force simp: in_set_enumerate_eq)
  with assms show ?thesis by (auto simp: list_all_iff ismask_def)
qed

lemma isdigit_iff: "isdigit c \<longleftrightarrow> 48 \<le> c \<and> c \<le> 57"
  unfolding isdigit_def
  by (rule all_ctype [of "\<lambda>c e. e AND ct_D \<noteq> 0 \<longleftrightarrow> 48 \<le> c \<and> c \<le> 57"]) code_simp

lemma isxdigit_iff:
  "isxdigit c \<longleftrightarrow> 48 \<le> c \<and> c \<le> 57 \<or> 65 \<le> c \<and> c \<le> 70 \<or> 97 \<le> c \<and> c \<le> 102"
  unfolding isxdigit_def
  by (rule all_ctype [of "\<lambda>c e. e AND (ct_D OR ct_X) \<noteq> 0 \<longleftrightarrow>
        48 \<le> c \<and> c \<le> 57 \<or> 65 \<le> c \<and> c \<le> 70 \<or> 97 \<le> c \<and> c \<le> 102"]) code_simp

lemma islower_iff: "islower c \<longleftrightarrow> 97 \<le> c \<and> c \<le> 122 \<or> 223 \<le> c \<and> c \<noteq> 247"
  unfolding islower_def
  by (rule all_ctype [of "\<lambda>c e. e AND ct_L \<noteq> 0 \<longleftrightarrow> 97 \<le> c \<and> c \<le> 122 \<or> 223 \<le> c \<and> c \<noteq> 247"])
    code_simp

lemma isupper_iff: "isupper c \<longleftrightarrow> 65 \<le> c \<and> c \<le> 90 \<or> 192 \<le> c \<and> c \<le> 222 \<and> c \<noteq> 215"
  unfolding isupper_def
  by (rule all_ctype [of "\<lambda>c e. e AND ct_U \<noteq> 0 \<longleftrightarrow> 65 \<le> c \<and> c \<le> 90 \<or> 192 \<le> c \<and> c \<le> 222 \<and> c \<noteq> 215"])
    code_simp

lemma isalnum_iff: "isalnum c \<longleftrightarrow> isdigit c \<or> isupper c \<or> islower c"
  by (simp add: isalnum_def isdigit_def isupper_def islower_def bit.conj_disj_distrib
      or_eq_0_iff) blast

lemma toupper_xdigit: "97 \<le> c \<Longrightarrow> c \<le> 102 \<Longrightarrow> toupper c = c - 32"
  by (auto simp: toupper_def islower_iff intro: order_trans)

end
