(* ===== verification/CString.thy ===== *)
theory CString
  imports Ctype
begin

text \<open>
  The string and memory routines of \<^verbatim>\<open>lib_generic/string.c\<close>, each as one HOL function over the
  flat memory of \<open>Prelude\<close>. A pointer that may be \<^verbatim>\<open>NULL\<close> is an \<open>addr option\<close>; the outer \<open>option\<close> is
  a memory fault. On MIPS four of them (\<^verbatim>\<open>strcpy\<close>, \<^verbatim>\<open>strncpy\<close>, \<^verbatim>\<open>strcmp\<close>, \<^verbatim>\<open>strncmp\<close>) are
  replaced by the inline versions of \<^verbatim>\<open>include/asm-mips/string.h\<close>; the two comparisons are modelled
  too, and the locale \<open>str_compare\<close> states what the callers rely on of either.
\<close>

section \<open>Comparison\<close>

text \<open>\<^verbatim>\<open>strnicmp\<close>: the \<^verbatim>\<open>do\<close> loop with \<^verbatim>\<open>len\<close> characters left (at least one).\<close>

fun strnicmp_loop :: "mem \<Rightarrow> addr \<Rightarrow> addr \<Rightarrow> nat \<Rightarrow> (u8 \<times> u8) option" where
  "strnicmp_loop m s1 s2 0 = Some (0, 0)"
| "strnicmp_loop m s1 s2 (Suc n) = do {
     c1 \<leftarrow> rd m s1; c2 \<leftarrow> rd m s2;
     if c1 = 0 then Some (c1, c2)
     else if c2 = 0 then Some (c1, c2)
     else if c1 = c2 then
       (if n = 0 then Some (c1, c2) else strnicmp_loop m (Suc s1) (Suc s2) n)
     else
       (let d1 = tolower c1; d2 = tolower c2
        in if d1 \<noteq> d2 then Some (d1, d2)
           else if n = 0 then Some (d1, d2)
           else strnicmp_loop m (Suc s1) (Suc s2) n) }"

definition strnicmp :: "addr \<Rightarrow> addr \<Rightarrow> nat \<Rightarrow> mem \<Rightarrow> int option" where
  "strnicmp s1 s2 len m = do { (c1, c2) \<leftarrow> strnicmp_loop m s1 s2 len; Some (uint c1 - uint c2) }"

text \<open>\<^verbatim>\<open>__res\<close> is a \<^verbatim>\<open>signed char\<close>: the difference is cut to eight bits.\<close>

function strcmp :: "addr \<Rightarrow> addr \<Rightarrow> mem \<Rightarrow> int option" where
  "strcmp cs ct m = do {
     a \<leftarrow> rd m cs; b \<leftarrow> rd m ct;
     let res = sint (a - b);
     if res \<noteq> 0 \<or> a = 0 then Some res else strcmp (Suc cs) (Suc ct) m }"
  by pat_completeness auto
termination by (relation "measure (\<lambda>(cs, ct, m). length m - cs)") auto

fun strncmp_loop :: "addr \<Rightarrow> addr \<Rightarrow> nat \<Rightarrow> int \<Rightarrow> mem \<Rightarrow> int option" where
  "strncmp_loop cs ct 0 res m = Some res"
| "strncmp_loop cs ct (Suc n) res m = do {
     a \<leftarrow> rd m cs; b \<leftarrow> rd m ct;
     let res' = sint (a - b);
     if res' \<noteq> 0 \<or> a = 0 then Some res' else strncmp_loop (Suc cs) (Suc ct) n res' m }"

definition strncmp :: "addr \<Rightarrow> addr \<Rightarrow> nat \<Rightarrow> mem \<Rightarrow> int option" where
  "strncmp cs ct count m = strncmp_loop cs ct count 0 m"

text \<open>
  The MIPS version: unsigned bytes, the difference kept at 32 bits. The branch that closes the loop
  has the load of the next byte of the first string in its delay slot, so that byte is read also
  when the terminators have been reached.
\<close>

function mips_strcmp :: "addr \<Rightarrow> addr \<Rightarrow> mem \<Rightarrow> int option" where
  "mips_strcmp cs ct m = do {
     a \<leftarrow> rd m cs; b \<leftarrow> rd m ct;
     if b \<noteq> a then Some (uint a - uint b)
     else do {
       nxt \<leftarrow> rd m (Suc cs);
       if a \<noteq> 0 then mips_strcmp (Suc cs) (Suc ct) m else Some 0 } }"
  by pat_completeness auto
termination by (relation "measure (\<lambda>(cs, ct, m). length m - cs)") auto

text \<open>Here both loads of the iteration happen before the branch on the count is taken.\<close>

fun mips_strncmp :: "addr \<Rightarrow> addr \<Rightarrow> nat \<Rightarrow> mem \<Rightarrow> int option" where
  "mips_strncmp cs ct 0 m = do { a \<leftarrow> rd m cs; b \<leftarrow> rd m ct; Some 0 }"
| "mips_strncmp cs ct (Suc n) m = do {
     a \<leftarrow> rd m cs; b \<leftarrow> rd m ct;
     if b \<noteq> a then Some (uint a - uint b)
     else if a \<noteq> 0 then mips_strncmp (Suc cs) (Suc ct) n m
     else Some 0 }"

text \<open>\<^verbatim>\<open>memcmp\<close> on \<^verbatim>\<open>unsigned char\<close>, the difference an \<^verbatim>\<open>int\<close>.\<close>

fun memcmp_loop :: "addr \<Rightarrow> addr \<Rightarrow> nat \<Rightarrow> int \<Rightarrow> mem \<Rightarrow> int option" where
  "memcmp_loop su1 su2 0 res m = Some res"
| "memcmp_loop su1 su2 (Suc n) res m = do {
     a \<leftarrow> rd m su1; b \<leftarrow> rd m su2;
     let res' = uint a - uint b;
     if res' \<noteq> 0 then Some res' else memcmp_loop (Suc su1) (Suc su2) n res' m }"

definition memcmp :: "addr \<Rightarrow> addr \<Rightarrow> nat \<Rightarrow> mem \<Rightarrow> int option" where
  "memcmp cs ct count m = memcmp_loop cs ct count 0 m"

section \<open>Length and search\<close>

function strlen :: "addr \<Rightarrow> mem \<Rightarrow> nat option" where
  "strlen s m = do { c \<leftarrow> rd m s; if c = 0 then Some 0 else map_option Suc (strlen (Suc s) m) }"
  by pat_completeness auto
termination by (relation "measure (\<lambda>(s, m). length m - s)") auto

fun strnlen :: "addr \<Rightarrow> nat \<Rightarrow> mem \<Rightarrow> nat option" where
  "strnlen s 0 m = Some 0"
| "strnlen s (Suc n) m = do {
     c \<leftarrow> rd m s; if c = 0 then Some 0 else map_option Suc (strnlen (Suc s) n m) }"

function strchr :: "addr \<Rightarrow> u8 \<Rightarrow> mem \<Rightarrow> addr option option" where
  "strchr s ch m = do {
     x \<leftarrow> rd m s;
     if x \<noteq> ch then (if x = 0 then Some None else strchr (Suc s) ch m) else Some (Some s) }"
  by pat_completeness auto
termination by (relation "measure (\<lambda>(s, ch, m). length m - s)") auto

text \<open>\<^verbatim>\<open>strrchr\<close> walks back from the terminator; the loop ends when \<^verbatim>\<open>p\<close> falls below \<^verbatim>\<open>s\<close>.\<close>

function strrchr_loop :: "addr \<Rightarrow> addr \<Rightarrow> u8 \<Rightarrow> mem \<Rightarrow> addr option option" where
  "strrchr_loop s p ch m = do {
     x \<leftarrow> rd m p;
     if x = ch then Some (Some p)
     else if p \<le> s then Some None
     else strrchr_loop s (p - 1) ch m }"
  by pat_completeness auto
termination by (relation "measure (\<lambda>(s, p, ch, m). p)") auto

definition strrchr :: "addr \<Rightarrow> u8 \<Rightarrow> mem \<Rightarrow> addr option option" where
  "strrchr s ch m = do { n \<leftarrow> strlen s m; strrchr_loop s (s + n) ch m }"

text \<open>The inner loop of \<^verbatim>\<open>strspn\<close> and \<^verbatim>\<open>strpbrk\<close>: does the string at \<open>a\<close> hold the byte \<open>x\<close>?\<close>

function in_set_loop :: "u8 \<Rightarrow> addr \<Rightarrow> mem \<Rightarrow> bool option" where
  "in_set_loop x a m = do {
     y \<leftarrow> rd m a;
     if y = 0 then Some False
     else if x = y then Some True
     else in_set_loop x (Suc a) m }"
  by pat_completeness auto
termination by (relation "measure (\<lambda>(x, a, m). length m - a)") auto

function strspn :: "addr \<Rightarrow> addr \<Rightarrow> mem \<Rightarrow> nat option" where
  "strspn p accept m = do {
     x \<leftarrow> rd m p;
     if x = 0 then Some 0
     else do {
       hit \<leftarrow> in_set_loop x accept m;
       if \<not> hit then Some 0 else map_option Suc (strspn (Suc p) accept m) } }"
  by pat_completeness auto
termination by (relation "measure (\<lambda>(p, a, m). length m - p)") auto

function strpbrk :: "addr \<Rightarrow> addr \<Rightarrow> mem \<Rightarrow> addr option option" where
  "strpbrk sc1 ct m = do {
     x \<leftarrow> rd m sc1;
     if x = 0 then Some None
     else do {
       hit \<leftarrow> in_set_loop x ct m;
       if hit then Some (Some sc1) else strpbrk (Suc sc1) ct m } }"
  by pat_completeness auto
termination by (relation "measure (\<lambda>(p, a, m). length m - p)") auto

fun memscan :: "addr \<Rightarrow> int \<Rightarrow> nat \<Rightarrow> mem \<Rightarrow> addr option" where
  "memscan p ch 0 m = Some p"
| "memscan p ch (Suc n) m = do {
     x \<leftarrow> rd m p; if uint x = ch then Some p else memscan (Suc p) ch n m }"

fun memchr :: "addr \<Rightarrow> int \<Rightarrow> nat \<Rightarrow> mem \<Rightarrow> addr option option" where
  "memchr p ch 0 m = Some None"
| "memchr p ch (Suc n) m = do {
     x \<leftarrow> rd m p; if word_of_int ch = x then Some (Some p) else memchr (Suc p) ch n m }"

text \<open>\<^verbatim>\<open>strstr\<close>: compare at every position that leaves room for the second string.\<close>

function strstr_loop :: "addr \<Rightarrow> addr \<Rightarrow> nat \<Rightarrow> nat \<Rightarrow> mem \<Rightarrow> addr option option" where
  "strstr_loop s1 s2 l1 l2 m =
     (if l2 \<le> l1 \<and> 0 < l2 then do {
        c \<leftarrow> memcmp s1 s2 l2 m;
        if c = 0 then Some (Some s1) else strstr_loop (Suc s1) s2 (l1 - 1) l2 m }
      else Some None)"
  by pat_completeness auto
termination by (relation "measure (\<lambda>(s1, s2, l1, l2, m). l1)") auto

definition strstr :: "addr \<Rightarrow> addr \<Rightarrow> mem \<Rightarrow> addr option option" where
  "strstr s1 s2 m = do {
     l2 \<leftarrow> strlen s2 m;
     if l2 = 0 then Some (Some s1)
     else do { l1 \<leftarrow> strlen s1 m; strstr_loop s1 s2 l1 l2 m } }"

section \<open>Copying and filling\<close>

function strcpy_loop :: "addr \<Rightarrow> addr \<Rightarrow> mem \<Rightarrow> mem option" where
  "strcpy_loop dest src m = do {
     c \<leftarrow> rd m src; m' \<leftarrow> wr m dest c;
     if c \<noteq> 0 then strcpy_loop (Suc dest) (Suc src) m' else Some m' }"
  by pat_completeness auto
termination by (relation "measure (\<lambda>(d, s, m). length m - s)") auto

definition strcpy :: "addr \<Rightarrow> addr \<Rightarrow> mem \<Rightarrow> (mem \<times> addr) option" where
  "strcpy dest src m = map_option (\<lambda>m'. (m', dest)) (strcpy_loop dest src m)"

fun strncpy_loop :: "addr \<Rightarrow> addr \<Rightarrow> nat \<Rightarrow> mem \<Rightarrow> mem option" where
  "strncpy_loop dest src 0 m = Some m"
| "strncpy_loop dest src (Suc n) m = do {
     c \<leftarrow> rd m src; m' \<leftarrow> wr m dest c;
     if c \<noteq> 0 then strncpy_loop (Suc dest) (Suc src) n m' else Some m' }"

definition strncpy :: "addr \<Rightarrow> addr \<Rightarrow> nat \<Rightarrow> mem \<Rightarrow> (mem \<times> addr) option" where
  "strncpy dest src count m = map_option (\<lambda>m'. (m', dest)) (strncpy_loop dest src count m)"

definition strcat :: "addr \<Rightarrow> addr \<Rightarrow> mem \<Rightarrow> (mem \<times> addr) option" where
  "strcat dest src m = do {
     n \<leftarrow> strlen dest m;
     m' \<leftarrow> strcpy_loop (dest + n) src m;
     Some (m', dest) }"

text \<open>The copying loop of \<^verbatim>\<open>strncat\<close>, with \<^verbatim>\<open>count\<close> at least one.\<close>

fun strncat_loop :: "addr \<Rightarrow> addr \<Rightarrow> nat \<Rightarrow> mem \<Rightarrow> mem option" where
  "strncat_loop dest src 0 m = Some m"
| "strncat_loop dest src (Suc n) m = do {
     c \<leftarrow> rd m src; m' \<leftarrow> wr m dest c;
     if c \<noteq> 0 then (if n = 0 then wr m' (Suc dest) 0 else strncat_loop (Suc dest) (Suc src) n m')
     else Some m' }"

definition strncat :: "addr \<Rightarrow> addr \<Rightarrow> nat \<Rightarrow> mem \<Rightarrow> (mem \<times> addr) option" where
  "strncat dest src count m =
     (if count \<noteq> 0 then do {
        n \<leftarrow> strlen dest m;
        m' \<leftarrow> strncat_loop (dest + n) src count m;
        Some (m', dest) }
      else Some (m, dest))"

text \<open>\<^verbatim>\<open>strdup\<close>: the allocator \<open>alloc\<close> (of \<^verbatim>\<open>malloc.h\<close>) may move the memory on and may fail.\<close>

definition strdup :: "(nat \<Rightarrow> mem \<Rightarrow> mem \<times> addr option) \<Rightarrow> addr option \<Rightarrow> mem
    \<Rightarrow> (mem \<times> addr option) option" where
  "strdup alloc s m = (case s of
     None \<Rightarrow> Some (m, None)
   | Some s' \<Rightarrow> do {
       n \<leftarrow> strlen s' m;
       case alloc (n + 1) m of
         (m', None) \<Rightarrow> Some (m', None)
       | (m', Some new) \<Rightarrow> do { (m'', p) \<leftarrow> strcpy new s' m'; Some (m'', Some new) } })"

fun memset_loop :: "addr \<Rightarrow> u8 \<Rightarrow> nat \<Rightarrow> mem \<Rightarrow> mem option" where
  "memset_loop xs c 0 m = Some m"
| "memset_loop xs c (Suc n) m = do { m' \<leftarrow> wr m xs c; memset_loop (Suc xs) c n m' }"

definition memset :: "addr \<Rightarrow> int \<Rightarrow> nat \<Rightarrow> mem \<Rightarrow> (mem \<times> addr) option" where
  "memset s c count m = map_option (\<lambda>m'. (m', s)) (memset_loop s (word_of_int c) count m)"

text \<open>The forward and the backward byte loop, which \<^verbatim>\<open>memcpy\<close>, \<^verbatim>\<open>bcopy\<close> and \<^verbatim>\<open>memmove\<close> share.\<close>

fun copy_up :: "addr \<Rightarrow> addr \<Rightarrow> nat \<Rightarrow> mem \<Rightarrow> mem option" where
  "copy_up tmp s 0 m = Some m"
| "copy_up tmp s (Suc n) m = do {
     c \<leftarrow> rd m s; m' \<leftarrow> wr m tmp c; copy_up (Suc tmp) (Suc s) n m' }"

text \<open>\<open>copy_down tmp s n\<close>: \<open>tmp\<close> and \<open>s\<close> are the starts, the pointers run down from \<open>tmp + n\<close>, \<open>s + n\<close>.\<close>

fun copy_down :: "addr \<Rightarrow> addr \<Rightarrow> nat \<Rightarrow> mem \<Rightarrow> mem option" where
  "copy_down tmp s 0 m = Some m"
| "copy_down tmp s (Suc n) m = do {
     c \<leftarrow> rd m (s + n); m' \<leftarrow> wr m (tmp + n) c; copy_down tmp s n m' }"

definition memcpy :: "addr \<Rightarrow> addr \<Rightarrow> nat \<Rightarrow> mem \<Rightarrow> (mem \<times> addr) option" where
  "memcpy dest src count m = map_option (\<lambda>m'. (m', dest)) (copy_up dest src count m)"

definition memmove :: "addr \<Rightarrow> addr \<Rightarrow> nat \<Rightarrow> mem \<Rightarrow> (mem \<times> addr) option" where
  "memmove dest src count m = map_option (\<lambda>m'. (m', dest))
     (if dest \<le> src then copy_up dest src count m else copy_down dest src count m)"

text \<open>\<^verbatim>\<open>bcopy\<close> has an \<^verbatim>\<open>int\<close> count; \<^verbatim>\<open>while (count--)\<close> on a negative one only stops at a fault.\<close>

function bcopy_loop :: "addr \<Rightarrow> addr \<Rightarrow> int \<Rightarrow> mem \<Rightarrow> mem option" where
  "bcopy_loop src tmp count m =
     (if count \<noteq> 0 then do {
        c \<leftarrow> rd m src; m' \<leftarrow> wr m tmp c; bcopy_loop (Suc src) (Suc tmp) (count - 1) m' }
      else Some m)"
  by pat_completeness auto
termination by (relation "measure (\<lambda>(s, d, n, m). length m - s)") auto

definition bcopy :: "addr \<Rightarrow> addr \<Rightarrow> int \<Rightarrow> mem \<Rightarrow> (mem \<times> addr) option" where
  "bcopy src dest count m = map_option (\<lambda>m'. (m', dest)) (bcopy_loop src dest count m)"

section \<open>Tokens, swapping\<close>

text \<open>\<^verbatim>\<open>strtok\<close> keeps its place in the static \<^verbatim>\<open>___strtok\<close>, which is passed and returned.\<close>

definition strtok :: "addr option \<Rightarrow> addr \<Rightarrow> addr option \<times> mem \<Rightarrow>
    (addr option \<times> addr option \<times> mem) option" where
  "strtok s ct st = (case st of (tok, m) \<Rightarrow>
     (case (case s of Some p \<Rightarrow> Some p | None \<Rightarrow> tok) of
        None \<Rightarrow> Some (None, tok, m)
      | Some p \<Rightarrow> do {
          n \<leftarrow> strspn p ct m;
          let sbegin = p + n;
          c \<leftarrow> rd m sbegin;
          if c = 0 then Some (None, None, m)
          else do {
            e \<leftarrow> strpbrk sbegin ct m;
            case e of
              None \<Rightarrow> Some (Some sbegin, None, m)
            | Some q \<Rightarrow> do {
                x \<leftarrow> rd m q;
                if x \<noteq> 0 then do { m' \<leftarrow> wr m q 0; Some (Some sbegin, Some (Suc q), m') }
                else Some (Some sbegin, Some q, m) } } }))"

definition strsep :: "addr option \<Rightarrow> addr \<Rightarrow> mem \<Rightarrow> (addr option \<times> addr option \<times> mem) option" where
  "strsep s ct m = (case s of
     None \<Rightarrow> Some (None, None, m)
   | Some sbegin \<Rightarrow> do {
       e \<leftarrow> strpbrk sbegin ct m;
       case e of
         None \<Rightarrow> Some (Some sbegin, None, m)
       | Some q \<Rightarrow> do { m' \<leftarrow> wr m q 0; Some (Some sbegin, Some (Suc q), m') } })"

function strswab_loop :: "addr \<Rightarrow> mem \<Rightarrow> mem option" where
  "strswab_loop p m = do {
     x \<leftarrow> rd m p;
     if x = 0 then Some m
     else do {
       y \<leftarrow> rd m (Suc p);
       if y = 0 then Some m
       else do { m1 \<leftarrow> wr m p y; m2 \<leftarrow> wr m1 (Suc p) x; strswab_loop (p + 2) m2 } } }"
  by pat_completeness auto
termination by (relation "measure (\<lambda>(p, m). length m - p)") auto

definition strswab :: "addr option \<Rightarrow> mem \<Rightarrow> (mem \<times> addr option) option" where
  "strswab s m = (case s of
     None \<Rightarrow> Some (m, None)
   | Some p \<Rightarrow> do {
       c \<leftarrow> rd m p;
       if c = 0 then Some (m, None)
       else do { m' \<leftarrow> strswab_loop p m; Some (m', Some p) } })"

declare strcmp.simps [simp del] mips_strcmp.simps [simp del] strlen.simps [simp del]
  strchr.simps [simp del] strrchr_loop.simps [simp del] in_set_loop.simps [simp del]
  strspn.simps [simp del] strpbrk.simps [simp del] strstr_loop.simps [simp del]
  strcpy_loop.simps [simp del] bcopy_loop.simps [simp del] strswab_loop.simps [simp del]

end
