(* ===== verification/CStringProps.thy ===== *)
theory CStringProps
  imports CString "HOL-Library.Sublist"
begin

text \<open>
  What the routines of \<open>CString\<close> compute on memory that holds NUL-terminated strings: each result is
  given as a list function of the strings' contents, with the memory outside the written block
  unchanged. The locales \<open>str_compare\<close> and \<open>block_copy\<close> are the two interfaces the rest of the
  program relies on.
\<close>

section \<open>Length and search\<close>

lemma strlen_cstr [str_simps]: "is_cstr m p s \<Longrightarrow> strlen p m = Some (length s)"
proof (induction s arbitrary: p)
  case Nil
  then show ?case by (subst strlen.simps) (auto simp: mem_simps)
next
  case (Cons c cs)
  then show ?case by (subst strlen.simps) (auto simp: mem_simps)
qed

lemma strlen_Some_cstr: "strlen p m = Some n \<Longrightarrow> is_cstr m p (slice m p n)"
proof (induction p m arbitrary: n rule: strlen.induct)
  case (1 p m)
  from "1.prems" obtain c where c: "rd m p = Some c"
    by (subst (asm) strlen.simps) (auto split: Option.bind_splits)
  show ?case
  proof (cases "c = 0")
    case True
    with "1.prems" c show ?thesis by (subst (asm) strlen.simps) auto
  next
    case False
    with "1.prems" c obtain k where k: "n = Suc k" "strlen (Suc p) m = Some k"
      by (subst (asm) strlen.simps) (auto simp: mem_simps)
    from "1.IH" [OF c False k(2)] c False k(1) show ?thesis by (auto simp: slice_Suc)
  qed
qed

lemma strnlen_cstr [str_simps]: "is_cstr m p s \<Longrightarrow> strnlen p n m = Some (min n (length s))"
proof (induction n arbitrary: p s)
  case (Suc n)
  then show ?case by (cases s) (auto simp: mem_simps)
qed simp

lemma in_set_loop_cstr [str_simps]:
  "is_cstr m a t \<Longrightarrow> in_set_loop x a m = Some (x \<in> set t)"
proof (induction t arbitrary: a)
  case Nil
  then show ?case by (subst in_set_loop.simps) (auto simp: mem_simps)
next
  case (Cons c cs)
  then show ?case by (subst in_set_loop.simps) (auto simp: mem_simps)
qed

lemma strspn_cstr [str_simps]:
  "is_cstr m p s \<Longrightarrow> is_cstr m a t \<Longrightarrow>
   strspn p a m = Some (length (takeWhile (\<lambda>x. x \<in> set t) s))"
proof (induction s arbitrary: p)
  case Nil
  then show ?case by (subst strspn.simps) (auto simp: mem_simps)
next
  case (Cons c cs)
  then show ?case by (subst strspn.simps) (auto simp: mem_simps str_simps)
qed

lemma strpbrk_cstr [str_simps]:
  "is_cstr m p s \<Longrightarrow> is_cstr m a t \<Longrightarrow>
   strpbrk p a m = Some (if \<exists>x\<in>set s. x \<in> set t
                         then Some (p + length (takeWhile (\<lambda>x. x \<notin> set t) s)) else None)"
proof (induction s arbitrary: p)
  case Nil
  then show ?case by (subst strpbrk.simps) (auto simp: mem_simps)
next
  case (Cons c cs)
  then show ?case by (subst strpbrk.simps) (auto simp: mem_simps str_simps)
qed

lemma strchr_cstr [str_simps]:
  "is_cstr m p s \<Longrightarrow>
   strchr p c m = Some (if c \<in> set (s @ [0])
                        then Some (p + length (takeWhile (\<lambda>x. x \<noteq> c) s)) else None)"
proof (induction s arbitrary: p)
  case Nil
  then show ?case by (subst strchr.simps) (auto simp: mem_simps)
next
  case (Cons d ds)
  then show ?case by (subst strchr.simps) (auto simp: mem_simps)
qed

lemma strrchr_loop_hit:
  "m ! (s + i) = c \<Longrightarrow> i \<le> n \<Longrightarrow> s + n < length m \<Longrightarrow> (\<And>j. i < j \<Longrightarrow> j \<le> n \<Longrightarrow> m ! (s + j) \<noteq> c) \<Longrightarrow>
   strrchr_loop s (s + n) c m = Some (Some (s + i))"
proof (induction n)
  case 0
  then show ?case by (subst strrchr_loop.simps) (auto simp: mem_simps)
next
  case (Suc n)
  show ?case
  proof (cases "i = Suc n")
    case True
    with Suc.prems show ?thesis by (subst strrchr_loop.simps) (auto simp: mem_simps)
  next
    case False
    with Suc.prems have "strrchr_loop s (s + n) c m = Some (Some (s + i))"
      by (intro Suc.IH) auto
    moreover from False Suc.prems(2) Suc.prems(4) [of "Suc n"] have "m ! Suc (s + n) \<noteq> c" by simp
    ultimately show ?thesis using Suc.prems(3)
      by (subst strrchr_loop.simps) (auto simp: mem_simps)
  qed
qed

lemma strrchr_loop_miss:
  "s + n < length m \<Longrightarrow> (\<And>j. j \<le> n \<Longrightarrow> m ! (s + j) \<noteq> c) \<Longrightarrow> strrchr_loop s (s + n) c m = Some None"
proof (induction n)
  case 0
  then show ?case by (subst strrchr_loop.simps) (force simp: mem_simps)
next
  case (Suc n)
  then have "strrchr_loop s (s + n) c m = Some None" by simp
  with Suc.prems(1) Suc.prems(2) [of "Suc n"] show ?case
    by (subst strrchr_loop.simps) (auto simp: mem_simps)
qed

section \<open>Comparison\<close>

text \<open>The value both comparisons compute: the difference \<open>d\<close> at the first place that differs.\<close>

fun lex_diff :: "(u8 \<Rightarrow> u8 \<Rightarrow> int) \<Rightarrow> bytes \<Rightarrow> bytes \<Rightarrow> int" where
  "lex_diff d [] [] = 0"
| "lex_diff d [] (y # ys) = d 0 y"
| "lex_diff d (x # xs) [] = d x 0"
| "lex_diff d (x # xs) (y # ys) = (if x = y then lex_diff d xs ys else d x y)"

lemma lex_diff_0:
  "(\<And>a b. d a b = 0 \<longleftrightarrow> a = b) \<Longrightarrow> 0 \<notin> set s \<Longrightarrow> 0 \<notin> set t \<Longrightarrow> lex_diff d s t = 0 \<longleftrightarrow> s = t"
  by (induction d s t rule: lex_diff.induct) auto

lemma uint_eq_u8 [simp]: "uint (a :: u8) = uint b \<longleftrightarrow> a = b"
  by (simp add: word_eq_iff_unsigned [where 'a = int])

lemma sint_diff_0 [simp]: "sint ((a :: u8) - b) = 0 \<longleftrightarrow> a = b"
  by (metis eq_iff_diff_eq_0 signed_word_eqI sint_0)

lemma strcmp_cstr:
  "is_cstr m p s \<Longrightarrow> is_cstr m q t \<Longrightarrow> strcmp p q m = Some (lex_diff (\<lambda>a b. sint (a - b)) s t)"
proof (induction "\<lambda>a b :: u8. sint (a - b)" s t arbitrary: p q rule: lex_diff.induct)
  case (4 x xs y ys)
  then show ?case by (subst strcmp.simps) (auto simp: mem_simps sint_diff_0 Let_def)
qed (subst strcmp.simps, auto simp: mem_simps sint_diff_0 Let_def)+

lemma mips_strcmp_cstr:
  "is_cstr m p s \<Longrightarrow> is_cstr m q t \<Longrightarrow> Suc (p + length s) < length m \<Longrightarrow>
   mips_strcmp p q m = Some (lex_diff (\<lambda>a b. uint a - uint b) s t)"
proof (induction "\<lambda>(a :: u8) (b :: u8). uint a - uint b" s t arbitrary: p q rule: lex_diff.induct)
  case (4 x xs y ys)
  then show ?case by (subst mips_strcmp.simps) (auto simp: mem_simps)
qed (subst mips_strcmp.simps, auto simp: mem_simps)+

text \<open>
  The interface of a string comparison: on two strings it gives a result, which is zero exactly when
  they are equal. \<open>slack\<close> is how many bytes past the terminator it may read.
\<close>

locale str_compare =
  fixes cmp :: "addr \<Rightarrow> addr \<Rightarrow> mem \<Rightarrow> int option"
    and slack :: nat
  assumes cmp_zero: "is_cstr m p s \<Longrightarrow> is_cstr m q t \<Longrightarrow> p + length s + slack < length m \<Longrightarrow>
    \<exists>r. cmp p q m = Some r \<and> (r = 0 \<longleftrightarrow> s = t)"
begin

lemma cmp_same: "is_cstr m p s \<Longrightarrow> p + length s + slack < length m \<Longrightarrow> cmp p p m = Some 0"
  using cmp_zero [of m p s p s] by auto

lemma cmp_decides:
  "is_cstr m p s \<Longrightarrow> is_cstr m q t \<Longrightarrow> p + length s + slack < length m \<Longrightarrow>
   map_option (\<lambda>r. r = 0) (cmp p q m) = Some (s = t)"
  using cmp_zero [of m p s q t] by auto

end

interpretation generic: str_compare strcmp 0
proof unfold_locales
  fix m p s q t
  assume "is_cstr m p s" "is_cstr m q t"
  then show "\<exists>r. strcmp p q m = Some r \<and> (r = 0) = (s = t)"
    using lex_diff_0 [of "\<lambda>a b. sint (a - b)" s t] by (auto simp: strcmp_cstr dest!: is_cstr_nul_free)
qed

interpretation mips: str_compare mips_strcmp 1
proof unfold_locales
  fix m p s q t
  assume "is_cstr m p s" "is_cstr m q t" "p + length s + 1 < length m"
  then show "\<exists>r. mips_strcmp p q m = Some r \<and> (r = 0) = (s = t)"
    using lex_diff_0 [of "\<lambda>a b. uint a - uint b" s t]
    by (auto simp: mips_strcmp_cstr dest!: is_cstr_nul_free)
qed

lemma memcmp_loop_slice:
  "p + n \<le> length m \<Longrightarrow> q + n \<le> length m \<Longrightarrow>
   \<exists>r. memcmp_loop p q n 0 m = Some r \<and> (r = 0 \<longleftrightarrow> slice m p n = slice m q n)"
proof (induction n arbitrary: p q)
  case (Suc n)
  from Suc.prems Suc.IH [of "Suc p" "Suc q"] show ?case
    by (auto simp: mem_simps slice_Suc Let_def)
qed simp

lemma memcmp_slice [str_simps]:
  "p + n \<le> length m \<Longrightarrow> q + n \<le> length m \<Longrightarrow>
   map_option (\<lambda>r. r = 0) (memcmp p q n m) = Some (slice m p n = slice m q n)"
  using memcmp_loop_slice [of p n m q] by (auto simp: memcmp_def)

section \<open>Copying\<close>

lemma strcpy_loop_cstr:
  "is_cstr m p s \<Longrightarrow> d + length s < length m \<Longrightarrow> d \<le> p \<or> p + length s < d \<Longrightarrow>
   strcpy_loop d p m = Some (blit m d (s @ [0]))"
proof (induction s arbitrary: d p m)
  case Nil
  then show ?case by (subst strcpy_loop.simps) (auto simp: mem_simps)
next
  case (Cons c cs)
  from Cons.prems have "is_cstr (m[d := c]) (Suc p) cs" by (auto simp: str_simps)
  with Cons.prems have "strcpy_loop (Suc d) (Suc p) (m[d := c]) = Some (blit (m[d := c]) (Suc d) (cs @ [0]))"
    by (intro Cons.IH) auto
  with Cons.prems show ?case by (subst strcpy_loop.simps) (auto simp: mem_simps)
qed

text \<open>Copying a string onto its own tail overwrites the terminator: the loop runs out of memory.\<close>

lemma strcpy_loop_overlap:
  "p < d \<Longrightarrow> \<forall>k. p \<le> k \<and> k < d \<longrightarrow> k < length m \<and> m ! k \<noteq> 0 \<Longrightarrow> strcpy_loop d p m = None"
proof (induction d p m rule: strcpy_loop.induct)
  case (1 d p m)
  from "1.prems" have p: "p < length m" "m ! p \<noteq> 0" by auto
  show ?case
  proof (cases "d < length m")
    case False
    with p show ?thesis by (subst strcpy_loop.simps) (auto simp: mem_simps wr_def)
  next
    case True
    with p "1.prems" have "strcpy_loop (Suc d) (Suc p) (m[d := m ! p]) = None"
      by (intro "1.IH" [of "m ! p"]) (auto simp: mem_simps nth_list_update less_Suc_eq)
    with p True show ?thesis by (subst strcpy_loop.simps) (auto simp: mem_simps)
  qed
qed

lemma strncpy_loop_cstr:
  "is_cstr m p s \<Longrightarrow> d + min n (Suc (length s)) \<le> length m \<Longrightarrow> d \<le> p \<or> p + length s < d \<Longrightarrow>
   strncpy_loop d p n m = Some (blit m d (take n (s @ [0])))"
proof (induction n arbitrary: d p m s)
  case (Suc n)
  show ?case
  proof (cases s)
    case Nil
    with Suc.prems show ?thesis by (auto simp: mem_simps)
  next
    case (Cons c cs)
    with Suc.prems have "is_cstr (m[d := c]) (Suc p) cs" by (auto simp: str_simps)
    with Suc.prems Cons have "strncpy_loop (Suc d) (Suc p) n (m[d := c])
        = Some (blit (m[d := c]) (Suc d) (take n (cs @ [0])))"
      by (intro Suc.IH) auto
    with Suc.prems Cons show ?thesis by (auto simp: mem_simps)
  qed
qed simp

lemma strncat_loop_cstr:
  "is_cstr m p s \<Longrightarrow> 0 < n \<Longrightarrow> d + min n (length s) < length m \<Longrightarrow> p + length s < d \<Longrightarrow>
   strncat_loop d p n m = Some (blit m d (take n s @ [0]))"
proof (induction n arbitrary: d p m s)
  case (Suc n)
  show ?case
  proof (cases s)
    case Nil
    with Suc.prems show ?thesis by (auto simp: mem_simps)
  next
    case (Cons c cs)
    show ?thesis
    proof (cases "n = 0")
      case True
      with Suc.prems Cons show ?thesis by (auto simp: mem_simps)
    next
      case False
      with Suc.prems Cons have "strncat_loop (Suc d) (Suc p) n (m[d := c])
          = Some (blit (m[d := c]) (Suc d) (take n cs @ [0]))"
        by (intro Suc.IH) (auto simp: str_simps)
      with Suc.prems Cons False show ?thesis by (auto simp: mem_simps)
    qed
  qed
qed simp

lemma memset_loop_eq:
  "p + n \<le> length m \<Longrightarrow> memset_loop p c n m = Some (blit m p (replicate n c))"
  by (induction n arbitrary: p m) (auto simp: mem_simps)

text \<open>
  The interface of a block copy: which placements \<open>fits d s n\<close> of target and source it handles; there
  the target block gets the bytes the source block had before.
\<close>

locale block_copy =
  fixes copy :: "addr \<Rightarrow> addr \<Rightarrow> nat \<Rightarrow> mem \<Rightarrow> mem option"
    and fits :: "addr \<Rightarrow> addr \<Rightarrow> nat \<Rightarrow> bool"
  assumes copy_blit: "fits d s n \<Longrightarrow> d + n \<le> length m \<Longrightarrow> s + n \<le> length m \<Longrightarrow>
    copy d s n m = Some (blit m d (slice m s n))"
begin

lemma copy_length: "fits d s n \<Longrightarrow> d + n \<le> length m \<Longrightarrow> s + n \<le> length m \<Longrightarrow>
    copy d s n m = Some m' \<Longrightarrow> length m' = length m"
  by (auto simp: copy_blit)

lemma copy_moves: "fits d s n \<Longrightarrow> d + n \<le> length m \<Longrightarrow> s + n \<le> length m \<Longrightarrow>
    \<exists>m'. copy d s n m = Some m' \<and> slice m' d n = slice m s n"
  using slice_blit_same [of d "slice m s n" m] by (auto simp: copy_blit)

lemma copy_frame: "fits d s n \<Longrightarrow> d + n \<le> length m \<Longrightarrow> s + n \<le> length m \<Longrightarrow>
    i < length m \<Longrightarrow> i < d \<or> d + n \<le> i \<Longrightarrow> \<exists>m'. copy d s n m = Some m' \<and> m' ! i = m ! i"
  by (auto simp: copy_blit mem_simps)

lemma copy_string: "fits d p (Suc (length s)) \<Longrightarrow> is_cstr m p s \<Longrightarrow> d + length s < length m \<Longrightarrow>
    \<exists>m'. copy d p (Suc (length s)) m = Some m' \<and> is_cstr m' d s"
  using is_cstr_blit_same [of s d m] is_cstr_iff [of m p s]
  by (auto simp: copy_blit)

end

lemma copy_up_blit:
  "d \<le> s \<or> s + n \<le> d \<Longrightarrow> d + n \<le> length m \<Longrightarrow> s + n \<le> length m \<Longrightarrow>
   copy_up d s n m = Some (blit m d (slice m s n))"
proof (induction n arbitrary: d s m)
  case (Suc n)
  then have "copy_up (Suc d) (Suc s) n (m[d := m ! s])
      = Some (blit (m[d := m ! s]) (Suc d) (slice (m[d := m ! s]) (Suc s) n))"
    by (intro Suc.IH) auto
  moreover have "slice (m[d := m ! s]) (Suc s) n = slice m (Suc s) n"
    using Suc.prems by (intro slice_update_other) auto
  ultimately show ?case using Suc.prems by (auto simp: mem_simps slice_Suc)
qed simp

lemma copy_down_blit:
  "s \<le> d \<or> d + n \<le> s \<Longrightarrow> d + n \<le> length m \<Longrightarrow> s + n \<le> length m \<Longrightarrow>
   copy_down d s n m = Some (blit m d (slice m s n))"
proof (induction n arbitrary: m)
  case (Suc n)
  let ?m = "m[d + n := m ! (s + n)]"
  have "copy_down d s n ?m = Some (blit ?m d (slice ?m s n))"
    using Suc.prems by (intro Suc.IH) auto
  moreover have "slice ?m s n = slice m s n"
    using Suc.prems by (intro slice_update_other) auto
  moreover have "blit ?m d (slice m s n) = blit m d (slice m s (Suc n))"
    using Suc.prems by (intro nth_equalityI) (auto simp: mem_simps nth_list_update slice_snoc nth_append)
  ultimately show ?case using Suc.prems by (auto simp: mem_simps)
qed simp

lemma bcopy_loop_copy_up: "bcopy_loop s d (int n) m = copy_up d s n m"
proof (induction n arbitrary: s d m)
  case 0
  then show ?case by (subst bcopy_loop.simps) simp
next
  case (Suc n)
  have "bcopy_loop s d (int (Suc n)) m =
      do { c \<leftarrow> rd m s; m' \<leftarrow> wr m d c; bcopy_loop (Suc s) (Suc d) (int n) m' }"
    by (subst bcopy_loop.simps) simp
  then show ?case by (simp only: Suc.IH copy_up.simps)
qed

interpretation up: block_copy copy_up "\<lambda>d s n. d \<le> s \<or> s + n \<le> d"
  by unfold_locales (rule copy_up_blit)

interpretation move: block_copy "\<lambda>d s n m. map_option fst (memmove d s n m)" "\<lambda>d s n. True"
proof unfold_locales
  fix d s n :: nat and m :: mem
  assume "d + n \<le> length m" "s + n \<le> length m"
  then show "map_option fst (memmove d s n m) = Some (blit m d (slice m s n))"
    by (simp add: memmove_def copy_up_blit copy_down_blit)
qed

section \<open>Substrings, tokens\<close>

lemma slice_cstr: "is_cstr m p s \<Longrightarrow> i + n \<le> length s \<Longrightarrow> slice m (p + i) n = take n (drop i s)"
proof -
  assume s: "is_cstr m p s" and n: "i + n \<le> length s"
  have "take n (drop i (slice m p (Suc (length s)))) = slice m (p + i) n"
    using n by (simp add: slice_def drop_take min_def add.commute)
  moreover have "take n (drop i (s @ [0])) = take n (drop i s)" using n by simp
  ultimately show "slice m (p + i) n = take n (drop i s)" using s n by (simp add: is_cstr_iff)
qed

lemma slice_cstr0: "is_cstr m p s \<Longrightarrow> slice m p (length s) = s"
  using slice_cstr [of m p s 0 "length s"] by simp

lemma strstr_loop_step:
  assumes "is_cstr m p s" "is_cstr m q t" "t \<noteq> []" "i + length t \<le> length s"
  shows "strstr_loop (p + i) q (length s - i) (length t) m =
    (if prefix t (drop i s) then Some (Some (p + i))
     else strstr_loop (p + Suc i) q (length s - Suc i) (length t) m)"
proof -
  have eq: "map_option (\<lambda>r. r = 0) (memcmp (p + i) q (length t) m) = Some (prefix t (drop i s))"
    using memcmp_slice [of "p + i" "length t" m q] slice_cstr [OF assms(1,4)] slice_cstr0 [OF assms(2)]
      is_cstr_bound [OF assms(1)] is_cstr_bound [OF assms(2)] assms(4)
    by (auto simp: prefix_def) (metis append_take_drop_id append_eq_conv_conj)+
  then obtain r where "memcmp (p + i) q (length t) m = Some r" "r = 0 \<longleftrightarrow> prefix t (drop i s)"
    by auto
  then show ?thesis using assms(3,4) by (subst strstr_loop.simps) auto
qed

lemma strstr_loop_cstr:
  assumes "is_cstr m p s" "is_cstr m q t" "t \<noteq> []" "i \<le> length s"
    and "\<forall>j<i. \<not> prefix t (drop j s)"
  shows "\<exists>r. strstr_loop (p + i) q (length s - i) (length t) m = Some r \<and>
    (case r of None \<Rightarrow> \<forall>j. \<not> prefix t (drop j s)
     | Some a \<Rightarrow> \<exists>k\<le>length s. a = p + k \<and> prefix t (drop k s) \<and> (\<forall>j<k. \<not> prefix t (drop j s)))"
  using assms(4,5)
proof (induction "length s - i" arbitrary: i rule: less_induct)
  case less
  show ?case
  proof (cases "i + length t \<le> length s")
    case False
    have "\<not> prefix t (drop j s)" if "\<not> j < i" for j
      using False that prefix_length_le [of t "drop j s"] assms(3) by (cases t) auto
    with less.prems(2) have "\<forall>j. \<not> prefix t (drop j s)" by blast
    moreover have "\<not> length t \<le> length s - i" using False less.prems(1) by simp
    ultimately show ?thesis by (subst strstr_loop.simps) auto
  next
    case True
    show ?thesis
    proof (cases "prefix t (drop i s)")
      case True
      with less.prems strstr_loop_step [OF assms(1-3) \<open>i + length t \<le> length s\<close>] show ?thesis by auto
    next
      case no: False
      have "i < length s" using True assms(3) by (cases t) auto
      then show ?thesis using strstr_loop_step [OF assms(1-3) True] no less.prems
        less.hyps [of "Suc i"] by (auto simp: less_Suc_eq)
    qed
  qed
qed

lemma sublist_iff_prefix_drop: "sublist t s \<longleftrightarrow> (\<exists>j. prefix t (drop j s))"
proof
  assume "sublist t s"
  then obtain us vs where "s = us @ t @ vs" by (auto simp: sublist_def)
  then have "drop (length us) s = t @ vs" by simp
  then show "\<exists>j. prefix t (drop j s)" by (metis prefixI)
next
  assume "\<exists>j. prefix t (drop j s)"
  then obtain j vs where "drop j s = t @ vs" by (auto elim: prefixE)
  then have "s = take j s @ t @ vs" by (metis append_take_drop_id)
  then show "sublist t s" by (metis sublist_appendI)
qed

lemma strstr_cstr:
  assumes "is_cstr m p s" "is_cstr m q t"
  shows "\<exists>r. strstr p q m = Some r \<and>
    (case r of None \<Rightarrow> \<not> sublist t s
     | Some a \<Rightarrow> \<exists>k\<le>length s. a = p + k \<and> prefix t (drop k s) \<and> (\<forall>j<k. \<not> prefix t (drop j s)))"
proof (cases "t = []")
  case True
  with assms strlen_cstr [OF assms(2)] show ?thesis by (auto simp: strstr_def intro!: exI [of _ 0])
next
  case False
  have sub: "sublist t s \<longleftrightarrow> (\<exists>j. prefix t (drop j s))" by (rule sublist_iff_prefix_drop)
  from strstr_loop_cstr [OF assms False, of 0] obtain r where
    "strstr_loop p q (length s) (length t) m = Some r"
    "case r of None \<Rightarrow> \<forall>j. \<not> prefix t (drop j s)
     | Some a \<Rightarrow> \<exists>k\<le>length s. a = p + k \<and> prefix t (drop k s) \<and> (\<forall>j<k. \<not> prefix t (drop j s))"
    by auto
  with False assms sub show ?thesis by (auto simp: strstr_def str_simps split: option.splits)
qed

text \<open>The token that starts at \<open>p\<close> ends at the first byte of \<open>t\<close>; it is cut off with a NUL there.\<close>

lemma cut_token:
  assumes "is_cstr m p s" "k \<le> length s"
  shows "is_cstr (m[p + k := 0]) p (take k s)"
  using assms
proof (induction k arbitrary: p s)
  case 0
  then show ?case using is_cstr_bound [of m p s] by simp
next
  case (Suc k)
  then show ?case using Suc.IH [of "Suc p"] by (cases s) auto
qed

lemma strsep_cstr:
  assumes "is_cstr m p s" "is_cstr m q t" "\<exists>x\<in>set s. x \<in> set t" "q + length t < p \<or> p + length s < q"
  defines "k \<equiv> length (takeWhile (\<lambda>x. x \<notin> set t) s)"
  shows "\<exists>m'. strsep (Some p) q m = Some (Some p, Some (p + Suc k), m') \<and>
    is_cstr m' p (takeWhile (\<lambda>x. x \<notin> set t) s) \<and> is_cstr m' (p + Suc k) (drop (Suc k) s) \<and>
    is_cstr m' q t \<and> length m' = length m"
proof -
  have k: "k < length s"
    using assms(3) unfolding k_def by (induction s) auto
  have "is_cstr m (p + Suc k) (drop (Suc k) s)" using assms(1) k by (intro is_cstr_drop) auto
  then have r: "is_cstr (m[p + k := 0]) (p + Suc k) (drop (Suc k) s)"
    by (subst is_cstr_update) auto
  have "is_cstr (m[p + k := 0]) p (take k s)" using assms(1) k by (intro cut_token) auto
  then have f: "is_cstr (m[p + k := 0]) p (takeWhile (\<lambda>x. x \<notin> set t) s)"
    unfolding k_def by (simp only: takeWhile_eq_take [symmetric])
  have d: "is_cstr (m[p + k := 0]) q t"
    using assms(2,4) k by (subst is_cstr_update) auto
  have e: "strsep (Some p) q m = Some (Some p, Some (p + Suc k), m[p + k := 0])"
    using assms(3) is_cstr_bound [OF assms(1)] k strpbrk_cstr [OF assms(1,2)]
    by (simp add: strsep_def k_def [symmetric] mem_simps)
  show ?thesis using e f r d by (intro exI [of _ "m[p + k := 0]"]) simp
qed

lemma strsep_last:
  assumes "is_cstr m p s" "is_cstr m q t" "\<forall>x\<in>set s. x \<notin> set t"
  shows "strsep (Some p) q m = Some (Some p, None, m)"
  using assms by (auto simp: strsep_def str_simps)

section \<open>Properties\<close>

text \<open>\<^verbatim>\<open>strstr\<close> never faults on two strings; it returns NULL exactly when the second is no
  substring of the first, and else the address of the first occurrence.\<close>

theorem strstr_first:
  assumes "is_cstr m p s" "is_cstr m q t"
  shows "strstr p q m = Some None \<and> \<not> sublist t s \<or>
    (\<exists>k\<le>length s. strstr p q m = Some (Some (p + k)) \<and> prefix t (drop k s) \<and>
       (\<forall>j<k. \<not> prefix t (drop j s)))"
proof -
  obtain r where "strstr p q m = Some r" and r: "case r of None \<Rightarrow> \<not> sublist t s
     | Some a \<Rightarrow> \<exists>k\<le>length s. a = p + k \<and> prefix t (drop k s) \<and> (\<forall>j<k. \<not> prefix t (drop j s))"
    using strstr_cstr [OF assms] by blast
  then show ?thesis by (cases r) auto
qed

lemma strstr_first_witness:
  "strstr 0 6 [97, 98, 97, 98, 99, 0, 98, 99, 0] = Some (Some 3)"
proof -
  have "is_cstr [97, 98, 97, 98, 99, 0, 98, 99, 0] 0 [97, 98, 97, 98, 99]"
    "is_cstr [97, 98, 97, 98, 99, 0, 98, 99, 0] 6 [98, 99]" by simp_all
  from strstr_first [OF this] show ?thesis
  proof (elim disjE exE conjE)
    fix k assume k: "k \<le> length [97, 98, 97, 98, 99 :: u8]" "prefix [98, 99] (drop k [97, 98, 97, 98, 99 :: u8])"
      and "strstr 0 6 [97, 98, 97, 98, 99, 0, 98, 99, 0] = Some (Some (0 + k))"
    then show ?thesis by (auto simp: le_Suc_eq numeral_eq_Suc)
  qed (simp add: sublist_code)
qed

text \<open>\<^verbatim>\<open>strsep\<close> on a string with a separator in it cuts the string there: the token, the rest
  after the separator and the set of separators are strings of the new memory.\<close>

theorem strsep_splits:
  assumes "is_cstr m p s" "is_cstr m q t" "\<exists>x\<in>set s. x \<in> set t" "q + length t < p \<or> p + length s < q"
  shows "\<exists>m'. strsep (Some p) q m =
      Some (Some p, Some (p + Suc (length (takeWhile (\<lambda>x. x \<notin> set t) s))), m') \<and>
    is_cstr m' p (takeWhile (\<lambda>x. x \<notin> set t) s) \<and>
    is_cstr m' (p + Suc (length (takeWhile (\<lambda>x. x \<notin> set t) s))) (tl (dropWhile (\<lambda>x. x \<notin> set t) s)) \<and>
    is_cstr m' q t \<and> length m' = length m"
  using strsep_cstr [OF assms] by (simp add: dropWhile_eq_drop drop_Suc tl_drop)

lemma strsep_splits_witness:
  "\<exists>m'. strsep (Some 0) 6 [97, 98, 59, 99, 100, 0, 59, 0] = Some (Some 0, Some 3, m') \<and> is_cstr m' 3 [99, 100]"
  using strsep_splits [of "[97, 98, 59, 99, 100, 0, 59, 0]" 0 "[97, 98, 59, 99, 100]" 6 "[59]"]
  by (auto simp: numeral_3_eq_3)

text \<open>\<^verbatim>\<open>memmove\<close> is a block copy for any placement of the two blocks, overlapping or not: the
  target holds what the source held before, every other byte is unchanged.\<close>

theorem memmove_any_overlap:
  assumes "d + n \<le> length m" "s + n \<le> length m"
  shows "\<exists>m'. memmove d s n m = Some (m', d) \<and> slice m' d n = slice m s n \<and>
    length m' = length m \<and> (\<forall>i<length m. i < d \<or> d + n \<le> i \<longrightarrow> m' ! i = m ! i)"
proof -
  have "map_option fst (memmove d s n m) = Some (blit m d (slice m s n))"
    using assms by (intro move.copy_blit) simp_all
  then have "memmove d s n m = Some (blit m d (slice m s n), d)" by (auto simp: memmove_def)
  then show ?thesis
    using assms slice_blit_same [of d "slice m s n" m] by (auto simp: nth_blit)
qed

lemma memmove_any_overlap_witness:
  "\<exists>m'. memmove 1 0 3 [1, 2, 3, 4, 5] = Some (m', 1) \<and> slice m' 1 3 = [1, 2, 3] \<and> m' ! 4 = 5"
  using memmove_any_overlap [of 1 3 "[1, 2, 3, 4, 5]" 0] by (auto simp: slice_def)

text \<open>The generic and the MIPS \<^verbatim>\<open>strcmp\<close> both return zero exactly on equal strings; the MIPS
  version needs one readable byte behind the first string, which it loads in its delay slot.\<close>

theorem strcmp_versions:
  assumes "is_cstr m p s" "is_cstr m q t"
  shows "map_option (\<lambda>r. r = 0) (strcmp p q m) = Some (s = t) \<and>
    (p + length s + 1 < length m \<longrightarrow> map_option (\<lambda>r. r = 0) (mips_strcmp p q m) = Some (s = t))"
  using generic.cmp_decides [OF assms] mips.cmp_decides [OF assms] is_cstr_bound [OF assms(1)] by simp_all

lemma strcmp_versions_witness:
  "map_option (\<lambda>r. r = 0) (strcmp 0 2 [127, 0, 255, 0]) = Some False \<and>
   map_option (\<lambda>r. r = 0) (mips_strcmp 0 2 [127, 0, 255, 0]) = Some False"
  using strcmp_versions [of "[127, 0, 255, 0]" 0 "[127]" 2 "[255]"] by simp

text \<open>
  The result of the generic \<^verbatim>\<open>strcmp\<close> passes through a \<^verbatim>\<open>signed char\<close>: its sign is no order, both
  directions may be negative. The MIPS version faults on a string that ends its memory.
\<close>

lemma strcmp_sign: "strcmp 0 2 [127, 0, 255, 0] = Some (-128)" "strcmp 2 0 [127, 0, 255, 0] = Some (-128)"
  by code_simp+

lemma mips_strcmp_overread: "mips_strcmp 2 0 [97, 0, 97, 0] = None" "strcmp 2 0 [97, 0, 97, 0] = Some 0"
  by code_simp+

lemma strcpy_onto_tail: "is_cstr m p (c # s) \<Longrightarrow> strcpy (Suc p) p m = None"
  using strcpy_loop_overlap [of p "Suc p" m] by (simp add: strcpy_def) (metis le_less_Suc_eq)

end
