(* ===== verification/Vsprintf.thy ===== *)
theory Vsprintf
  imports CStringProps
begin

text \<open>
  Number parsing and formatted output: \<^verbatim>\<open>lib_generic/vsprintf.c\<close> as the boards of this repository build it
  (\<^verbatim>\<open>CONFIG_SYS_VSNPRINTF\<close> set, \<^verbatim>\<open>NUM_TYPE\<close> is the 32-bit \<^verbatim>\<open>long\<close>, the \<^verbatim>\<open>%p\<close> network extensions compiled
  out). Format, strings and output share one memory, so overlapping buffers mean what they mean in C.
  The output position is the pair of the memory and the running pointer \<^verbatim>\<open>str\<close>; an \<^verbatim>\<open>int\<close> is an \<open>int\<close>
  (its overflow is undefined in C). The variadic arguments are a list; reading one at a wrong type, or one
  too many, is \<open>None\<close>.
\<close>

section \<open>Parsing\<close>

text \<open>The value of a hexadecimal digit.\<close>

definition digit_value :: "u8 \<Rightarrow> u32" where
  "digit_value c = (if isdigit c then ucast c - 48
     else ucast (if islower c then toupper c else c) - 65 + 10)"

function strtoul_loop :: "mem \<Rightarrow> u32 \<Rightarrow> addr \<Rightarrow> u32 \<Rightarrow> (u32 \<times> addr) option" where
  "strtoul_loop m base cp result = do {
     c \<leftarrow> rd m cp;
     if isxdigit c \<and> digit_value c < base
     then strtoul_loop m base (Suc cp) (result * base + digit_value c)
     else Some (result, cp) }"
  by pat_completeness auto
termination by (relation "measure (\<lambda>(m, b, cp, r). length m - cp)") auto

text \<open>The prefix \<^verbatim>\<open>0\<close> or \<^verbatim>\<open>0x\<close>: the position after it and the base it sets.\<close>

definition strtoul_prefix :: "mem \<Rightarrow> addr \<Rightarrow> u32 \<Rightarrow> (addr \<times> u32) option" where
  "strtoul_prefix m cp base = do {
     c \<leftarrow> rd m cp;
     if c = 48 then do {
       x \<leftarrow> rd m (Suc cp);
       (cp', base') \<leftarrow> (if x = 120
          then do { h \<leftarrow> rd m (Suc (Suc cp));
                    Some (if isxdigit h then (Suc (Suc cp), 16) else (Suc cp, base)) }
          else Some (Suc cp, base));
       Some (cp', if base' = 0 then 8 else base') }
     else Some (cp, base) }"

definition simple_strtoul :: "addr \<Rightarrow> u32 \<Rightarrow> mem \<Rightarrow> (u32 \<times> addr) option" where
  "simple_strtoul cp base m = do {
     (cp', base') \<leftarrow> strtoul_prefix m cp base;
     strtoul_loop m (if base' = 0 then 10 else base') cp' 0 }"

definition simple_strtol :: "addr \<Rightarrow> u32 \<Rightarrow> mem \<Rightarrow> (int \<times> addr) option" where
  "simple_strtol cp base m = do {
     c \<leftarrow> rd m cp;
     if c = 45 then do { (r, e) \<leftarrow> simple_strtoul (Suc cp) base m; Some (sint (- r), e) }
     else do { (r, e) \<leftarrow> simple_strtoul cp base m; Some (sint r, e) } }"

definition is_digit :: "u8 \<Rightarrow> bool" where
  "is_digit c \<longleftrightarrow> 48 \<le> c \<and> c \<le> 57"

function skip_atoi :: "mem \<Rightarrow> addr \<Rightarrow> int \<Rightarrow> (int \<times> addr) option" where
  "skip_atoi m s i = do {
     c \<leftarrow> rd m s;
     if is_digit c then skip_atoi m (Suc s) (i * 10 + uint c - 48) else Some (i, s) }"
  by pat_completeness auto
termination by (relation "measure (\<lambda>(m, s, i). length m - s)") auto

declare strtoul_loop.simps [simp del] skip_atoi.simps [simp del]

section \<open>Decimal digits\<close>

text \<open>\<^verbatim>\<open>put_dec_trunc\<close> and \<^verbatim>\<open>put_dec_full\<close> give the bytes they append, least significant digit first.\<close>

definition put_dec_trunc :: "u32 \<Rightarrow> bytes" where
  "put_dec_trunc q0 =
     (let d1 = drop_bit 4 q0 AND 0xf;
          d2 = drop_bit 8 q0 AND 0xf;
          d3 = drop_bit 12 q0;
          d0 = 6 * (d3 + d2 + d1) + (q0 AND 0xf);
          q = drop_bit 11 (d0 * 0xcd);
          d0 = d0 - 10 * q;
          b0 = ucast d0 + 48;
          d1 = q + 9 * d3 + 5 * d2 + d1
      in if d1 \<noteq> 0 then
           let q = drop_bit 11 (d1 * 0xcd);
               d1 = d1 - 10 * q;
               b1 = ucast d1 + 48;
               d2 = q + 2 * d2
           in if d2 \<noteq> 0 \<or> d3 \<noteq> 0 then
                let q = drop_bit 7 (d2 * 0xd);
                    d2 = d2 - 10 * q;
                    b2 = ucast d2 + 48;
                    d3 = q + 4 * d3
                in if d3 \<noteq> 0 then
                     let q = drop_bit 11 (d3 * 0xcd);
                         d3 = d3 - 10 * q;
                         b3 = ucast d3 + 48
                     in if q \<noteq> 0 then [b0, b1, b2, b3, ucast q + 48] else [b0, b1, b2, b3]
                   else [b0, b1, b2]
              else [b0, b1]
         else [b0])"

definition put_dec_full :: "u32 \<Rightarrow> bytes" where
  "put_dec_full q0 =
     (let d1 = drop_bit 4 q0 AND 0xf;
          d2 = drop_bit 8 q0 AND 0xf;
          d3 = drop_bit 12 q0;
          d0 = 6 * (d3 + d2 + d1) + (q0 AND 0xf);
          q = drop_bit 11 (d0 * 0xcd);
          d0 = d0 - 10 * q;
          b0 = ucast d0 + 48;
          d1 = q + 9 * d3 + 5 * d2 + d1;
          q = drop_bit 11 (d1 * 0xcd);
          d1 = d1 - 10 * q;
          b1 = ucast d1 + 48;
          d2 = q + 2 * d2;
          q = drop_bit 7 (d2 * 0xd);
          d2 = d2 - 10 * q;
          b2 = ucast d2 + 48;
          d3 = q + 4 * d3;
          q = drop_bit 11 (d3 * 0xcd);
          d3 = d3 - 10 * q;
          b3 = ucast d3 + 48
      in [b0, b1, b2, b3, ucast q + 48])"

function put_dec :: "u32 \<Rightarrow> bytes" where
  "put_dec num =
     (if num < 100000 then put_dec_trunc num
      else put_dec_full (num mod 100000) @ put_dec (num div 100000))"
  by pat_completeness auto
termination
  by (relation "measure unat") (auto simp: unat_div unsigned_eq_0_iff word_less_nat_alt not_less intro!: div_less_dividend)

declare put_dec.simps [simp del]

section \<open>Numbers and strings into a bounded buffer\<close>

definition ZEROPAD :: u32 where "ZEROPAD = 1"
definition SIGN :: u32 where "SIGN = 2"
definition PLUS :: u32 where "PLUS = 4"
definition SPACE :: u32 where "SPACE = 8"
definition LEFT :: u32 where "LEFT = 16"
definition SMALL :: u32 where "SMALL = 32"
definition SPECIAL :: u32 where "SPECIAL = 64"

type_synonym out = "mem \<times> addr"

definition ADDCH :: "addr \<Rightarrow> u8 \<Rightarrow> out \<Rightarrow> out option" where
  "ADDCH lim ch st = (case st of (m, str) \<Rightarrow>
     if str < lim then do { m' \<leftarrow> wr m str ch; Some (m', Suc str) } else Some (m, Suc str))"

definition digits :: bytes where
  "digits = bytes_of ''0123456789ABCDEF''"

text \<open>The \<^verbatim>\<open>do\<close> loop for bases 8 and 16, at least one digit, least significant first.\<close>

function radix_loop :: "int \<Rightarrow> u8 \<Rightarrow> u32 \<Rightarrow> bytes" where
  "radix_loop base locase num =
     (let num' = drop_bit (if base = 16 then 4 else 3) num
      in ((digits ! unat ((ucast num :: u8) AND word_of_int (base - 1))) OR locase) #
         (if num' \<noteq> 0 then radix_loop base locase num' else []))"
  by pat_completeness auto
termination
proof (relation "measure (\<lambda>(b, l, n). unat n)")
  fix base :: int and locase :: u8 and num num' :: u32
  assume n: "num' = drop_bit (if base = 16 then 4 else 3) num" "num' \<noteq> 0"
  then have "num \<noteq> 0" by auto
  moreover have "unat num' = unat num div 2 ^ (if base = 16 then 4 else 3)"
    using n by (simp add: drop_bit_eq_div unat_div split: if_splits)
  ultimately show "((base, locase, num'), base, locase, num) \<in> measure (\<lambda>(b, l, n). unat n)"
    by (auto intro!: div_less_dividend simp: unsigned_eq_0_iff zero_less_iff_neq_zero)
qed simp

declare radix_loop.simps [simp del]

text \<open>\<^verbatim>\<open>while (--size >= 0) ADDCH(buf, c)\<close>, with the value \<^verbatim>\<open>size\<close> has afterwards.\<close>

function pad_loop :: "addr \<Rightarrow> u8 \<Rightarrow> int \<Rightarrow> out \<Rightarrow> (int \<times> out) option" where
  "pad_loop lim c sz st =
     (if 0 \<le> sz - 1 then do { st' \<leftarrow> ADDCH lim c st; pad_loop lim c (sz - 1) st' }
      else Some (sz - 1, st))"
  by pat_completeness auto
termination by (relation "measure (\<lambda>(l, c, sz, st). nat sz)") auto

text \<open>\<^verbatim>\<open>while (i <= --precision) ADDCH(buf, '0')\<close>.\<close>

function prec_loop :: "addr \<Rightarrow> int \<Rightarrow> int \<Rightarrow> out \<Rightarrow> out option" where
  "prec_loop lim i precision st =
     (if i \<le> precision - 1 then do { st' \<leftarrow> ADDCH lim 48 st; prec_loop lim i (precision - 1) st' }
      else Some st)"
  by pat_completeness auto
termination by (relation "measure (\<lambda>(l, i, p, st). nat (p - i))") auto

declare pad_loop.simps [simp del] prec_loop.simps [simp del]

text \<open>\<^verbatim>\<open>while (--i >= 0) ADDCH(buf, tmp[i])\<close> on the reversed \<^verbatim>\<open>tmp\<close>.\<close>

fun put_list :: "addr \<Rightarrow> bytes \<Rightarrow> out \<Rightarrow> out option" where
  "put_list lim [] st = Some st"
| "put_list lim (c # cs) st = do { st' \<leftarrow> ADDCH lim c st; put_list lim cs st' }"

definition number :: "addr \<Rightarrow> u32 \<Rightarrow> int \<Rightarrow> int \<Rightarrow> int \<Rightarrow> u32 \<Rightarrow> out \<Rightarrow> out option" where
  "number lim num0 base size0 precision0 type0 st =
     (let need_pfx = type0 AND SPECIAL \<noteq> 0 \<and> base \<noteq> 10;
          locase = ucast (type0 AND SMALL) :: u8;
          type = (if type0 AND LEFT \<noteq> 0 then type0 AND NOT ZEROPAD else type0);
          (sign, num, size1) =
            (if type AND SIGN \<noteq> 0 then
               if sint num0 < 0 then (45, - num0, size0 - 1)
               else if type AND PLUS \<noteq> 0 then (43, num0, size0 - 1)
               else if type AND SPACE \<noteq> 0 then (32, num0, size0 - 1)
               else (0, num0, size0)
             else (0 :: u8, num0, size0));
          size2 = (if need_pfx then if base = 16 then size1 - 2 else size1 - 1 else size1);
          tmp = (if num = 0 then [48] else if base \<noteq> 10 then radix_loop base locase num else put_dec num);
          i = int (length tmp);
          precision = (if i > precision0 then i else precision0);
          size3 = size2 - precision
      in do {
        (size4, st1) \<leftarrow> (if type AND (ZEROPAD + LEFT) = 0 then pad_loop lim 32 size3 st else Some (size3, st));
        st2 \<leftarrow> (if sign \<noteq> 0 then ADDCH lim sign st1 else Some st1);
        st3 \<leftarrow> (if need_pfx then do {
                 st' \<leftarrow> ADDCH lim 48 st2;
                 if base = 16 then ADDCH lim (88 OR locase) st' else Some st' }
               else Some st2);
        (size5, st4) \<leftarrow> (if type AND LEFT = 0
               then pad_loop lim (if type AND ZEROPAD \<noteq> 0 then 48 else 32) size4 st3 else Some (size4, st3));
        st5 \<leftarrow> prec_loop lim i precision st4;
        st6 \<leftarrow> put_list lim (rev tmp) st5;
        (size6, st7) \<leftarrow> pad_loop lim 32 size5 st6;
        Some st7 })"

text \<open>A string argument is in memory or one of the literals the code prints for a null pointer.\<close>

datatype str_src = In_mem addr | Literal bytes

fun src_rd :: "mem \<Rightarrow> str_src \<Rightarrow> nat \<Rightarrow> u8 option" where
  "src_rd m (In_mem p) i = rd m (p + i)"
| "src_rd m (Literal bs) i = Some (if i < length bs then bs ! i else 0)"

fun src_len :: "mem \<Rightarrow> str_src \<Rightarrow> nat \<Rightarrow> nat option" where
  "src_len m (In_mem p) n = strnlen p n m"
| "src_len m (Literal bs) n = Some (min n (length bs))"

text \<open>\<^verbatim>\<open>while (len < field_width--) ADDCH(buf, ' ')\<close>.\<close>

function width_loop :: "addr \<Rightarrow> int \<Rightarrow> int \<Rightarrow> out \<Rightarrow> (int \<times> out) option" where
  "width_loop lim len fw st =
     (if len < fw then do { st' \<leftarrow> ADDCH lim 32 st; width_loop lim len (fw - 1) st' }
      else Some (fw - 1, st))"
  by pat_completeness auto
termination by (relation "measure (\<lambda>(l, len, fw, st). nat (fw - len))") auto

declare width_loop.simps [simp del]

text \<open>\<open>copy_src lim s i k\<close>: \<open>k\<close> characters from position \<open>i\<close> on.\<close>

fun copy_src :: "addr \<Rightarrow> str_src \<Rightarrow> nat \<Rightarrow> nat \<Rightarrow> out \<Rightarrow> out option" where
  "copy_src lim s i 0 st = Some st"
| "copy_src lim s i (Suc k) st = do {
     c \<leftarrow> src_rd (fst st) s i; st' \<leftarrow> ADDCH lim c st; copy_src lim s (Suc i) k st' }"

definition string_out :: "addr \<Rightarrow> str_src \<Rightarrow> int \<Rightarrow> int \<Rightarrow> u32 \<Rightarrow> out \<Rightarrow> out option" where
  "string_out lim s field_width precision flags st = do {
     len \<leftarrow> src_len (fst st) s (unat (word_of_int precision :: u32));
     (fw1, st1) \<leftarrow> (if flags AND LEFT = 0 then width_loop lim (int len) field_width st
                    else Some (field_width, st));
     st2 \<leftarrow> copy_src lim s 0 len st1;
     (fw2, st3) \<leftarrow> width_loop lim (int len) fw1 st2;
     Some st3 }"

definition pointer :: "addr \<Rightarrow> addr option \<Rightarrow> int \<Rightarrow> int \<Rightarrow> u32 \<Rightarrow> out \<Rightarrow> out option" where
  "pointer lim ptr field_width precision flags st = (case ptr of
     None \<Rightarrow> string_out lim (Literal (bytes_of ''(null)'')) field_width precision flags st
   | Some p \<Rightarrow>
       let flags1 = flags OR SMALL;
           (fw, flags2) = (if field_width = -1 then (8, flags1 OR ZEROPAD) else (field_width, flags1))
       in number lim (of_nat p) 16 fw precision flags2 st)"

section \<open>The format interpreter\<close>

datatype va_arg = AWord u32 | ALong "64 word" | APtr "addr option"

fun va_word :: "va_arg list \<Rightarrow> (u32 \<times> va_arg list) option" where
  "va_word (AWord w # as) = Some (w, as)"
| "va_word _ = None"

fun va_long :: "va_arg list \<Rightarrow> (64 word \<times> va_arg list) option" where
  "va_long (ALong w # as) = Some (w, as)"
| "va_long _ = None"

fun va_ptr :: "va_arg list \<Rightarrow> (addr option \<times> va_arg list) option" where
  "va_ptr (APtr p # as) = Some (p, as)"
| "va_ptr _ = None"

text \<open>From the \<^verbatim>\<open>%\<close> on: the flags, the field width, the precision, the qualifier.\<close>

function flag_loop :: "mem \<Rightarrow> addr \<Rightarrow> u32 \<Rightarrow> (addr \<times> u32) option" where
  "flag_loop m fmt flags = do {
     c \<leftarrow> rd m (Suc fmt);
     if c = 45 then flag_loop m (Suc fmt) (flags OR LEFT)
     else if c = 43 then flag_loop m (Suc fmt) (flags OR PLUS)
     else if c = 32 then flag_loop m (Suc fmt) (flags OR SPACE)
     else if c = 35 then flag_loop m (Suc fmt) (flags OR SPECIAL)
     else if c = 48 then flag_loop m (Suc fmt) (flags OR ZEROPAD)
     else Some (Suc fmt, flags) }"
  by pat_completeness auto
termination by (relation "measure (\<lambda>(m, fmt, f). length m - fmt)") auto

declare flag_loop.simps [simp del]

definition get_width :: "mem \<Rightarrow> addr \<Rightarrow> u32 \<Rightarrow> va_arg list \<Rightarrow> (addr \<times> u32 \<times> int \<times> va_arg list) option" where
  "get_width m fmt flags args = do {
     c \<leftarrow> rd m fmt;
     if is_digit c then do { (w, fmt') \<leftarrow> skip_atoi m fmt 0; Some (fmt', flags, w, args) }
     else if c = 42 then do {
       (a, args') \<leftarrow> va_word args;
       Some (if sint a < 0 then (Suc fmt, flags OR LEFT, - sint a, args')
             else (Suc fmt, flags, sint a, args')) }
     else Some (fmt, flags, -1, args) }"

definition get_precision :: "mem \<Rightarrow> addr \<Rightarrow> va_arg list \<Rightarrow> (addr \<times> int \<times> va_arg list) option" where
  "get_precision m fmt args = do {
     c \<leftarrow> rd m fmt;
     if c = 46 then do {
       d \<leftarrow> rd m (Suc fmt);
       (fmt', p, args') \<leftarrow>
         (if is_digit d then do { (p, f) \<leftarrow> skip_atoi m (Suc fmt) 0; Some (f, p, args) }
          else if d = 42 then do { (a, as) \<leftarrow> va_word args; Some (Suc (Suc fmt), sint a, as) }
          else Some (Suc fmt, -1, args));
       Some (fmt', if p < 0 then 0 else p, args') }
     else Some (fmt, -1, args) }"

text \<open>The qualifier is \<open>None\<close> for the \<^verbatim>\<open>-1\<close> of the code.\<close>

definition get_qualifier :: "mem \<Rightarrow> addr \<Rightarrow> (addr \<times> u8 option) option" where
  "get_qualifier m fmt = do {
     c \<leftarrow> rd m fmt;
     if c \<in> set (bytes_of ''hlLZzt'') then do {
       d \<leftarrow> rd m (Suc fmt);
       Some (if c = byte_of (CHR ''l'') \<and> d = byte_of (CHR ''l'')
             then (Suc (Suc fmt), Some (byte_of (CHR ''L''))) else (Suc fmt, Some c)) }
     else Some (fmt, None) }"

definition get_num :: "u8 option \<Rightarrow> u32 \<Rightarrow> va_arg list \<Rightarrow> (u32 \<times> va_arg list) option" where
  "get_num qualifier flags args =
     (if qualifier = Some (byte_of (CHR ''L'')) then do { (w, as) \<leftarrow> va_long args; Some (ucast w, as) }
      else if qualifier = Some (byte_of (CHR ''h'')) then do {
        (w, as) \<leftarrow> va_word args;
        let h = (ucast w :: u16);
        Some (if flags AND SIGN \<noteq> 0 then scast h else ucast h, as) }
      else va_word args)"

function skip_alnum :: "mem \<Rightarrow> addr \<Rightarrow> addr option" where
  "skip_alnum m fmt = do { c \<leftarrow> rd m (Suc fmt); if isalnum c then skip_alnum m (Suc fmt) else Some fmt }"
  by pat_completeness auto
termination by (relation "measure (\<lambda>(m, fmt). length m - fmt)") auto

declare skip_alnum.simps [simp del]

text \<open>
  The \<^verbatim>\<open>switch\<close> on the conversion. The loops of the \<^verbatim>\<open>%c\<close> case test \<^verbatim>\<open>--field_width > 0\<close>, which is the
  test \<^verbatim>\<open>--size >= 0\<close> of \<open>pad_loop\<close> for \<^verbatim>\<open>size\<close> one less than \<^verbatim>\<open>field_width\<close>. The result holds the new value of \<^verbatim>\<open>fmt\<close> after the \<^verbatim>\<open>++fmt\<close> of the loop, the
  remaining arguments and the output.\<close>

definition convert :: "addr \<Rightarrow> addr \<Rightarrow> addr \<Rightarrow> u32 \<Rightarrow> int \<Rightarrow> int \<Rightarrow> u8 option \<Rightarrow> va_arg list \<Rightarrow> out
    \<Rightarrow> (addr \<times> va_arg list \<times> out) option" where
  "convert buf lim fmt flags field_width precision qualifier args st = do {
     c \<leftarrow> rd (fst st) fmt;
     let finish = (\<lambda>base fl. do {
       (num, as) \<leftarrow> get_num qualifier fl args;
       st' \<leftarrow> number lim num base field_width precision fl st;
       Some (Suc fmt, as, st') });
     if c = byte_of (CHR ''c'') then do {
       (fw, st1) \<leftarrow> (if flags AND LEFT = 0 then pad_loop lim 32 (field_width - 1) st
                      else Some (field_width, st));
       (a, as) \<leftarrow> va_word args;
       st2 \<leftarrow> ADDCH lim (ucast a) st1;
       (fw', st3) \<leftarrow> pad_loop lim 32 (if flags AND LEFT = 0 then fw else fw - 1) st2;
       Some (Suc fmt, as, st3) }
     else if c = byte_of (CHR ''s'') then do {
       (p, as) \<leftarrow> va_ptr args;
       st' \<leftarrow> string_out lim (case p of None \<Rightarrow> Literal (bytes_of ''<NULL>'') | Some a \<Rightarrow> In_mem a)
                field_width precision flags st;
       Some (Suc fmt, as, st') }
     else if c = byte_of (CHR ''p'') then do {
       (p, as) \<leftarrow> va_ptr args;
       st' \<leftarrow> pointer lim p field_width precision flags st;
       fmt' \<leftarrow> skip_alnum (fst st') fmt;
       Some (Suc fmt', as, st') }
     else if c = byte_of (CHR ''n'') then do {
       (p, as) \<leftarrow> va_ptr args;
       ip \<leftarrow> p;
       m' \<leftarrow> wr32 (fst st) ip (of_nat (snd st) - of_nat buf);
       Some (Suc fmt, as, (m', snd st)) }
     else if c = 37 then do { st' \<leftarrow> ADDCH lim 37 st; Some (Suc fmt, args, st') }
     else if c = byte_of (CHR ''o'') then finish 8 flags
     else if c = byte_of (CHR ''x'') then finish 16 (flags OR SMALL)
     else if c = byte_of (CHR ''X'') then finish 16 flags
     else if c = byte_of (CHR ''d'') \<or> c = byte_of (CHR ''i'') then finish 10 (flags OR SIGN)
     else if c = byte_of (CHR ''u'') then finish 10 flags
     else do {
       st1 \<leftarrow> ADDCH lim 37 st;
       c' \<leftarrow> rd (fst st1) fmt;
       if c' \<noteq> 0 then do { st2 \<leftarrow> ADDCH lim c' st1; Some (Suc fmt, args, st2) }
       else Some (fmt, args, st1) } }"

definition directive :: "addr \<Rightarrow> addr \<Rightarrow> addr \<Rightarrow> va_arg list \<Rightarrow> out \<Rightarrow> (addr \<times> va_arg list \<times> out) option" where
  "directive buf lim fmt args st = do {
     (f1, flags) \<leftarrow> flag_loop (fst st) fmt 0;
     (f2, flags', field_width, as) \<leftarrow> get_width (fst st) f1 flags args;
     (f3, precision, as') \<leftarrow> get_precision (fst st) f2 as;
     (f4, qualifier) \<leftarrow> get_qualifier (fst st) f3;
     convert buf lim f4 flags' field_width precision qualifier as' st }"

section \<open>Where output goes\<close>

text \<open>
  \<open>emits lim st st'\<close>: from \<open>st\<close> to \<open>st'\<close> only bytes from the running pointer up to the limit were
  written, and the pointer only moved on.
\<close>

definition emits :: "addr \<Rightarrow> out \<Rightarrow> out \<Rightarrow> bool" where
  "emits lim st st' \<longleftrightarrow> length (fst st') = length (fst st) \<and> snd st \<le> snd st' \<and>
     (\<forall>i. i < snd st \<or> lim \<le> i \<longrightarrow> fst st' ! i = fst st ! i)"

lemma emits_refl [simp]: "emits lim st st"
  by (simp add: emits_def)

lemma emits_trans: "emits lim a b \<Longrightarrow> emits lim b c \<Longrightarrow> emits lim a c"
  by (auto simp: emits_def)

lemma emits_length: "emits lim st st' \<Longrightarrow> length (fst st') = length (fst st)"
  by (simp add: emits_def)

lemma ADDCH_emits: "ADDCH lim c st = Some st' \<Longrightarrow> emits lim st st'"
  by (auto simp: ADDCH_def emits_def split: prod.splits if_splits Option.bind_splits)

lemma pad_loop_emits: "pad_loop lim c sz st = Some (sz', st') \<Longrightarrow> emits lim st st'"
proof (induction lim c sz st rule: pad_loop.induct)
  case (1 lim c sz st)
  then show ?case
    by (subst (asm) (2) pad_loop.simps)
      (auto split: if_splits Option.bind_splits intro: ADDCH_emits emits_trans)
qed

lemma prec_loop_emits: "prec_loop lim i p st = Some st' \<Longrightarrow> emits lim st st'"
proof (induction lim i p st rule: prec_loop.induct)
  case (1 lim i p st)
  then show ?case
    by (subst (asm) (2) prec_loop.simps)
      (auto split: if_splits Option.bind_splits intro: ADDCH_emits emits_trans)
qed

lemma width_loop_emits: "width_loop lim len fw st = Some (fw', st') \<Longrightarrow> emits lim st st'"
proof (induction lim len fw st rule: width_loop.induct)
  case (1 lim len fw st)
  then show ?case
    by (subst (asm) (2) width_loop.simps)
      (auto split: if_splits Option.bind_splits intro: ADDCH_emits emits_trans)
qed

lemma put_list_emits: "put_list lim cs st = Some st' \<Longrightarrow> emits lim st st'"
  by (induction cs arbitrary: st) (auto split: Option.bind_splits intro: ADDCH_emits emits_trans)

lemma copy_src_emits: "copy_src lim s i k st = Some st' \<Longrightarrow> emits lim st st'"
  by (induction k arbitrary: i st) (auto split: Option.bind_splits intro: ADDCH_emits emits_trans)

text \<open>The same for a step that may fault, with the output a component of its result.\<close>

definition keeps :: "addr \<Rightarrow> out \<Rightarrow> ('a \<Rightarrow> out) \<Rightarrow> 'a option \<Rightarrow> bool" where
  "keeps lim st out r \<longleftrightarrow> (\<forall>x. r = Some x \<longrightarrow> emits lim st (out x))"

lemma keepsD: "keeps lim st out r \<Longrightarrow> r = Some x \<Longrightarrow> emits lim st (out x)"
  by (simp add: keeps_def)

lemma keeps_Some: "emits lim st (out x) \<Longrightarrow> keeps lim st out (Some x)"
  by (simp add: keeps_def)

lemma keeps_bind_out:
  "keeps lim st id r \<Longrightarrow> (\<And>st'. keeps lim st' out (f st')) \<Longrightarrow> keeps lim st out (r \<bind> f)"
  by (auto simp: keeps_def split: Option.bind_splits intro: emits_trans)

lemma keeps_bind_pair:
  "keeps lim st snd r \<Longrightarrow> (\<And>a st'. keeps lim st' out (f a st')) \<Longrightarrow>
   keeps lim st out (r \<bind> (\<lambda>(a, st'). f a st'))"
  by (fastforce simp: keeps_def split: Option.bind_splits intro: emits_trans)

lemma keeps_bind_pure: "(\<And>x. keeps lim st out (f x)) \<Longrightarrow> keeps lim st out (r \<bind> f)"
  by (auto simp: keeps_def split: Option.bind_splits)

lemma keeps_if: "keeps lim st out a \<Longrightarrow> keeps lim st out b \<Longrightarrow> keeps lim st out (if c then a else b)"
  by simp

lemma keeps_prod: "(\<And>a b. keeps lim st out (f a b)) \<Longrightarrow> keeps lim st out (case x of (a, b) \<Rightarrow> f a b)"
  by (cases x) simp

lemma keeps_ops:
  "keeps lim st id (ADDCH lim c st)" "keeps lim st snd (pad_loop lim c sz st)"
  "keeps lim st id (prec_loop lim i p st)" "keeps lim st snd (width_loop lim len fw st)"
  "keeps lim st id (put_list lim cs st)" "keeps lim st id (copy_src lim s j k st)"
  by (auto simp: keeps_def ADDCH_emits prec_loop_emits put_list_emits copy_src_emits
      intro: pad_loop_emits width_loop_emits)

lemma keeps_id_Some: "keeps lim st id (Some st)" "keeps lim st snd (Some (a, st))"
  by (simp_all add: keeps_def)

lemmas keeps_rules = keeps_ops keeps_id_Some keeps_bind_out keeps_bind_pair keeps_if keeps_prod

lemma number_keeps: "keeps lim st id (number lim num base sz p ty st)"
  unfolding number_def Let_def by (intro keeps_rules)

lemma string_out_keeps: "keeps lim st id (string_out lim s fw p fl st)"
  unfolding string_out_def by (rule keeps_bind_pure) (intro keeps_rules)

lemma pointer_keeps: "keeps lim st id (pointer lim ptr fw p fl st)"
  unfolding pointer_def Let_def
  by (auto split: option.splits intro: number_keeps string_out_keeps)

text \<open>
  The only other store of the interpreter is the count that \<^verbatim>\<open>%n\<close> stores through its argument:
  \<open>fmt_emits\<close> allows it within the four bytes at a pointer of the argument list.
\<close>

definition ptr_bytes :: "va_arg list \<Rightarrow> addr set" where
  "ptr_bytes args = (\<Union>p\<in>{p. APtr (Some p) \<in> set args}. {p..<p + 4})"

definition fmt_emits :: "addr \<Rightarrow> va_arg list \<Rightarrow> out \<Rightarrow> va_arg list \<Rightarrow> out \<Rightarrow> bool" where
  "fmt_emits lim as st as' st' \<longleftrightarrow> set as' \<subseteq> set as \<and> length (fst st') = length (fst st) \<and>
     snd st \<le> snd st' \<and> (\<forall>i. (i < snd st \<or> lim \<le> i) \<and> i \<notin> ptr_bytes as \<longrightarrow> fst st' ! i = fst st ! i)"

lemma ptr_bytes_mono: "set as' \<subseteq> set as \<Longrightarrow> ptr_bytes as' \<subseteq> ptr_bytes as"
  by (auto simp: ptr_bytes_def)

lemma fmt_emits_refl [simp]: "fmt_emits lim as st as st"
  by (simp add: fmt_emits_def)

lemma fmt_emits_trans: "fmt_emits lim as st as' st' \<Longrightarrow> fmt_emits lim as' st' as'' st'' \<Longrightarrow> fmt_emits lim as st as'' st''"
  using ptr_bytes_mono [of as' as] unfolding fmt_emits_def
  by (intro conjI allI impI) (blast, simp, simp, metis le_trans not_le order.strict_trans2 subsetD)

lemma emits_fmt: "emits lim st st' \<Longrightarrow> set as' \<subseteq> set as \<Longrightarrow> fmt_emits lim as st as' st'"
  by (auto simp: fmt_emits_def emits_def)

lemma va_subset:
  "va_word as = Some (w, as') \<Longrightarrow> set as' \<subseteq> set as"
  "va_long as = Some (l, as') \<Longrightarrow> set as' \<subseteq> set as"
  "va_ptr as = Some (p, as') \<Longrightarrow> set as' \<subseteq> set as \<and> APtr p \<in> set as"
  subgoal by (cases as rule: va_word.cases) auto
  subgoal by (cases as rule: va_long.cases) auto
  subgoal by (cases as rule: va_ptr.cases) auto
  done

lemma get_num_subset: "get_num q fl as = Some (n, as') \<Longrightarrow> set as' \<subseteq> set as"
  by (auto simp: get_num_def Let_def split: if_splits Option.bind_splits dest: va_subset)

lemma skip_alnum_ge: "skip_alnum m fmt = Some fmt' \<Longrightarrow> fmt \<le> fmt'"
proof (induction m fmt rule: skip_alnum.induct)
  case (1 m fmt)
  then show ?case
    by (subst (asm) (2) skip_alnum.simps) (auto split: if_splits Option.bind_splits)
qed

lemma skip_atoi_ge: "skip_atoi m s i = Some (n, s') \<Longrightarrow> s \<le> s'"
proof (induction m s i rule: skip_atoi.induct)
  case (1 m s i)
  then show ?case
    by (subst (asm) (2) skip_atoi.simps) (auto split: if_splits Option.bind_splits)
qed

lemma flag_loop_gt: "flag_loop m fmt fl = Some (fmt', fl') \<Longrightarrow> fmt < fmt'"
proof (induction m fmt fl rule: flag_loop.induct)
  case (1 m fmt fl)
  then show ?case
    by (subst (asm) (6) flag_loop.simps) (auto split: if_splits Option.bind_splits)
qed

lemma get_width_ge: "get_width m f fl as = Some (f', fl', w, as') \<Longrightarrow> f \<le> f' \<and> set as' \<subseteq> set as"
  by (auto simp: get_width_def split: if_splits Option.bind_splits dest: skip_atoi_ge dest!: va_subset(1))

lemma get_precision_ge: "get_precision m f as = Some (f', p, as') \<Longrightarrow> f \<le> f' \<and> set as' \<subseteq> set as"
  by (auto simp: get_precision_def split: if_splits Option.bind_splits dest!: skip_atoi_ge va_subset(1))

lemma get_qualifier_ge: "get_qualifier m f = Some (f', q) \<Longrightarrow> f \<le> f'"
  by (auto simp: get_qualifier_def split: if_splits Option.bind_splits)

text \<open>One directive moves the format pointer on and emits.\<close>

definition step_ok :: "addr \<Rightarrow> addr \<Rightarrow> va_arg list \<Rightarrow> out \<Rightarrow> (addr \<times> va_arg list \<times> out) option \<Rightarrow> bool" where
  "step_ok lim fmt as st r \<longleftrightarrow>
     (\<forall>fmt' as' st'. r = Some (fmt', as', st') \<longrightarrow> fmt \<le> fmt' \<and> fmt_emits lim as st as' st')"

lemma step_ok_bind_out:
  "keeps lim st id r \<Longrightarrow> (\<And>st'. step_ok lim fmt as st' (f st')) \<Longrightarrow> step_ok lim fmt as st (r \<bind> f)"
  unfolding step_ok_def keeps_def
  by (auto split: Option.bind_splits intro: fmt_emits_trans [OF emits_fmt])

lemma step_ok_bind_pair:
  "keeps lim st snd r \<Longrightarrow> (\<And>a st'. step_ok lim fmt as st' (f a st')) \<Longrightarrow>
   step_ok lim fmt as st (r \<bind> (\<lambda>(a, st'). f a st'))"
  unfolding step_ok_def keeps_def
  by (fastforce split: Option.bind_splits intro: fmt_emits_trans [OF emits_fmt])

lemma step_ok_bind_args:
  "(\<And>a as'. r = Some (a, as') \<Longrightarrow> set as' \<subseteq> set as) \<Longrightarrow> (\<And>a as'. step_ok lim fmt as' st (f a as')) \<Longrightarrow>
   step_ok lim fmt as st (r \<bind> (\<lambda>(a, as'). f a as'))"
proof (cases r)
  case (Some x)
  moreover obtain a as' where "x = (a, as')" by force
  moreover assume "\<And>a as'. r = Some (a, as') \<Longrightarrow> set as' \<subseteq> set as" "\<And>a as'. step_ok lim fmt as' st (f a as')"
  ultimately show ?thesis
    unfolding step_ok_def by simp (metis emits_fmt emits_refl fmt_emits_trans)
qed (simp add: step_ok_def)

lemma step_ok_if: "step_ok lim fmt as st a \<Longrightarrow> step_ok lim fmt as st b \<Longrightarrow> step_ok lim fmt as st (if c then a else b)"
  by simp

lemma step_ok_rd: "(\<And>c. step_ok lim fmt as st (f c)) \<Longrightarrow> step_ok lim fmt as st (rd m a \<bind> f)"
  by (auto simp: step_ok_def split: Option.bind_splits)

lemma step_ok_skip: "(\<And>f'. fmt \<le> f' \<Longrightarrow> step_ok lim fmt as st (g f')) \<Longrightarrow> step_ok lim fmt as st (skip_alnum m fmt \<bind> g)"
  by (auto simp: step_ok_def split: Option.bind_splits dest: skip_alnum_ge)

lemma step_ok_Some: "fmt \<le> fmt' \<Longrightarrow> step_ok lim fmt as st (Some (fmt', as, st))"
  by (auto simp: step_ok_def)

lemmas step_ok_rules = step_ok_bind_out step_ok_bind_pair step_ok_if step_ok_rd step_ok_skip step_ok_Some
  keeps_ops keeps_id_Some keeps_if number_keeps string_out_keeps pointer_keeps

lemma convert_count:
  "va_ptr as = Some (p, as') \<Longrightarrow> p = Some ip \<Longrightarrow> wr32 (fst st) ip w = Some m' \<Longrightarrow>
   fmt_emits lim as st as' (m', snd st)"
proof -
  assume p: "va_ptr as = Some (p, as')" "p = Some ip" and w: "wr32 (fst st) ip w = Some m'"
  have "blit (fst st) ip (be32 w) ! i = fst st ! i" if "i \<notin> ptr_bytes as" for i
  proof (rule nth_blit_other)
    have "{ip..<ip + 4} \<subseteq> ptr_bytes as" using va_subset(3) [OF p(1)] p(2) by (auto simp: ptr_bytes_def)
    with that have "i \<notin> {ip..<ip + 4}" by blast
    then show "i < ip \<or> ip + length (be32 w) \<le> i" by auto
  qed
  then show ?thesis
    using w va_subset(3) [OF p(1)] by (auto simp: fmt_emits_def wr32_def split: if_splits)
qed

lemma finish_ok: "step_ok lim fmt as st (do {
    (num, as') \<leftarrow> get_num q fl as;
    st' \<leftarrow> number lim num base fw p fl st;
    Some (Suc fmt, as', st') })"
  by (rule step_ok_bind_args) (auto dest: get_num_subset intro!: step_ok_bind_out number_keeps step_ok_Some)

lemma convert_n_ok: "step_ok lim fmt as st (do {
    (p, as') \<leftarrow> va_ptr as; ip \<leftarrow> p; m' \<leftarrow> wr32 (fst st) ip w; Some (Suc fmt, as', (m', snd st)) })"
  by (auto simp: step_ok_def split: Option.bind_splits dest: convert_count)

lemma convert_s_ok: "step_ok lim fmt as st (do {
    (p, as') \<leftarrow> va_ptr as; st' \<leftarrow> string_out lim (f p) fw pr fl st; Some (Suc fmt, as', st') })"
  by (rule step_ok_bind_args) (auto dest: va_subset intro!: step_ok_bind_out string_out_keeps step_ok_Some)

lemma convert_p_ok: "step_ok lim fmt as st (do {
    (p, as') \<leftarrow> va_ptr as; st' \<leftarrow> pointer lim p fw pr fl st;
    fmt' \<leftarrow> skip_alnum (fst st') fmt; Some (Suc fmt', as', st') })"
  by (rule step_ok_bind_args) (auto dest: va_subset intro!: step_ok_bind_out step_ok_skip pointer_keeps step_ok_Some)

lemma convert_c_ok: "step_ok lim fmt as st (do {
    (fw', st1) \<leftarrow> (if b then pad_loop lim 32 (fw - 1) st else Some (fw, st));
    (a, as') \<leftarrow> va_word as;
    st2 \<leftarrow> ADDCH lim (ucast a) st1;
    (fw'', st3) \<leftarrow> pad_loop lim 32 (if b then fw' else fw' - 1) st2;
    Some (Suc fmt, as', st3) })"
  by (intro step_ok_bind_pair keeps_if keeps_ops keeps_id_Some, rule step_ok_bind_args)
    (auto dest: va_subset intro!: step_ok_bind_out step_ok_bind_pair keeps_ops step_ok_Some)

lemma convert_default_ok: "step_ok lim fmt as st (do {
    st1 \<leftarrow> ADDCH lim 37 st; c' \<leftarrow> rd (fst st1) fmt;
    if c' \<noteq> 0 then do { st2 \<leftarrow> ADDCH lim c' st1; Some (Suc fmt, as, st2) } else Some (fmt, as, st1) })"
  by (intro step_ok_bind_out keeps_ops step_ok_rd step_ok_if step_ok_Some) simp_all

lemma convert_percent_ok: "step_ok lim fmt as st (do { st' \<leftarrow> ADDCH lim 37 st; Some (Suc fmt, as, st') })"
  by (intro step_ok_bind_out keeps_ops step_ok_Some) simp

lemma convert_ok: "step_ok lim fmt as st (convert buf lim fmt fl fw p q as st)"
  unfolding convert_def Let_def
  by (rule step_ok_rd)
    (intro step_ok_if finish_ok convert_n_ok convert_s_ok convert_p_ok convert_c_ok convert_default_ok
      convert_percent_ok)

lemma directive_ok:
  "directive buf lim fmt as st = Some (fmt', as', st') \<Longrightarrow> fmt < fmt' \<and> fmt_emits lim as st as' st'"
proof -
  assume "directive buf lim fmt as st = Some (fmt', as', st')"
  then obtain f1 fl f2 fl' fw as1 f3 p as2 f4 q where
    "flag_loop (fst st) fmt 0 = Some (f1, fl)" "get_width (fst st) f1 fl as = Some (f2, fl', fw, as1)"
    "get_precision (fst st) f2 as1 = Some (f3, p, as2)" "get_qualifier (fst st) f3 = Some (f4, q)"
    "convert buf lim f4 fl' fw p q as2 st = Some (fmt', as', st')"
    unfolding directive_def by (auto split: Option.bind_splits)
  moreover have "f4 \<le> fmt' \<and> fmt_emits lim as2 st as' st'"
    using convert_ok [of lim f4 as2 st buf fl' fw p q] calculation(5) unfolding step_ok_def by blast
  ultimately have "fmt < fmt'" "set as2 \<subseteq> set as" "fmt_emits lim as2 st as' st'"
    by (auto dest!: flag_loop_gt get_width_ge get_precision_ge get_qualifier_ge)
  then show ?thesis by (meson emits_fmt emits_refl fmt_emits_trans)
qed

section \<open>The loop over the format\<close>

function vsn_loop :: "addr \<Rightarrow> addr \<Rightarrow> addr \<Rightarrow> va_arg list \<Rightarrow> out \<Rightarrow> (va_arg list \<times> out) option" where
  "vsn_loop buf lim fmt args st = do {
     c \<leftarrow> rd (fst st) fmt;
     if c = 0 then Some (args, st)
     else if c \<noteq> 37 then do { st' \<leftarrow> ADDCH lim c st; vsn_loop buf lim (Suc fmt) args st' }
     else do {
       (fmt', args', st') \<leftarrow> directive buf lim fmt args st;
       vsn_loop buf lim fmt' args' st' } }"
  by pat_completeness auto
termination
  by (relation "measure (\<lambda>(buf, lim, fmt, as, st). length (fst st) - fmt)")
    (auto simp: fmt_emits_def dest!: directive_ok ADDCH_emits [THEN emits_length])

declare vsn_loop.simps [simp del]

text \<open>\<^verbatim>\<open>buf + size\<close> may wrap around the address space; then the limit is the last address. The final
  NUL is stored when there is room for any output. The result is the length without the NUL.\<close>

definition vsnprintf_internal :: "addr \<Rightarrow> nat \<Rightarrow> addr \<Rightarrow> va_arg list \<Rightarrow> mem \<Rightarrow> (int \<times> mem) option" where
  "vsnprintf_internal buf size0 fmt args m =
     (let (lim, sz) = (if buf + size0 < 2 ^ 32 then (buf + size0, size0)
                       else (2 ^ 32 - 1, 2 ^ 32 - 1 - buf))
      in do {
        (args', st) \<leftarrow> vsn_loop buf lim fmt args (m, buf);
        if 0 < sz then do {
          (m', str) \<leftarrow> ADDCH lim 0 st;
          m'' \<leftarrow> (if lim < str then wr m' (lim - 1) 0 else Some m');
          Some (int (str - 1) - int buf, m'') }
        else Some (int (snd st) - int buf, fst st) })"

definition vsnprintf :: "addr \<Rightarrow> nat \<Rightarrow> addr \<Rightarrow> va_arg list \<Rightarrow> mem \<Rightarrow> (int \<times> mem) option" where
  "vsnprintf buf size0 fmt args m = vsnprintf_internal buf size0 fmt args m"

definition snprintf :: "addr \<Rightarrow> nat \<Rightarrow> addr \<Rightarrow> va_arg list \<Rightarrow> mem \<Rightarrow> (int \<times> mem) option" where
  "snprintf buf size0 fmt args m = vsnprintf buf size0 fmt args m"

definition vsprintf :: "addr \<Rightarrow> addr \<Rightarrow> va_arg list \<Rightarrow> mem \<Rightarrow> (int \<times> mem) option" where
  "vsprintf buf fmt args m = vsnprintf_internal buf 0x7fffffff fmt args m"

definition sprintf :: "addr \<Rightarrow> addr \<Rightarrow> va_arg list \<Rightarrow> mem \<Rightarrow> (int \<times> mem) option" where
  "sprintf buf fmt args m = vsprintf buf fmt args m"

end
