(* ===== verification/VsprintfProps.thy ===== *)
theory VsprintfProps
  imports Vsprintf
begin

text \<open>
  What the formatted output computes: the shift-and-multiply decimal conversion against plain division,
  the bounds of \<^verbatim>\<open>vsnprintf\<close>, and that \<^verbatim>\<open>simple_strtoul\<close> reads back what \<^verbatim>\<open>%d\<close> and \<^verbatim>\<open>%x\<close> print.
\<close>

section \<open>Decimal conversion\<close>

text \<open>The reference: decimal digits by division, least significant first.\<close>

fun dec_rev :: "nat \<Rightarrow> bytes" where
  "dec_rev n = (if n < 10 then [of_nat (48 + n)] else of_nat (48 + n mod 10) # dec_rev (n div 10))"

declare dec_rev.simps [simp del]

text \<open>The multiplications by a rounded reciprocal are exact in the ranges they are used in.\<close>

lemma div10_205: "x \<le> 1028 \<Longrightarrow> x * 205 div 2048 = x div (10 :: nat)"
proof -
  assume x: "x \<le> 1028"
  let ?a = "x div 10" and ?b = "x mod 10"
  have "x = 10 * ?a + ?b" by simp
  then have "x * 205 = 2048 * ?a + (2 * ?a + 205 * ?b)" by linarith
  moreover have "2 * ?a + 205 * ?b < 2048"
  proof -
    have "?b \<le> 9" "?a \<le> 102" using x by simp_all
    moreover have "?a = 102 \<Longrightarrow> ?b \<le> 8" using x by presburger
    ultimately show ?thesis by linarith
  qed
  ultimately show ?thesis by simp
qed

lemma div10_13: "x \<le> 68 \<Longrightarrow> x * 13 div 128 = x div (10 :: nat)"
proof -
  assume x: "x \<le> 68"
  let ?a = "x div 10" and ?b = "x mod 10"
  have "x = 10 * ?a + ?b" by simp
  then have "x * 13 = 128 * ?a + (2 * ?a + 13 * ?b)" by linarith
  moreover have "2 * ?a + 13 * ?b < 128"
  proof -
    have "?b \<le> 9" "?a \<le> 6" using x by simp_all
    moreover have "?a = 6 \<Longrightarrow> ?b \<le> 8" using x by presburger
    ultimately show ?thesis by linarith
  qed
  ultimately show ?thesis by simp
qed

text \<open>The same on words that hold small numbers.\<close>

lemma unat_small: "n < 2 ^ 32 \<Longrightarrow> unat (of_nat n :: u32) = n"
  by (simp add: unat_of_nat)

lemma drop_bit_small: "n < 2 ^ 32 \<Longrightarrow> drop_bit k (of_nat n :: u32) = of_nat (n div 2 ^ k)"
proof -
  assume n: "n < 2 ^ 32"
  then have "n div 2 ^ k < 2 ^ 32" by (metis div_le_dividend le_less_trans)
  with n have "unat (drop_bit k (of_nat n :: u32)) = unat (of_nat (n div 2 ^ k) :: u32)"
    by (simp only: unsigned_drop_bit_eq unat_small) (simp add: drop_bit_eq_div take_bit_nat_eq_self)
  then show ?thesis by (simp add: word_unat_eq_iff)
qed

lemma and_15_small: "n < 2 ^ 32 \<Longrightarrow> (of_nat n :: u32) AND 0xf = of_nat (n mod 16)"
proof -
  assume n: "n < 2 ^ 32"
  have "(15 :: nat) = mask 4" by (simp add: mask_eq_exp_minus_1)
  then have "n AND 15 = n mod 16" using take_bit_eq_mask [of 4 n] by (simp add: take_bit_eq_mod)
  moreover have "unat ((of_nat n :: u32) AND 0xf) = n AND 15"
    using n by (simp add: unsigned_and_eq unat_small)
  moreover have "n mod 16 < 2 ^ 32" by (rule less_trans [of _ 16]) simp_all
  ultimately have "unat ((of_nat n :: u32) AND 0xf) = unat (of_nat (n mod 16) :: u32)"
    by (simp add: unat_small)
  then show ?thesis by (simp add: word_unat_eq_iff)
qed

lemma of_nat_zero_small: "n < 2 ^ 32 \<Longrightarrow> (of_nat n :: u32) = 0 \<longleftrightarrow> n = 0"
  by (simp add: word_unat_eq_iff unat_of_nat)

lemma ucast_of_nat_small: "n < 2 ^ 32 \<Longrightarrow> ucast (of_nat n :: u32) = (of_nat n :: u8)"
  by (simp add: word_unat_eq_iff unat_of_nat unsigned_ucast_eq take_bit_eq_mod)

text \<open>One round of the conversion: the digit and the quotient of a small number.\<close>

lemma round_205:
  assumes "n \<le> 1028"
  shows "drop_bit 11 ((of_nat n :: u32) * 0xcd) = of_nat (n div 10)"
    and "(of_nat n :: u32) - 10 * of_nat (n div 10) = of_nat (n mod 10)"
proof -
  have "drop_bit 11 (of_nat (n * 205) :: u32) = of_nat (n * 205 div 2 ^ 11)"
    using assms by (intro drop_bit_small) simp
  then show "drop_bit 11 ((of_nat n :: u32) * 0xcd) = of_nat (n div 10)"
    using div10_205 [OF assms] by simp
  have "(of_nat n :: u32) = of_nat (10 * (n div 10) + n mod 10)" by simp
  then show "(of_nat n :: u32) - 10 * of_nat (n div 10) = of_nat (n mod 10)"
    by (simp only: of_nat_add of_nat_mult of_nat_numeral) simp
qed

lemma round_13:
  assumes "n \<le> 68"
  shows "drop_bit 7 ((of_nat n :: u32) * 0xd) = of_nat (n div 10)"
proof -
  have "drop_bit 7 (of_nat (n * 13) :: u32) = of_nat (n * 13 div 2 ^ 7)"
    using assms by (intro drop_bit_small) simp
  then show ?thesis using div10_13 [OF assms] by simp
qed

text \<open>The four nibbles of a number, and the digits computed from them.\<close>

lemma nibbles:
  "n = n mod 16 + 16 * (n div 16 mod 16) + 256 * (n div 256 mod 16) + 4096 * (n div 4096 :: nat)"
proof -
  have "n = 16 * (n div 16) + n mod 16" by simp
  moreover have "n div 16 = 16 * (n div 256) + n div 16 mod 16"
    using mult_div_mod_eq [of 16 "n div 16"] by (simp add: div_mult2_eq [symmetric])
  moreover have "n div 256 = 16 * (n div 4096) + n div 256 mod 16"
    using mult_div_mod_eq [of 16 "n div 256"] by (simp add: div_mult2_eq [symmetric])
  ultimately show ?thesis by linarith
qed

lemma digit_sums_le:
  fixes x0 x1 x2 x3 d0 d1 d2 d3 :: nat
  assumes "x0 \<le> 15" "x1 \<le> 15" "x2 \<le> 15" "x3 \<le> 24"
    and d0: "d0 = 6 * (x3 + x2 + x1) + x0" and d1: "d1 = d0 div 10 + 9 * x3 + 5 * x2 + x1"
    and d2: "d2 = d1 div 10 + 2 * x2" and d3: "d3 = d2 div 10 + 4 * x3"
  shows "d0 \<le> 339 \<and> d1 \<le> 340 \<and> d2 \<le> 68 \<and> d3 \<le> 105"
proof -
  have "d0 \<le> 339" using assms(1-4) d0 by simp
  moreover from this have "d0 div 10 \<le> 33" by simp
  then have "d1 \<le> 340" using assms(1-4) unfolding d1 by linarith
  moreover from this have "d1 div 10 \<le> 34" by simp
  then have "d2 \<le> 68" using assms(1-4) unfolding d2 by linarith
  moreover from this have "d2 div 10 \<le> 6" by simp
  then have "d3 \<le> 105" using assms(1-4) unfolding d3 by linarith
  ultimately show ?thesis by simp
qed

lemma digit_split: "n = a mod 10 + 10 * b \<Longrightarrow> n mod 10 = a mod 10 \<and> n div 10 = (b :: nat)"
  by simp

lemma digit_sums:
  fixes n x0 x1 x2 x3 d0 d1 d2 d3 :: nat
  assumes "n = x0 + 16 * x1 + 256 * x2 + 4096 * x3"
    and d0: "d0 = 6 * (x3 + x2 + x1) + x0" and d1: "d1 = d0 div 10 + 9 * x3 + 5 * x2 + x1"
    and d2: "d2 = d1 div 10 + 2 * x2" and d3: "d3 = d2 div 10 + 4 * x3"
  shows "n mod 10 = d0 mod 10 \<and> n div 10 mod 10 = d1 mod 10 \<and> n div 10 div 10 mod 10 = d2 mod 10 \<and>
    n div 10 div 10 div 10 = d3"
proof -
  let ?q = "d2 mod 10 + 10 * d3"
  have "10 * (d0 div 10) + d0 mod 10 = d0" "10 * (d1 div 10) + d1 mod 10 = d1" "10 * (d2 div 10) + d2 mod 10 = d2"
    by simp_all
  moreover have "d0 + 10 * (9 * x3 + 5 * x2 + x1) + 200 * x2 + 4000 * x3 = n" using assms(1) d0 by simp
  ultimately have "n = d0 mod 10 + 10 * (d1 mod 10 + 10 * ?q)"
    using d1 d2 d3 by (simp add: algebra_simps)
  then have "n mod 10 = d0 mod 10 \<and> n div 10 = d1 mod 10 + 10 * ?q" by (rule digit_split)
  then show ?thesis
    using digit_split [of "n div 10" d1 ?q] digit_split [of "n div 10 div 10" d2 d3] by simp
qed

text \<open>The word computation of both routines, step by step, for \<open>n < 100000\<close>.\<close>

lemma put_dec_words:
  fixes n x0 x1 x2 x3 d0 d1 d2 d3 :: nat
  assumes n: "n < 100000"
    and x: "x0 = n mod 16" "x1 = n div 16 mod 16" "x2 = n div 256 mod 16" "x3 = n div 4096"
    and d: "d0 = 6 * (x3 + x2 + x1) + x0" "d1 = d0 div 10 + 9 * x3 + 5 * x2 + x1"
      "d2 = d1 div 10 + 2 * x2" "d3 = d2 div 10 + 4 * x3"
  shows "(of_nat n :: u32) AND 0xf = of_nat x0" "drop_bit 4 (of_nat n :: u32) AND 0xf = of_nat x1"
    "drop_bit 8 (of_nat n :: u32) AND 0xf = of_nat x2" "drop_bit 12 (of_nat n :: u32) = of_nat x3"
    "6 * (of_nat x3 + of_nat x2 + of_nat x1) + of_nat x0 = (of_nat d0 :: u32)"
    "drop_bit 11 ((of_nat d0 :: u32) * 0xcd) = of_nat (d0 div 10)"
    "(of_nat d0 :: u32) - 10 * of_nat (d0 div 10) = of_nat (d0 mod 10)"
    "of_nat (d0 div 10) + 9 * of_nat x3 + 5 * of_nat x2 + of_nat x1 = (of_nat d1 :: u32)"
    "drop_bit 11 ((of_nat d1 :: u32) * 0xcd) = of_nat (d1 div 10)"
    "(of_nat d1 :: u32) - 10 * of_nat (d1 div 10) = of_nat (d1 mod 10)"
    "of_nat (d1 div 10) + 2 * of_nat x2 = (of_nat d2 :: u32)"
    "drop_bit 7 ((of_nat d2 :: u32) * 0xd) = of_nat (d2 div 10)"
    "(of_nat d2 :: u32) - 10 * of_nat (d2 div 10) = of_nat (d2 mod 10)"
    "of_nat (d2 div 10) + 4 * of_nat x3 = (of_nat d3 :: u32)"
    "drop_bit 11 ((of_nat d3 :: u32) * 0xcd) = of_nat (d3 div 10)"
    "(of_nat d3 :: u32) - 10 * of_nat (d3 div 10) = of_nat (d3 mod 10)"
proof -
  have xs: "x0 \<le> 15" "x1 \<le> 15" "x2 \<le> 15" "x3 \<le> 24"
    using n mod_less_divisor [of 16 n] mod_less_divisor [of 16 "n div 16"] mod_less_divisor [of 16 "n div 256"]
    by (simp_all add: x)
  have le: "d0 \<le> 1028" "d1 \<le> 1028" "d2 \<le> 68" "d2 \<le> 1028" "d3 \<le> 1028"
    using digit_sums_le [OF xs d] by simp_all
  have small: "n < 2 ^ 32" "n div 2 ^ 4 < 2 ^ 32" "n div 2 ^ 8 < 2 ^ 32" using n by simp_all
  show "(of_nat n :: u32) AND 0xf = of_nat x0"
    unfolding x by (rule and_15_small [OF small(1)])
  show "drop_bit 4 (of_nat n :: u32) AND 0xf = of_nat x1"
    unfolding x drop_bit_small [OF small(1)] and_15_small [OF small(2)] by simp
  show "drop_bit 8 (of_nat n :: u32) AND 0xf = of_nat x2"
    unfolding x drop_bit_small [OF small(1)] and_15_small [OF small(3)] by simp
  show "drop_bit 12 (of_nat n :: u32) = of_nat x3"
    unfolding x drop_bit_small [OF small(1)] by simp
  show "6 * (of_nat x3 + of_nat x2 + of_nat x1) + of_nat x0 = (of_nat d0 :: u32)"
    "of_nat (d0 div 10) + 9 * of_nat x3 + 5 * of_nat x2 + of_nat x1 = (of_nat d1 :: u32)"
    "of_nat (d1 div 10) + 2 * of_nat x2 = (of_nat d2 :: u32)"
    "of_nat (d2 div 10) + 4 * of_nat x3 = (of_nat d3 :: u32)"
    by (simp_all add: d)
  show "drop_bit 11 ((of_nat d0 :: u32) * 0xcd) = of_nat (d0 div 10)"
    "(of_nat d0 :: u32) - 10 * of_nat (d0 div 10) = of_nat (d0 mod 10)"
    "drop_bit 11 ((of_nat d1 :: u32) * 0xcd) = of_nat (d1 div 10)"
    "(of_nat d1 :: u32) - 10 * of_nat (d1 div 10) = of_nat (d1 mod 10)"
    "drop_bit 7 ((of_nat d2 :: u32) * 0xd) = of_nat (d2 div 10)"
    "(of_nat d2 :: u32) - 10 * of_nat (d2 div 10) = of_nat (d2 mod 10)"
    "drop_bit 11 ((of_nat d3 :: u32) * 0xcd) = of_nat (d3 div 10)"
    "(of_nat d3 :: u32) - 10 * of_nat (d3 div 10) = of_nat (d3 mod 10)"
    by (rule round_205 round_13 le)+
qed

lemma digit_byte: "(ucast (of_nat (k mod 10) :: u32) :: u8) + 48 = of_nat (48 + k mod 10)"
  by (subst ucast_of_nat_small) (auto intro: less_trans [of _ 10])

lemma put_dec_full_digits:
  assumes "n < 100000"
  shows "put_dec_full (of_nat n) = map (\<lambda>k. of_nat (48 + n div 10 ^ k mod 10)) [0, 1, 2, 3, 4]"
proof -
  define x0 x1 x2 x3 where x: "x0 = n mod 16" "x1 = n div 16 mod 16" "x2 = n div 256 mod 16" "x3 = n div 4096"
  define d0 d1 d2 d3 where d: "d0 = 6 * (x3 + x2 + x1) + x0" "d1 = d0 div 10 + 9 * x3 + 5 * x2 + x1"
      "d2 = d1 div 10 + 2 * x2" "d3 = d2 div 10 + 4 * x3"
  have s: "n mod 10 = d0 mod 10" "n div 10 mod 10 = d1 mod 10" "n div 10 div 10 mod 10 = d2 mod 10"
    "n div 10 div 10 div 10 = d3"
    using digit_sums [OF _ d] nibbles [of n] by (simp_all add: x)
  have "n div 100 = n div 10 div 10" "n div 1000 = n div 10 div 10 div 10" "n div 10000 = n div 10 div 10 div 10 div 10"
    by (simp_all add: div_mult2_eq [symmetric])
  then have p: "n div 100 mod 10 = d2 mod 10" "n div 1000 = d3" "n div 10000 = d3 div 10" by (simp_all add: s)
  then have last: "d3 div 10 = d3 div 10 mod 10" using assms by simp
  have "put_dec_full (of_nat n) = map (\<lambda>k. of_nat (48 + k mod 10)) [d0, d1, d2, d3, d3 div 10]"
  proof -
    have "(ucast (of_nat (d3 div 10) :: u32) :: u8) + 48 = of_nat (48 + d3 div 10 mod 10)"
      by (subst last) (rule digit_byte)
    then show ?thesis
      unfolding put_dec_full_def Let_def put_dec_words [OF assms x d] by (simp only: digit_byte list.map)
  qed
  then show ?thesis by (simp add: p s)
qed

lemma dec_rev_rec:
  "dec_rev n = of_nat (48 + n mod 10) # (if n div 10 = 0 then [] else dec_rev (n div 10))"
  by (subst dec_rev.simps) simp

lemma mod_div_zero: "a mod 10 = 0 \<Longrightarrow> a div 10 = 0 \<Longrightarrow> a = (0 :: nat)"
  using div_mult_mod_eq [of a 10] by simp

lemma put_dec_trunc_digits:
  assumes "n < 100000"
  shows "put_dec_trunc (of_nat n) = dec_rev n"
proof -
  define x0 x1 x2 x3 where x: "x0 = n mod 16" "x1 = n div 16 mod 16" "x2 = n div 256 mod 16" "x3 = n div 4096"
  define d0 d1 d2 d3 where d: "d0 = 6 * (x3 + x2 + x1) + x0" "d1 = d0 div 10 + 9 * x3 + 5 * x2 + x1"
      "d2 = d1 div 10 + 2 * x2" "d3 = d2 div 10 + 4 * x3"
  have s: "n mod 10 = d0 mod 10" "n div 10 mod 10 = d1 mod 10" "n div 10 div 10 mod 10 = d2 mod 10"
    "n div 10 div 10 div 10 = d3"
    using digit_sums [OF _ d] nibbles [of n] by (simp_all add: x)
  have xs: "x3 \<le> 24" using assms by (simp add: x)
  have ds: "d1 \<le> 340" "d2 \<le> 68" "d3 \<le> 105"
    using digit_sums_le [OF _ _ _ xs d] mod_less_divisor [of 16 n] mod_less_divisor [of 16 "n div 16"]
      mod_less_divisor [of 16 "n div 256"] by (simp_all add: x)
  have z: "(of_nat d1 :: u32) = 0 \<longleftrightarrow> d1 = 0" "(of_nat d2 :: u32) = 0 \<longleftrightarrow> d2 = 0" "(of_nat d3 :: u32) = 0 \<longleftrightarrow> d3 = 0"
    "(of_nat x3 :: u32) = 0 \<longleftrightarrow> x3 = 0" "(of_nat (d3 div 10) :: u32) = 0 \<longleftrightarrow> d3 div 10 = 0"
    using ds xs by (simp_all add: of_nat_zero_small del: div_eq_0_iff)
  have l: "d3 div 10 mod 10 = d3 div 10" using assms s(4) [symmetric] by simp
  have last: "(ucast (of_nat (d3 div 10) :: u32) :: u8) + 48 = of_nat (48 + d3 div 10 mod 10)"
    using digit_byte [of "d3 div 10"] by (simp only: l)
  let ?d = "\<lambda>k. of_nat (48 + k mod 10) :: u8"
  have w: "put_dec_trunc (of_nat n) =
      (if d1 \<noteq> 0 then if d2 \<noteq> 0 \<or> x3 \<noteq> 0 then if d3 \<noteq> 0 then
         if d3 div 10 \<noteq> 0 then [?d d0, ?d d1, ?d d2, ?d d3, ?d (d3 div 10)] else [?d d0, ?d d1, ?d d2, ?d d3]
       else [?d d0, ?d d1, ?d d2] else [?d d0, ?d d1] else [?d d0])"
    unfolding put_dec_trunc_def Let_def put_dec_words [OF assms x d] by (simp only: digit_byte last z)
  have c1: "n div 10 = 0 \<longleftrightarrow> d1 = 0"
  proof
    assume "n div 10 = 0"
    with s have "d1 mod 10 = 0" "d2 mod 10 = 0" "d3 = 0" by simp_all
    then have "d2 = 0" "x3 = 0" using d(4) by auto
    then show "d1 = 0" using d(3) \<open>d1 mod 10 = 0\<close> by auto
  next
    assume "d1 = 0"
    then have "x3 = 0" "d2 = 0" using d(2,3) by auto
    have "n div 10 mod 10 = 0" using s(2) \<open>d1 = 0\<close> by simp
    moreover have "n div 10 div 10 mod 10 = 0" using s(3) \<open>d2 = 0\<close> by simp
    moreover have "n div 10 div 10 div 10 = 0" using s(4) d(4) \<open>x3 = 0\<close> \<open>d2 = 0\<close> by simp
    ultimately show "n div 10 = 0" by (rule mod_div_zero [OF _ mod_div_zero])
  qed
  have c2: "n div 10 div 10 = 0 \<longleftrightarrow> \<not> (d2 \<noteq> 0 \<or> x3 \<noteq> 0)"
  proof
    assume "n div 10 div 10 = 0"
    with s have "d2 mod 10 = 0" "d3 = 0" by simp_all
    then show "\<not> (d2 \<noteq> 0 \<or> x3 \<noteq> 0)" using d(4) by auto
  next
    assume "\<not> (d2 \<noteq> 0 \<or> x3 \<noteq> 0)"
    then have "n div 10 div 10 mod 10 = 0" "n div 10 div 10 div 10 = 0" using s d(4) by simp_all
    then show "n div 10 div 10 = 0" by (rule mod_div_zero)
  qed
  have "n div 10 div 10 div 10 div 10 div 10 = 0" using assms by simp
  then show ?thesis
    unfolding w dec_rev_rec [of n] dec_rev_rec [of "n div 10"] dec_rev_rec [of "n div 10 div 10"]
      dec_rev_rec [of "n div 10 div 10 div 10"] dec_rev_rec [of "n div 10 div 10 div 10 div 10"]
    by (simp only: s c1 c2 if_True if_False if_not_P not_not split: if_split) blast
qed

lemma mod_block: "N = a * (10 * c) \<Longrightarrow> 0 < a \<Longrightarrow> n mod N div a mod 10 = n div a mod (10 :: nat)"
  by (simp add: mod_mult2_eq [of n a] mod_mod_cancel)

lemma dec_rev_append5:
  assumes "100000 \<le> n"
  shows "dec_rev n = map (\<lambda>k. of_nat (48 + (n mod 100000) div 10 ^ k mod 10)) [0, 1, 2, 3, 4] @ dec_rev (n div 100000)"
proof -
  have m: "n mod 100000 mod 10 = n mod 10" "n mod 100000 div 10 mod 10 = n div 10 mod 10"
    "n mod 100000 div 100 mod 10 = n div 100 mod 10" "n mod 100000 div 1000 mod 10 = n div 1000 mod 10"
    "n mod 100000 div 10000 mod 10 = n div 10000 mod 10"
    by (simp add: mod_mod_cancel) (rule mod_block [where c = 1000] mod_block [where c = 100] mod_block [where c = 10]
      mod_block [where c = 1]; simp)+
  have d: "n div 10 div 10 = n div 100" "n div 100 div 10 = n div 1000" "n div 1000 div 10 = n div 10000"
    "n div 10000 div 10 = n div 100000" by (simp_all add: div_mult2_eq [symmetric])
  have z: "n div 10 \<noteq> 0" "n div 100 \<noteq> 0" "n div 1000 \<noteq> 0" "n div 10000 \<noteq> 0" "n div 100000 \<noteq> 0"
    using assms by (simp_all add: div_eq_0_iff)
  have "dec_rev n = of_nat (48 + n mod 10) # of_nat (48 + n div 10 mod 10) # of_nat (48 + n div 100 mod 10) #
      of_nat (48 + n div 1000 mod 10) # of_nat (48 + n div 10000 mod 10) # dec_rev (n div 100000)"
    by (simp only: dec_rev_rec [of n] dec_rev_rec [of "n div 10"] dec_rev_rec [of "n div 100"]
      dec_rev_rec [of "n div 1000"] dec_rev_rec [of "n div 10000"] d z if_False)
  then show ?thesis by (simp add: m)
qed

lemma put_dec_digits: "put_dec num = dec_rev (unat num)"
proof (induction num rule: put_dec.induct)
  case (1 num)
  show ?case
  proof (cases "num < 100000")
    case True
    then have "unat num < 100000" by (simp add: word_less_nat_alt)
    with True show ?thesis
      using put_dec_trunc_digits [of "unat num"] by (subst put_dec.simps) simp
  next
    case False
    then have n: "100000 \<le> unat num" by (simp add: word_less_nat_alt)
    have u: "num mod 100000 = of_nat (unat num mod 100000)" by (simp add: word_unat_eq_iff unat_mod unat_of_nat)
    have "put_dec_full (num mod 100000) = map (\<lambda>k. of_nat (48 + unat num mod 100000 div 10 ^ k mod 10)) [0, 1, 2, 3, 4]"
      unfolding u by (rule put_dec_full_digits) simp
    moreover have "put_dec (num div 100000) = dec_rev (unat num div 100000)"
      using 1 False by (simp add: unat_div)
    ultimately show ?thesis
      using False dec_rev_append5 [OF n] by (subst put_dec.simps) simp
  qed
qed

section \<open>Digits and their value\<close>

text \<open>Digits of \<open>n\<close> in base \<open>b\<close>, least significant first, with the digit characters \<open>f\<close>.\<close>

function dig_rev :: "nat \<Rightarrow> (nat \<Rightarrow> u8) \<Rightarrow> nat \<Rightarrow> bytes" where
  "dig_rev b f n = f (n mod b) # (if b < 2 \<or> n div b = 0 then [] else dig_rev b f (n div b))"
  by pat_completeness auto
termination
proof (relation "measure (\<lambda>(b, f, n). n)")
  fix b n :: nat and f :: "nat \<Rightarrow> u8"
  assume "\<not> (b < 2 \<or> n div b = 0)"
  then have "1 < b" "0 < n" by (auto intro: Nat.gr0I)
  then show "((b, f, n div b), b, f, n) \<in> measure (\<lambda>(b, f, n). n)" by simp
qed simp

declare dig_rev.simps [simp del]

lemma dec_rev_dig: "dec_rev n = dig_rev 10 (\<lambda>k. of_nat (48 + k)) n"
  by (induction n rule: dec_rev.induct) (subst dec_rev_rec, subst dig_rev.simps, auto)

definition hexd :: "u8 \<Rightarrow> nat \<Rightarrow> u8" where
  "hexd locase k = digits ! k OR locase"

lemma radix_loop_hex: "radix_loop 16 locase num = dig_rev 16 (hexd locase) (unat num)"
proof (induction "16 :: int" locase num rule: radix_loop.induct)
  case (1 locase num)
  have m: "unat ((ucast num :: u8) AND 15) = unat num mod 16"
  proof -
    have "(15 :: nat) = mask 4" by (simp add: mask_eq_exp_minus_1)
    then have "unat ((ucast num :: u8) AND 15) = take_bit 8 (unat num) AND mask 4"
      by (simp add: unsigned_and_eq unsigned_ucast_eq)
    also have "\<dots> = take_bit 4 (unat num)" by (simp flip: take_bit_eq_mask)
    finally show ?thesis by (simp add: take_bit_eq_mod)
  qed
  have d: "unat (drop_bit 4 num) = unat num div 16" by (simp add: drop_bit_eq_div unat_div)
  then have z: "drop_bit 4 num = 0 \<longleftrightarrow> unat num div 16 = 0" by (metis unat_eq_zero)
  show ?case
    using 1 by (subst radix_loop.simps, subst dig_rev.simps) (simp add: m d z hexd_def Let_def del: div_eq_0_iff)
qed

text \<open>The value of digits, the most significant first, as \<^verbatim>\<open>simple_strtoul\<close> accumulates it.\<close>

definition digits_val :: "u32 \<Rightarrow> bytes \<Rightarrow> u32" where
  "digits_val b = foldl (\<lambda>r c. r * b + digit_value c) 0"

lemma dig_rev_val:
  assumes "2 \<le> b" "\<And>k. k < b \<Longrightarrow> digit_value (f k) = of_nat k"
  shows "digits_val (of_nat b) (rev (dig_rev b f n)) = of_nat n"
proof (induction n rule: less_induct)
  case (less n)
  have n: "(of_nat n :: u32) = of_nat (n div b) * of_nat b + of_nat (n mod b)"
    by (metis div_mult_mod_eq of_nat_add of_nat_mult)
  have k: "digit_value (f (n mod b)) = of_nat (n mod b)" using assms by simp
  show ?case
  proof (cases "n div b = 0")
    case True
    then show ?thesis using k n by (subst dig_rev.simps) (simp add: digits_val_def)
  next
    case False
    then have "n div b < n" using assms(1) by (cases n) (auto intro: div_less_dividend)
    then have "digits_val (of_nat b) (rev (dig_rev b f (n div b))) = of_nat (n div b)" by (rule less)
    then show ?thesis using k n False assms(1) by (subst dig_rev.simps) (simp add: digits_val_def)
  qed
qed

section \<open>Parsing\<close>

lemma all_less_16: "(\<forall>k<16. P k) \<longleftrightarrow> P 0 \<and> P 1 \<and> P 2 \<and> P 3 \<and> P 4 \<and> P 5 \<and> P 6 \<and> P 7 \<and> P 8 \<and>
    P 9 \<and> P 10 \<and> P 11 \<and> P 12 \<and> P 13 \<and> P 14 \<and> P (15 :: nat)"
  by (simp add: numeral_eq_Suc All_less_Suc) blast

lemma dec_digit: "k < 10 \<Longrightarrow> isxdigit (of_nat (48 + k)) \<and> digit_value (of_nat (48 + k)) = of_nat k"
  by (simp add: numeral_eq_Suc less_Suc_eq) (elim disjE; simp add: digit_value_def isxdigit_iff isdigit_iff)

lemma hex_digit: "k < 16 \<Longrightarrow> isxdigit (hexd 32 k) \<and> digit_value (hexd 32 k) = of_nat k"
proof -
  have "\<forall>k<16. isxdigit (hexd 32 k) \<and> digit_value (hexd 32 k) = of_nat k"
    unfolding all_less_16 by code_simp
  then show "k < 16 \<Longrightarrow> isxdigit (hexd 32 k) \<and> digit_value (hexd 32 k) = of_nat k" by blast
qed

text \<open>The digits that the loop accepts, and its result on a string.\<close>

definition accepts :: "u32 \<Rightarrow> u8 \<Rightarrow> bool" where
  "accepts b c \<longleftrightarrow> isxdigit c \<and> digit_value c < b"

lemma strtoul_loop_cstr:
  "is_cstr m p s \<Longrightarrow> strtoul_loop m b p r =
     Some (foldl (\<lambda>r c. r * b + digit_value c) r (takeWhile (accepts b) s), p + length (takeWhile (accepts b) s))"
proof (induction s arbitrary: p r)
  case Nil
  then show ?case by (subst strtoul_loop.simps) (auto simp: mem_simps isxdigit_iff)
next
  case (Cons c s)
  then show ?case by (subst strtoul_loop.simps) (auto simp: mem_simps accepts_def [of b "m ! p", symmetric] accepts_def [of b c, symmetric])
qed

lemma strtoul_cstr:
  assumes "is_cstr m p s" "b \<noteq> 0" "s = [] \<or> hd s \<noteq> 48"
  shows "simple_strtoul p b m = Some (digits_val b (takeWhile (accepts b) s), p + length (takeWhile (accepts b) s))"
proof -
  have "rd m p = Some (if s = [] then 0 else hd s)" using assms(1) by (cases s) auto
  then have "strtoul_prefix m p b = Some (p, b)" using assms(3) by (auto simp: mem_simps strtoul_prefix_def)
  then show ?thesis
    using assms(1,2) by (simp add: simple_strtoul_def strtoul_loop_cstr digits_val_def)
qed

text \<open>Digits without a leading zero, or the single digit zero, are read back.\<close>

lemma dig_rev_set: "2 \<le> b \<Longrightarrow> c \<in> set (dig_rev b f n) \<Longrightarrow> \<exists>k<b. c = f k"
proof (induction n rule: less_induct)
  case (less n)
  have a: "c \<in> set (f (n mod b) # (if b < 2 \<or> n div b = 0 then [] else dig_rev b f (n div b)))"
    using less.prems(2) by (subst (asm) dig_rev.simps)
  have "n mod b < b" using less.prems(1) by simp
  moreover have "n div b \<noteq> 0 \<Longrightarrow> n div b < n" using less.prems(1) by (cases n) (auto intro: div_less_dividend)
  ultimately show ?case using a less.IH [of "n div b"] less.prems(1) by (fastforce split: if_splits)
qed

lemma dig_rev_last: "2 \<le> b \<Longrightarrow> \<exists>k<b. last (dig_rev b f n) = f k \<and> (k = 0 \<longrightarrow> n = 0)"
proof (induction n rule: less_induct)
  case (less n)
  show ?case
  proof (cases "n div b = 0")
    case True
    then have "n mod b = n" using less.prems by (simp add: div_eq_0_iff)
    then show ?thesis using True less.prems by (subst dig_rev.simps) (auto intro: exI [of _ n] simp: div_eq_0_iff)
  next
    case False
    then have "n div b < n" using less.prems by (cases n) (auto intro: div_less_dividend)
    then obtain k where "k < b" "last (dig_rev b f (n div b)) = f k" "k = 0 \<longrightarrow> n div b = 0"
      using less by blast
    moreover have "dig_rev b f (n div b) \<noteq> []" by (subst dig_rev.simps) simp
    ultimately show ?thesis
      using False less.prems by (subst dig_rev.simps) auto
  qed
qed

lemma dig_rev_zero: "2 \<le> b \<Longrightarrow> dig_rev b f 0 = [f 0]"
  by (subst dig_rev.simps) simp

lemma strtoul_digits:
  assumes b: "2 \<le> b" "b \<le> 16" and f: "\<And>k. k < b \<Longrightarrow> isxdigit (f k) \<and> digit_value (f k) = of_nat k"
    and "f 0 = 48" and s: "is_cstr m p (rev (dig_rev b f (unat w)))"
  shows "simple_strtoul p (of_nat b) m = Some (w, p + length (dig_rev b f (unat w)))"
proof -
  let ?d = "rev (dig_rev b f (unat w))"
  have lt: "(of_nat k :: u32) < of_nat b" if "k < b" for k
    using that b by (simp add: word_less_nat_alt unat_of_nat)
  have b0: "(of_nat b :: u32) \<noteq> 0" using lt [of 0] b by auto
  have "accepts (of_nat b) c" if "c \<in> set ?d" for c
    using that dig_rev_set [OF b(1), of c f "unat w"] f lt by (auto simp: accepts_def)
  then have tw: "takeWhile (accepts (of_nat b)) ?d = ?d" by (simp add: takeWhile_eq_all_conv)
  have val: "digits_val (of_nat b) ?d = w" using dig_rev_val [of b f "unat w"] b f by simp
  show ?thesis
  proof (cases "w = 0")
    case True
    then have "?d = [48]" using dig_rev_zero [OF b(1), of f] \<open>f 0 = 48\<close> by simp
    with s have c: "rd m p = Some 48" "is_cstr m (Suc p) []" by simp_all
    then have "strtoul_prefix m p (of_nat b) = Some (Suc p, of_nat b)"
      using b0 by (auto simp: mem_simps strtoul_prefix_def)
    then show ?thesis
      using strtoul_loop_cstr [OF c(2)] True b0 dig_rev_zero [OF b(1), of f] by (simp add: simple_strtoul_def)
  next
    case False
    have "hd ?d = last (dig_rev b f (unat w))" by (simp add: hd_rev)
    also obtain k where "k < b" "last (dig_rev b f (unat w)) = f k" "k \<noteq> 0"
      using dig_rev_last [OF b(1), of f "unat w"] False by (auto simp: unat_eq_zero)
    ultimately have "hd ?d \<noteq> 48" using f [of k] f [of 0] \<open>f 0 = 48\<close> b lt [of k]
      by (auto simp: of_nat_zero_small)
    then show ?thesis using strtoul_cstr [OF s b0] tw val by simp
  qed
qed

section \<open>Printing a number\<close>

lemma put_list_blit:
  "lim \<le> length m \<Longrightarrow> put_list lim cs (m, p) = Some (blit m p (take (lim - p) cs), p + length cs)"
proof (induction cs arbitrary: m p)
  case (Cons c cs)
  then show ?case by (cases "p < lim") (simp_all add: ADDCH_def mem_simps Suc_diff_Suc take_Cons')
qed simp

text \<open>With no width, precision or flags other than \<open>SMALL\<close>, \<^verbatim>\<open>number\<close> puts the digits and nothing else.\<close>

lemma pad_none: "sz \<le> 0 \<Longrightarrow> pad_loop lim c sz st = Some (sz - 1, st)"
  by (subst pad_loop.simps) simp

lemma prec_none: "p \<le> i \<Longrightarrow> prec_loop lim i p st = Some st"
  by (subst prec_loop.simps) simp

definition num_digits :: "int \<Rightarrow> u8 \<Rightarrow> u32 \<Rightarrow> bytes" where
  "num_digits base locase w = (if base \<noteq> 10 then dig_rev 16 (hexd locase) (unat w) else dec_rev (unat w))"

lemma number_plain:
  assumes "base = 10 \<or> base = 16" "ty = 0 \<or> ty = SMALL"
  shows "number lim w base (-1) (-1) ty st = put_list lim (rev (num_digits base (ucast ty) w)) st"
proof -
  have z: "(if w = 0 then [48] else if base \<noteq> 10 then radix_loop base (ucast ty) w else put_dec w)
      = num_digits base (ucast ty) w"
    using assms
    by (auto simp: num_digits_def radix_loop_hex put_dec_digits dig_rev_zero dec_rev_dig hexd_def digits_def
        byte_of_def SMALL_def)
  have "num_digits base (ucast ty) w \<noteq> []"
    by (auto simp: num_digits_def dec_rev_dig) (subst (asm) dig_rev.simps, simp)+
  then have l: "1 \<le> int (length (num_digits base (ucast ty) w))" by (cases "num_digits base (ucast ty) w") simp_all
  have f: "ty AND SPECIAL = 0" "ty AND LEFT = 0" "ty AND SIGN = 0" "ty AND ZEROPAD = 0" "ty AND SMALL = ty"
    "ty AND (ZEROPAD + LEFT) = 0"
    using assms(2) by (auto simp: SPECIAL_def LEFT_def SIGN_def ZEROPAD_def SMALL_def)
  show ?thesis
    unfolding number_def Let_def f
    using l by (simp add: f z pad_none prec_none)
qed

lemma number_neg:
  "number lim w 10 (-1) (-1) SIGN st =
     (if sint w < 0 then do { st' \<leftarrow> ADDCH lim 45 st; put_list lim (rev (dec_rev (unat (- w)))) st' }
      else put_list lim (rev (dec_rev (unat w))) st)"
proof -
  have zero: "dec_rev 0 = [48]" by (simp add: dec_rev_dig dig_rev_zero)
  have "dec_rev n \<noteq> []" for n by (subst dec_rev_rec) simp
  then have l: "1 \<le> int (length (dec_rev n))" for n by (cases "dec_rev n") simp_all
  have f: "SIGN AND SPECIAL = 0" "SIGN AND LEFT = 0" "SIGN AND SIGN = SIGN" "SIGN AND ZEROPAD = 0" "SIGN AND SMALL = 0"
    "SIGN AND (ZEROPAD + LEFT) = 0" "SIGN AND PLUS = 0" "SIGN AND SPACE = 0" "SIGN \<noteq> 0"
    by (auto simp: SPECIAL_def LEFT_def SIGN_def ZEROPAD_def SMALL_def PLUS_def SPACE_def)
  have q: "prec_loop lim i i s = Some s" for i s by (rule prec_none) simp
  show ?thesis
    unfolding number_def Let_def f
    using l by (auto simp: f put_dec_digits zero pad_none q)
qed

section \<open>Running the interpreter on a two-character format\<close>

text \<open>What a conversion prints for a word: \<^verbatim>\<open>%u\<close>, \<^verbatim>\<open>%x\<close> and \<^verbatim>\<open>%d\<close>.\<close>

definition shown :: "u8 \<Rightarrow> u32 \<Rightarrow> bytes" where
  "shown c w = (if c = byte_of (CHR ''u'') then rev (dec_rev (unat w))
     else if c = byte_of (CHR ''x'') then rev (dig_rev 16 (hexd 32) (unat w))
     else if sint w < 0 then 45 # rev (dec_rev (unat (- w))) else rev (dec_rev (unat w)))"

lemma directive_number:
  assumes f: "is_cstr m fmt [37, c]" and c: "c \<in> {byte_of (CHR ''u''), byte_of (CHR ''x''), byte_of (CHR ''d'')}"
  shows "directive buf lim fmt [AWord w] (m, p) = do {
    st' \<leftarrow> put_list lim (shown c w) (m, p); Some (fmt + 2, [], st') }"
proof -
  have r: "rd m (Suc fmt) = Some c" using f by simp
  have "flag_loop m fmt 0 = Some (Suc fmt, 0)"
    using c by (subst flag_loop.simps) (auto simp: r byte_of_def)
  moreover have "get_width m (Suc fmt) 0 [AWord w] = Some (Suc fmt, 0, -1, [AWord w])"
    using c by (auto simp: get_width_def r is_digit_def byte_of_def)
  moreover have "get_precision m (Suc fmt) [AWord w] = Some (Suc fmt, -1, [AWord w])"
    using c by (auto simp: get_precision_def r byte_of_def)
  moreover have "get_qualifier m (Suc fmt) = Some (Suc fmt, None)"
    using c by (auto simp: get_qualifier_def r byte_of_def)
  moreover have "convert buf lim (Suc fmt) 0 (-1) (-1) None [AWord w] (m, p) = do {
      st' \<leftarrow> put_list lim (shown c w) (m, p); Some (fmt + 2, [], st') }"
    using c number_plain [of 10 0 lim w "(m, p)"] number_plain [of 16 SMALL lim w "(m, p)"]
      number_neg [of lim w "(m, p)"]
    by (auto simp: convert_def r get_num_def byte_of_def shown_def num_digits_def SMALL_def Let_def)
  ultimately show ?thesis by (simp add: directive_def)
qed

lemma vsn_loop_emits: "vsn_loop buf lim fmt args st = Some (args', st') \<Longrightarrow> fmt_emits lim args st args' st'"
proof (induction buf lim fmt args st rule: vsn_loop.induct)
  case (1 buf lim fmt args st)
  from "1.prems" obtain c where c: "rd (fst st) fmt = Some c"
    by (subst (asm) vsn_loop.simps) (auto split: Option.bind_splits)
  consider "c = 0" | "c \<noteq> 0" "c \<noteq> 37" | "c = 37" by blast
  then show ?case
  proof cases
    case 1
    then show ?thesis using "1.prems" c by (subst (asm) vsn_loop.simps) simp
  next
    case 2
    then obtain st1 where s: "ADDCH lim c st = Some st1" "vsn_loop buf lim (Suc fmt) args st1 = Some (args', st')"
      using "1.prems" c by (subst (asm) vsn_loop.simps) (auto split: Option.bind_splits)
    from fmt_emits_trans [OF emits_fmt [OF ADDCH_emits [OF s(1)] order_refl] "1.IH"(1) [OF c 2 s]]
    show ?thesis .
  next
    case 3
    then obtain f as1 st1 where s: "directive buf lim fmt args st = Some (f, as1, st1)"
      "vsn_loop buf lim f as1 st1 = Some (args', st')"
      using "1.prems" c by (subst (asm) vsn_loop.simps) (auto split: Option.bind_splits)
    then show ?thesis
      using "1.IH"(2) [OF c _ _ s(1) refl refl s(2)] directive_ok [OF s(1)] 3
      by (auto intro: fmt_emits_trans)
  qed
qed

lemma is_cstr_append_NUL: "0 \<notin> set s \<Longrightarrow> p + length s < length m \<Longrightarrow> is_cstr (blit m p (s @ [0])) p s"
  by (rule is_cstr_blit_same)

lemma vsnprintf_number:
  assumes f: "is_cstr m fmt [37, c]" and c: "c \<in> {byte_of (CHR ''u''), byte_of (CHR ''x''), byte_of (CHR ''d'')}"
    and room: "length (shown c w) < n" "buf + n \<le> length m" "length m < 2 ^ 32"
    and apart: "fmt + 3 \<le> buf \<or> buf + n \<le> fmt"
  shows "vsnprintf buf n fmt [AWord w] m =
    Some (int (length (shown c w)), blit m buf (shown c w @ [0]))"
proof -
  let ?s = "shown c w"
  have put: "put_list (buf + n) ?s (m, buf) = Some (blit m buf ?s, buf + length ?s)"
    using room by (simp add: put_list_blit)
  have r: "rd m fmt = Some 37" using f by simp
  have e: "rd (blit m buf ?s) (fmt + 2) = Some 0"
  proof -
    have "is_cstr (blit m buf ?s) fmt [37, c]" using f apart room by (subst is_cstr_blit) auto
    then show ?thesis by simp
  qed
  have "vsn_loop buf (buf + n) fmt [AWord w] (m, buf) = Some ([], (blit m buf ?s, buf + length ?s))"
    by (subst vsn_loop.simps, simp only: fst_conv r Option.bind.bind_lunit, simp add: directive_number [OF f c] put)
      (subst vsn_loop.simps, simp add: e [simplified] mem_simps)
  then show ?thesis
    using room by (simp add: vsnprintf_def vsnprintf_internal_def ADDCH_def blit_snoc mem_simps)
qed

lemma dig_rev_length: "2 \<le> b \<Longrightarrow> n < b ^ k \<Longrightarrow> 0 < k \<Longrightarrow> length (dig_rev b f n) \<le> k"
proof (induction k arbitrary: n)
  case (Suc k)
  show ?case
  proof (cases "n div b = 0")
    case True
    then show ?thesis by (subst dig_rev.simps) simp
  next
    case False
    then have "k \<noteq> 0" using Suc.prems by (cases k) (auto simp: div_eq_0_iff)
    moreover have "n div b < b ^ k" using Suc.prems by (simp add: div_less_iff_less_mult mult.commute)
    ultimately have "length (dig_rev b f (n div b)) \<le> k" using Suc by simp
    then show ?thesis using False Suc.prems by (subst dig_rev.simps) simp
  qed
qed simp

lemma shown_length: "length (shown c w) \<le> 11"
proof -
  have u: "unat (v :: u32) < 10 ^ 10" "unat v < 16 ^ 8" for v
    using unsigned_less [of v, where 'a = nat] by simp_all
  have "length (dec_rev (unat v)) \<le> 10" "length (dig_rev 16 (hexd 32) (unat v)) \<le> 8" for v :: u32
    using dig_rev_length [OF _ u(1)] dig_rev_length [OF _ u(2)] by (simp_all add: dec_rev_dig)
  then show ?thesis
    by (simp add: shown_def) (meson le_trans numeral_le_iff semiring_norm)
qed

lemma dig_rev_nonzero: "2 \<le> b \<Longrightarrow> (\<And>k. k < b \<Longrightarrow> isxdigit (f k)) \<Longrightarrow> 0 \<notin> set (dig_rev b f n)"
  using dig_rev_set [of b 0 f n] by (fastforce simp: isxdigit_iff)

lemma dec_rev_nonzero: "0 \<notin> set (dec_rev n)"
  unfolding dec_rev_dig by (rule dig_rev_nonzero) (use dec_digit in auto)

lemma shown_nonzero: "0 \<notin> set (shown c w)"
proof -
  have "0 \<notin> set (dig_rev 16 (hexd 32) (unat w))" by (rule dig_rev_nonzero) (use hex_digit in auto)
  then show ?thesis using dec_rev_nonzero by (auto simp: shown_def)
qed

lemma strtoul_dec: "is_cstr m p (rev (dec_rev (unat w))) \<Longrightarrow>
    simple_strtoul p 10 m = Some (w, p + length (dec_rev (unat w)))"
  using strtoul_digits [of 10 "\<lambda>k. of_nat (48 + k)" m p w] dec_digit by (simp add: dec_rev_dig)

lemma strtoul_hex: "is_cstr m p (rev (dig_rev 16 (hexd 32) (unat w))) \<Longrightarrow>
    simple_strtoul p 16 m = Some (w, p + length (dig_rev 16 (hexd 32) (unat w)))"
  using strtoul_digits [of 16 "hexd 32" m p w] hex_digit
  by (simp add: hexd_def digits_def byte_of_def)

lemma hd_dec: "rd m p = Some 45 \<longleftrightarrow> False" if "is_cstr m p (rev (dec_rev n))"
proof -
  obtain k where k: "k < 10" "last (dec_rev n) = of_nat (48 + k)"
    using dig_rev_last [of 10 "\<lambda>k. of_nat (48 + k)" n] by (auto simp: dec_rev_dig)
  have ne: "dec_rev n \<noteq> []" by (subst dec_rev_rec) simp
  then obtain c s where cs: "rev (dec_rev n) = c # s" by (cases "rev (dec_rev n)") auto
  then have "isxdigit c" using k dec_digit [OF k(1)] by (metis hd_rev list.sel(1))
  then have "c \<noteq> 45" by (auto simp: isxdigit_iff)
  moreover have "rd m p = Some c" using that cs by simp
  ultimately show ?thesis by simp
qed

lemma strtol_dec: "is_cstr m p (shown (byte_of (CHR ''d'')) w) \<Longrightarrow>
    simple_strtol p 10 m = Some (sint w, p + length (shown (byte_of (CHR ''d'')) w))"
proof (cases "sint w < 0")
  case True
  moreover assume "is_cstr m p (shown (byte_of (CHR ''d'')) w)"
  ultimately have "rd m p = Some 45" "is_cstr m (Suc p) (rev (dec_rev (unat (- w))))"
    by (simp_all add: shown_def byte_of_def)
  then show ?thesis
    using True strtoul_dec [of m "Suc p" "- w"]
    by (auto simp: simple_strtol_def shown_def byte_of_def mem_simps)
next
  case False
  moreover assume "is_cstr m p (shown (byte_of (CHR ''d'')) w)"
  ultimately have s: "is_cstr m p (rev (dec_rev (unat w)))" by (simp add: shown_def byte_of_def)
  then obtain c where "rd m p = Some c" "c \<noteq> 45" using hd_dec [OF s] is_cstr_bound [OF s] by (auto simp: rd_def)
  then show ?thesis
    using False strtoul_dec [OF s] by (simp add: simple_strtol_def shown_def byte_of_def mem_simps)
qed

section \<open>Properties\<close>

text \<open>C28: The shift-and-multiply conversion of \<^verbatim>\<open>put_dec\<close> gives the decimal digits of every 32-bit number.\<close>

theorem put_dec_correct: "put_dec num = dec_rev (unat num)"
  by (rule put_dec_digits)

text \<open>C22: \<^verbatim>\<open>vsnprintf\<close> of any format into a buffer inside its memory: the bytes outside the buffer are
  unchanged, apart from the counts stored by \<^verbatim>\<open>%n\<close> through pointer arguments, and a buffer of at least
  one byte ends up NUL-terminated within its size.\<close>

theorem vsnprintf_bounded:
  assumes "vsnprintf buf n fmt args m = Some (r, m')" "buf + n < 2 ^ 32" "buf + n \<le> length m"
  shows "length m' = length m \<and>
    (\<forall>i. (i < buf \<or> buf + n \<le> i) \<and> i \<notin> ptr_bytes args \<longrightarrow> m' ! i = m ! i) \<and>
    (0 < n \<longrightarrow> (\<exists>i<n. m' ! (buf + i) = 0))"
proof -
  obtain as' st where l: "vsn_loop buf (buf + n) fmt args (m, buf) = Some (as', st)"
    using assms(1,2) by (auto simp: vsnprintf_def vsnprintf_internal_def Let_def split: Option.bind_splits)
  have e: "fmt_emits (buf + n) args (m, buf) as' st" using vsn_loop_emits [OF l] .
  show ?thesis
  proof (cases "0 < n")
    case False
    then show ?thesis
      using assms(1,2) e l by (auto simp: vsnprintf_def vsnprintf_internal_def fmt_emits_def)
  next
    case True
    define i where "i = (if snd st < buf + n then snd st else buf + n - 1)"
    have i: "buf \<le> i" "i < buf + n" using True e by (auto simp: i_def fmt_emits_def)
    have "m' = (fst st)[i := 0]"
      using assms(1,2) l True
      by (cases st) (auto simp: i_def vsnprintf_def vsnprintf_internal_def ADDCH_def wr_def split: if_splits)
    then show ?thesis
      using i e assms(3) by (auto simp: fmt_emits_def intro!: exI [of _ "i - buf"])
  qed
qed

lemma vsnprintf_bounded_witness:
  "\<exists>m'. vsnprintf 4 3 0 [] [97, 98, 99, 0, 9, 9, 9, 9] = Some (3, m') \<and> m' ! 7 = 9 \<and> (\<exists>i<3. m' ! (4 + i) = 0)"
proof -
  have "vsnprintf 4 3 0 [] [97, 98, 99, 0, 9, 9, 9, 9] = Some (3, [97, 98, 99, 0, 97, 98, 0, 9])"
    by (simp add: vsnprintf_def vsnprintf_internal_def vsn_loop.simps ADDCH_def rd_def wr_def)
  then show ?thesis
    using vsnprintf_bounded [of 4 3 0 "[]" "[97, 98, 99, 0, 9, 9, 9, 9]"] by (auto simp: ptr_bytes_def)
qed

text \<open>C23: A word printed with \<^verbatim>\<open>%u\<close> or \<^verbatim>\<open>%x\<close> into a buffer of twelve bytes is read back by
  \<^verbatim>\<open>simple_strtoul\<close> in base 10 or 16, one printed with \<^verbatim>\<open>%d\<close> by \<^verbatim>\<open>simple_strtol\<close>; the end pointer is the
  terminator and the result of \<^verbatim>\<open>vsnprintf\<close> the length.\<close>

theorem print_then_parse:
  assumes "is_cstr m fmt [37, c]" "c \<in> {byte_of (CHR ''u''), byte_of (CHR ''x''), byte_of (CHR ''d'')}"
    and "12 \<le> n" "buf + n \<le> length m" "length m < 2 ^ 32" "fmt + 3 \<le> buf \<or> buf + n \<le> fmt"
  shows "\<exists>k m'. vsnprintf buf n fmt [AWord w] m = Some (int k, m') \<and> rd m' (buf + k) = Some 0 \<and>
    (c = byte_of (CHR ''u'') \<longrightarrow> simple_strtoul buf 10 m' = Some (w, buf + k)) \<and>
    (c = byte_of (CHR ''x'') \<longrightarrow> simple_strtoul buf 16 m' = Some (w, buf + k)) \<and>
    (c = byte_of (CHR ''d'') \<longrightarrow> simple_strtol buf 10 m' = Some (sint w, buf + k))"
proof -
  let ?s = "shown c w" let ?m = "blit m buf (?s @ [0])"
  have len: "length ?s < n" using shown_length [of c w] assms(3) by linarith
  have s: "is_cstr ?m buf ?s"
    using shown_nonzero len assms(4) by (intro is_cstr_append_NUL) auto
  have v: "vsnprintf buf n fmt [AWord w] m = Some (int (length ?s), ?m)"
    using assms len by (intro vsnprintf_number) auto
  have z: "rd ?m (buf + length ?s) = Some 0" using is_cstr_bound [OF s] is_cstr_end [OF s] by simp
  show ?thesis
    using v z s strtoul_dec [of ?m buf w] strtoul_hex [of ?m buf w] strtol_dec [of ?m buf w]
    by (intro exI [of _ "length ?s"] exI [of _ ?m]) (auto simp: shown_def byte_of_def)
qed

lemma print_then_parse_witness:
  "\<exists>k m'. vsnprintf 3 12 0 [AWord 0xfffffff0] ([37, 100, 0] @ replicate 12 7) = Some (int k, m') \<and>
     simple_strtol 3 10 m' = Some (-16, 3 + k)"
  using print_then_parse [of "[37, 100, 0] @ replicate 12 7" 0 100 12 3 "0xfffffff0"]
  by (auto simp: byte_of_def)

end
