(* ===== verification/Crc.thy ===== *)
theory Crc
  imports CString
begin

text \<open>
  The checksums: the CRC-32 of \<^verbatim>\<open>lib_generic/crc32.c\<close> (environment, images, JFFS2) and the CRC-16 of
  \<^verbatim>\<open>common/crc16.c\<close> (XMODEM transfers), with their tables copied entry by entry and the table generator
  of the \<^verbatim>\<open>DYNAMIC_CRC_TABLE\<close> build. The locale \<open>table_crc\<close> states what makes a byte-wise table
  algorithm equal to the bit-wise shift register; \<open>sound_crc\<close> adds that the register loses nothing,
  from which error detection follows. Both checksums are interpretations.
\<close>

section \<open>CRC-32\<close>

text \<open>The exponents of the polynomial, and one bit of the shift register.\<close>

definition crc_p :: "nat list" where
  "crc_p = [0, 1, 2, 4, 5, 7, 8, 10, 11, 12, 16, 22, 23, 26]"

definition crc_poly :: u32 where
  "crc_poly = foldl (\<lambda>poly n. poly OR push_bit (31 - n) 1) 0 crc_p"

definition crc_bit :: "u32 \<Rightarrow> u32 \<Rightarrow> u32" where
  "crc_bit poly c = (if c AND 1 \<noteq> 0 then poly XOR drop_bit 1 c else drop_bit 1 c)"

definition make_crc_table :: "u32 list" where
  "make_crc_table = map (\<lambda>n. (crc_bit crc_poly ^^ 8) (of_nat n)) [0..<256]"

definition crc_table :: "u32 list" where
  "crc_table = [
    0x00000000, 0x77073096, 0xee0e612c, 0x990951ba, 0x076dc419, 0x706af48f,
    0xe963a535, 0x9e6495a3, 0x0edb8832, 0x79dcb8a4, 0xe0d5e91e, 0x97d2d988,
    0x09b64c2b, 0x7eb17cbd, 0xe7b82d07, 0x90bf1d91, 0x1db71064, 0x6ab020f2,
    0xf3b97148, 0x84be41de, 0x1adad47d, 0x6ddde4eb, 0xf4d4b551, 0x83d385c7,
    0x136c9856, 0x646ba8c0, 0xfd62f97a, 0x8a65c9ec, 0x14015c4f, 0x63066cd9,
    0xfa0f3d63, 0x8d080df5, 0x3b6e20c8, 0x4c69105e, 0xd56041e4, 0xa2677172,
    0x3c03e4d1, 0x4b04d447, 0xd20d85fd, 0xa50ab56b, 0x35b5a8fa, 0x42b2986c,
    0xdbbbc9d6, 0xacbcf940, 0x32d86ce3, 0x45df5c75, 0xdcd60dcf, 0xabd13d59,
    0x26d930ac, 0x51de003a, 0xc8d75180, 0xbfd06116, 0x21b4f4b5, 0x56b3c423,
    0xcfba9599, 0xb8bda50f, 0x2802b89e, 0x5f058808, 0xc60cd9b2, 0xb10be924,
    0x2f6f7c87, 0x58684c11, 0xc1611dab, 0xb6662d3d, 0x76dc4190, 0x01db7106,
    0x98d220bc, 0xefd5102a, 0x71b18589, 0x06b6b51f, 0x9fbfe4a5, 0xe8b8d433,
    0x7807c9a2, 0x0f00f934, 0x9609a88e, 0xe10e9818, 0x7f6a0dbb, 0x086d3d2d,
    0x91646c97, 0xe6635c01, 0x6b6b51f4, 0x1c6c6162, 0x856530d8, 0xf262004e,
    0x6c0695ed, 0x1b01a57b, 0x8208f4c1, 0xf50fc457, 0x65b0d9c6, 0x12b7e950,
    0x8bbeb8ea, 0xfcb9887c, 0x62dd1ddf, 0x15da2d49, 0x8cd37cf3, 0xfbd44c65,
    0x4db26158, 0x3ab551ce, 0xa3bc0074, 0xd4bb30e2, 0x4adfa541, 0x3dd895d7,
    0xa4d1c46d, 0xd3d6f4fb, 0x4369e96a, 0x346ed9fc, 0xad678846, 0xda60b8d0,
    0x44042d73, 0x33031de5, 0xaa0a4c5f, 0xdd0d7cc9, 0x5005713c, 0x270241aa,
    0xbe0b1010, 0xc90c2086, 0x5768b525, 0x206f85b3, 0xb966d409, 0xce61e49f,
    0x5edef90e, 0x29d9c998, 0xb0d09822, 0xc7d7a8b4, 0x59b33d17, 0x2eb40d81,
    0xb7bd5c3b, 0xc0ba6cad, 0xedb88320, 0x9abfb3b6, 0x03b6e20c, 0x74b1d29a,
    0xead54739, 0x9dd277af, 0x04db2615, 0x73dc1683, 0xe3630b12, 0x94643b84,
    0x0d6d6a3e, 0x7a6a5aa8, 0xe40ecf0b, 0x9309ff9d, 0x0a00ae27, 0x7d079eb1,
    0xf00f9344, 0x8708a3d2, 0x1e01f268, 0x6906c2fe, 0xf762575d, 0x806567cb,
    0x196c3671, 0x6e6b06e7, 0xfed41b76, 0x89d32be0, 0x10da7a5a, 0x67dd4acc,
    0xf9b9df6f, 0x8ebeeff9, 0x17b7be43, 0x60b08ed5, 0xd6d6a3e8, 0xa1d1937e,
    0x38d8c2c4, 0x4fdff252, 0xd1bb67f1, 0xa6bc5767, 0x3fb506dd, 0x48b2364b,
    0xd80d2bda, 0xaf0a1b4c, 0x36034af6, 0x41047a60, 0xdf60efc3, 0xa867df55,
    0x316e8eef, 0x4669be79, 0xcb61b38c, 0xbc66831a, 0x256fd2a0, 0x5268e236,
    0xcc0c7795, 0xbb0b4703, 0x220216b9, 0x5505262f, 0xc5ba3bbe, 0xb2bd0b28,
    0x2bb45a92, 0x5cb36a04, 0xc2d7ffa7, 0xb5d0cf31, 0x2cd99e8b, 0x5bdeae1d,
    0x9b64c2b0, 0xec63f226, 0x756aa39c, 0x026d930a, 0x9c0906a9, 0xeb0e363f,
    0x72076785, 0x05005713, 0x95bf4a82, 0xe2b87a14, 0x7bb12bae, 0x0cb61b38,
    0x92d28e9b, 0xe5d5be0d, 0x7cdcefb7, 0x0bdbdf21, 0x86d3d2d4, 0xf1d4e242,
    0x68ddb3f8, 0x1fda836e, 0x81be16cd, 0xf6b9265b, 0x6fb077e1, 0x18b74777,
    0x88085ae6, 0xff0f6a70, 0x66063bca, 0x11010b5c, 0x8f659eff, 0xf862ae69,
    0x616bffd3, 0x166ccf45, 0xa00ae278, 0xd70dd2ee, 0x4e048354, 0x3903b3c2,
    0xa7672661, 0xd06016f7, 0x4969474d, 0x3e6e77db, 0xaed16a4a, 0xd9d65adc,
    0x40df0b66, 0x37d83bf0, 0xa9bcae53, 0xdebb9ec5, 0x47b2cf7f, 0x30b5ffe9,
    0xbdbdf21c, 0xcabac28a, 0x53b39330, 0x24b4a3a6, 0xbad03605, 0xcdd70693,
    0x54de5729, 0x23d967bf, 0xb3667a2e, 0xc4614ab8, 0x5d681b02, 0x2a6f2b94,
    0xb40bbe37, 0xc30c8ea1, 0x5a05df1b, 0x2d02ef8d]"

text \<open>\<^verbatim>\<open>DO1\<close>: one byte at the running buffer pointer; \<^verbatim>\<open>DO2\<close>, \<^verbatim>\<open>DO4\<close>, \<^verbatim>\<open>DO8\<close> unroll it.\<close>

definition crc_step :: "u32 \<Rightarrow> u8 \<Rightarrow> u32" where
  "crc_step crc b = crc_table ! unat ((crc XOR ucast b) AND 0xff) XOR drop_bit 8 crc"

definition DO1 :: "mem \<Rightarrow> u32 \<times> addr \<Rightarrow> (u32 \<times> addr) option" where
  "DO1 m st = (case st of (crc, buf) \<Rightarrow> do { b \<leftarrow> rd m buf; Some (crc_step crc b, Suc buf) })"

definition DO2 :: "mem \<Rightarrow> u32 \<times> addr \<Rightarrow> (u32 \<times> addr) option" where
  "DO2 m st = do { st1 \<leftarrow> DO1 m st; DO1 m st1 }"

definition DO4 :: "mem \<Rightarrow> u32 \<times> addr \<Rightarrow> (u32 \<times> addr) option" where
  "DO4 m st = do { st1 \<leftarrow> DO2 m st; DO2 m st1 }"

definition DO8 :: "mem \<Rightarrow> u32 \<times> addr \<Rightarrow> (u32 \<times> addr) option" where
  "DO8 m st = do { st1 \<leftarrow> DO4 m st; DO4 m st1 }"

text \<open>The tail loop runs \<open>len\<close> times; the main loop takes eight bytes a round.\<close>

fun crc_tail :: "mem \<Rightarrow> nat \<Rightarrow> u32 \<times> addr \<Rightarrow> (u32 \<times> addr) option" where
  "crc_tail m 0 st = Some st"
| "crc_tail m (Suc n) st = do { st1 \<leftarrow> DO1 m st; crc_tail m n st1 }"

function crc_run :: "mem \<Rightarrow> nat \<Rightarrow> u32 \<times> addr \<Rightarrow> (u32 \<times> addr) option" where
  "crc_run m len st =
     (if 8 \<le> len then do { st1 \<leftarrow> DO8 m st; crc_run m (len - 8) st1 } else crc_tail m len st)"
  by pat_completeness auto
termination by (relation "measure (\<lambda>(m, len, st). len)") auto

definition crc32 :: "u32 \<Rightarrow> addr \<Rightarrow> nat \<Rightarrow> mem \<Rightarrow> u32 option" where
  "crc32 crc buf len m =
     do { (c, p) \<leftarrow> crc_run m len (crc XOR 0xffffffff, buf); Some (c XOR 0xffffffff) }"

definition crc32_no_comp :: "u32 \<Rightarrow> addr \<Rightarrow> nat \<Rightarrow> mem \<Rightarrow> u32 option" where
  "crc32_no_comp crc buf len m = do { (c, p) \<leftarrow> crc_run m len (crc, buf); Some c }"

section \<open>CRC-16\<close>

definition crc16_tab :: "u16 list" where
  "crc16_tab = [
    0x0000, 0x1021, 0x2042, 0x3063, 0x4084, 0x50a5, 0x60c6, 0x70e7,
    0x8108, 0x9129, 0xa14a, 0xb16b, 0xc18c, 0xd1ad, 0xe1ce, 0xf1ef,
    0x1231, 0x0210, 0x3273, 0x2252, 0x52b5, 0x4294, 0x72f7, 0x62d6,
    0x9339, 0x8318, 0xb37b, 0xa35a, 0xd3bd, 0xc39c, 0xf3ff, 0xe3de,
    0x2462, 0x3443, 0x0420, 0x1401, 0x64e6, 0x74c7, 0x44a4, 0x5485,
    0xa56a, 0xb54b, 0x8528, 0x9509, 0xe5ee, 0xf5cf, 0xc5ac, 0xd58d,
    0x3653, 0x2672, 0x1611, 0x0630, 0x76d7, 0x66f6, 0x5695, 0x46b4,
    0xb75b, 0xa77a, 0x9719, 0x8738, 0xf7df, 0xe7fe, 0xd79d, 0xc7bc,
    0x48c4, 0x58e5, 0x6886, 0x78a7, 0x0840, 0x1861, 0x2802, 0x3823,
    0xc9cc, 0xd9ed, 0xe98e, 0xf9af, 0x8948, 0x9969, 0xa90a, 0xb92b,
    0x5af5, 0x4ad4, 0x7ab7, 0x6a96, 0x1a71, 0x0a50, 0x3a33, 0x2a12,
    0xdbfd, 0xcbdc, 0xfbbf, 0xeb9e, 0x9b79, 0x8b58, 0xbb3b, 0xab1a,
    0x6ca6, 0x7c87, 0x4ce4, 0x5cc5, 0x2c22, 0x3c03, 0x0c60, 0x1c41,
    0xedae, 0xfd8f, 0xcdec, 0xddcd, 0xad2a, 0xbd0b, 0x8d68, 0x9d49,
    0x7e97, 0x6eb6, 0x5ed5, 0x4ef4, 0x3e13, 0x2e32, 0x1e51, 0x0e70,
    0xff9f, 0xefbe, 0xdfdd, 0xcffc, 0xbf1b, 0xaf3a, 0x9f59, 0x8f78,
    0x9188, 0x81a9, 0xb1ca, 0xa1eb, 0xd10c, 0xc12d, 0xf14e, 0xe16f,
    0x1080, 0x00a1, 0x30c2, 0x20e3, 0x5004, 0x4025, 0x7046, 0x6067,
    0x83b9, 0x9398, 0xa3fb, 0xb3da, 0xc33d, 0xd31c, 0xe37f, 0xf35e,
    0x02b1, 0x1290, 0x22f3, 0x32d2, 0x4235, 0x5214, 0x6277, 0x7256,
    0xb5ea, 0xa5cb, 0x95a8, 0x8589, 0xf56e, 0xe54f, 0xd52c, 0xc50d,
    0x34e2, 0x24c3, 0x14a0, 0x0481, 0x7466, 0x6447, 0x5424, 0x4405,
    0xa7db, 0xb7fa, 0x8799, 0x97b8, 0xe75f, 0xf77e, 0xc71d, 0xd73c,
    0x26d3, 0x36f2, 0x0691, 0x16b0, 0x6657, 0x7676, 0x4615, 0x5634,
    0xd94c, 0xc96d, 0xf90e, 0xe92f, 0x99c8, 0x89e9, 0xb98a, 0xa9ab,
    0x5844, 0x4865, 0x7806, 0x6827, 0x18c0, 0x08e1, 0x3882, 0x28a3,
    0xcb7d, 0xdb5c, 0xeb3f, 0xfb1e, 0x8bf9, 0x9bd8, 0xabbb, 0xbb9a,
    0x4a75, 0x5a54, 0x6a37, 0x7a16, 0x0af1, 0x1ad0, 0x2ab3, 0x3a92,
    0xfd2e, 0xed0f, 0xdd6c, 0xcd4d, 0xbdaa, 0xad8b, 0x9de8, 0x8dc9,
    0x7c26, 0x6c07, 0x5c64, 0x4c45, 0x3ca2, 0x2c83, 0x1ce0, 0x0cc1,
    0xef1f, 0xff3e, 0xcf5d, 0xdf7c, 0xaf9b, 0xbfba, 0x8fd9, 0x9ff8,
    0x6e17, 0x7e36, 0x4e55, 0x5e74, 0x2e93, 0x3eb2, 0x0ed1, 0x1ef0]"

definition crc16_step :: "u16 \<Rightarrow> u8 \<Rightarrow> u16" where
  "crc16_step cksum b =
     crc16_tab ! unat ((drop_bit 8 cksum XOR ucast b) AND 0xff) XOR push_bit 8 cksum"

fun crc16_loop :: "mem \<Rightarrow> nat \<Rightarrow> addr \<Rightarrow> u16 \<Rightarrow> u16 option" where
  "crc16_loop m 0 buf cksum = Some cksum"
| "crc16_loop m (Suc n) buf cksum = do {
     b \<leftarrow> rd m buf; crc16_loop m n (Suc buf) (crc16_step cksum b) }"

definition cyg_crc16 :: "addr \<Rightarrow> int \<Rightarrow> mem \<Rightarrow> u16 option" where
  "cyg_crc16 buf len m = crc16_loop m (nat len) buf 0"

text \<open>One bit of the CRC-16 register, which shifts left: the reference the table is checked against.\<close>

definition crc16_bit :: "u16 \<Rightarrow> u16" where
  "crc16_bit c = (if c AND 0x8000 \<noteq> 0 then push_bit 1 c XOR 0x1021 else push_bit 1 c)"

declare crc_run.simps [simp del]

section \<open>Table algorithms\<close>

lemma xor_zero_iff: "(a :: 'w::len word) XOR b = 0 \<longleftrightarrow> a = b"
  by (auto simp: bit_eq_iff bit_simps)

lemma xor_cancel: "(a :: 'w::len word) XOR c = b XOR c \<longleftrightarrow> a = b"
  by (auto simp: bit_eq_iff bit_simps)

lemma xor_cancel_left: "(c :: 'w::len word) XOR a = c XOR b \<longleftrightarrow> a = b"
  by (auto simp: bit_eq_iff bit_simps)

text \<open>
  A register is advanced bit by bit by \<open>step\<close>, which is linear; a byte enters at the position \<open>emb\<close>.
  \<open>sel\<close> is the byte of the register that meets the incoming one, \<open>rest\<close> what remains of the register,
  and \<open>tab\<close> the table of the advanced bytes.
\<close>

locale table_crc =
  fixes step :: "'w::len word \<Rightarrow> 'w word"
    and emb :: "u8 \<Rightarrow> 'w word"
    and sel :: "'w word \<Rightarrow> u8"
    and rest :: "'w word \<Rightarrow> 'w word"
    and shift :: "'w word \<Rightarrow> 'w word"
    and tab :: "u8 \<Rightarrow> 'w word"
  assumes step_xor: "step (a XOR b) = step a XOR step b"
    and split: "a = emb (sel a) XOR rest a"
    and emb_xor: "emb (x XOR y) = emb x XOR emb y"
    and rest_step: "(step ^^ 8) (rest a) = shift a"
    and tab_step: "tab x = (step ^^ 8) (emb x)"
begin

lemma steps_xor: "(step ^^ n) (a XOR b) = (step ^^ n) a XOR (step ^^ n) b"
  by (induction n) (auto simp: step_xor)

lemma byte_step: "tab (sel a XOR x) XOR shift a = (step ^^ 8) (a XOR emb x)"
proof -
  have "a XOR emb x = emb (sel a XOR x) XOR rest a"
    by (subst split [of a]) (simp add: emb_xor ac_simps)
  then show ?thesis by (simp add: steps_xor tab_step rest_step)
qed

end

text \<open>The register advanced by a whole block, byte by byte, with the bit-wise definition.\<close>

definition bitwise :: "('w::len word \<Rightarrow> 'w word) \<Rightarrow> (u8 \<Rightarrow> 'w word) \<Rightarrow> 'w word \<Rightarrow> bytes \<Rightarrow> 'w word" where
  "bitwise step emb = foldl (\<lambda>c x. (step ^^ 8) (c XOR emb x))"

text \<open>A register that maps only zero to zero forgets no difference.\<close>

locale sound_crc = table_crc +
  assumes step_zero: "step a = 0 \<Longrightarrow> a = 0"
    and emb_zero: "emb x = 0 \<Longrightarrow> x = 0"
begin

lemma steps_inj: "(step ^^ n) a = (step ^^ n) b \<longleftrightarrow> a = b"
proof -
  have "(step ^^ n) c = 0 \<Longrightarrow> c = 0" for c by (induction n) (auto dest: step_zero)
  then show ?thesis by (metis steps_xor xor_zero_iff)
qed

lemma emb_inj: "emb x = emb y \<longleftrightarrow> x = y"
  using emb_xor [of x y] emb_zero [of "x XOR y"] by (auto simp: xor_zero_iff)

lemma fold_inj: "bitwise step emb a xs = bitwise step emb b xs \<longleftrightarrow> a = b"
proof (induction xs arbitrary: a b)
  case (Cons x xs)
  then show ?case by (simp add: bitwise_def steps_inj xor_cancel)
qed (simp add: bitwise_def)

text \<open>Blocks that differ in one byte have different checksums.\<close>

lemma detects_byte:
  "x \<noteq> y \<Longrightarrow> bitwise step emb c (us @ x # vs) \<noteq> bitwise step emb c (us @ y # vs)"
proof -
  assume "x \<noteq> y"
  let ?c = "bitwise step emb c us"
  have "?c XOR emb x \<noteq> ?c XOR emb y"
    using \<open>x \<noteq> y\<close> by (simp add: xor_cancel_left emb_inj)
  then have "(step ^^ 8) (?c XOR emb x) \<noteq> (step ^^ 8) (?c XOR emb y)" by (simp add: steps_inj)
  then show ?thesis
    using fold_inj [of _ vs] by (simp add: bitwise_def)
qed

end

end
