(* ===== verification/Env.thy ===== *)
theory Env
  imports VsprintfProps Crc
begin

text \<open>
  The environment variables: \<^verbatim>\<open>common/cmd_nvedit.c\<close>, \<^verbatim>\<open>common/env_common.c\<close>, with \<^verbatim>\<open>console_assign\<close> of
  \<^verbatim>\<open>common/console.c\<close>, \<^verbatim>\<open>eth_set_enetaddr\<close> of \<^verbatim>\<open>net/eth.c\<close> and \<^verbatim>\<open>copy_filename\<close> of \<^verbatim>\<open>net/net.c\<close>, which \<^verbatim>\<open>setenv\<close>
  calls. The data block is the byte memory \<open>env_data\<close>, whose length is \<^verbatim>\<open>ENV_SIZE\<close>; an access behind it is
  \<open>None\<close>. A C string argument is the list of its bytes without the NUL, a \<^verbatim>\<open>NULL\<close> argument is \<open>None\<close>.
  The configuration is that of the boards: \<^verbatim>\<open>CONFIG_ENV_OVERWRITE\<close> is off, \<^verbatim>\<open>CONFIG_NET_MULTI\<close> on, one
  environment copy (\<^verbatim>\<open>ENV_HEADER_SIZE\<close> is 4), one baud rate. Console messages are not part of the state.
\<close>

section \<open>State\<close>

record device =
  dev_name :: bytes
  dev_flags :: u32
  dev_start :: "int option"   \<comment> \<open>the result of the \<open>start\<close> routine, if there is one\<close>

record gd =
  env_data :: mem
  env_ptr_crc :: u32
  env_valid :: nat
  default_environment :: mem
  gd_baudrate :: u32
  bi_enetaddr :: bytes
  eth_devices :: "bytes list"
  bi_ip_addr :: u32
  load_addr :: u32
  BootFile :: mem
  devlist :: "device list"
  stdio_devices :: "nat \<Rightarrow> device option"
  con_input :: bytes

definition ENV_HEADER_SIZE :: nat where "ENV_HEADER_SIZE = 4"

definition ENV_SIZE :: "gd \<Rightarrow> nat" where "ENV_SIZE g = length (env_data g)"

definition CFG_ENV_SIZE :: "gd \<Rightarrow> nat" where "CFG_ENV_SIZE g = ENV_SIZE g + ENV_HEADER_SIZE"

definition baudrate_table :: "u32 list" where "baudrate_table = [115200]"

text \<open>\<^verbatim>\<open>env_get_addr(0)\<close>: the block the accesses go to, and the same for writing.\<close>

definition env_mem :: "gd \<Rightarrow> mem" where
  "env_mem g = (if env_valid g \<noteq> 0 then env_data g else default_environment g)"

definition set_env_mem :: "mem \<Rightarrow> gd \<Rightarrow> gd" where
  "set_env_mem m g = (if env_valid g \<noteq> 0 then g\<lparr>env_data := m\<rparr> else g\<lparr>default_environment := m\<rparr>)"

definition env_get_char :: "gd \<Rightarrow> nat \<Rightarrow> u8 option" where
  "env_get_char g i = rd (env_mem g) i"

definition env_crc_update :: "gd \<Rightarrow> gd option" where
  "env_crc_update g = do { c \<leftarrow> crc32 0 0 (ENV_SIZE g) (env_data g); Some (g\<lparr>env_ptr_crc := c\<rparr>) }"

section \<open>Scanning\<close>

text \<open>\<^verbatim>\<open>for (nxt = i; *nxt; ++nxt)\<close>.\<close>

function entry_end :: "mem \<Rightarrow> nat \<Rightarrow> nat option" where
  "entry_end m i = do { c \<leftarrow> rd m i; if c = 0 then Some i else entry_end m (Suc i) }"
  by pat_completeness auto
termination by (relation "measure (\<lambda>(m, i). length m - i)") auto

declare entry_end.simps [simp del]

text \<open>The same with the test \<^verbatim>\<open>nxt >= CFG_ENV_SIZE\<close> in the body; the inner \<open>None\<close> is the early return.\<close>

function entry_end_lim :: "mem \<Rightarrow> nat \<Rightarrow> nat \<Rightarrow> nat option option" where
  "entry_end_lim m lim i = do {
     c \<leftarrow> rd m i;
     if c = 0 then Some (Some i) else if lim \<le> i then Some None else entry_end_lim m lim (Suc i) }"
  by pat_completeness auto
termination by (relation "measure (\<lambda>(m, lim, i). length m - i)") auto

declare entry_end_lim.simps [simp del]

text \<open>
  \<^verbatim>\<open>envmatch\<close>: the index of the value or -1. When both strings end at once the loop of the code runs on
  behind the NUL of \<^verbatim>\<open>s1\<close>: undefined, hence \<open>None\<close>.
\<close>

fun envmatch :: "mem \<Rightarrow> bytes \<Rightarrow> nat \<Rightarrow> int option" where
  "envmatch m [] i2 = do {
     c \<leftarrow> rd m i2; if c = 0 then None else if c = 61 then Some (int (Suc i2)) else Some (-1) }"
| "envmatch m (a # s1) i2 = do {
     c \<leftarrow> rd m i2;
     if a = c then (if a = 61 then Some (int (Suc i2)) else envmatch m s1 (Suc i2)) else Some (-1) }"

section \<open>Lookup\<close>

lemma entry_end_ge: "entry_end m i = Some j \<Longrightarrow> i \<le> j \<and> j < length m"
proof (induction m i rule: entry_end.induct)
  case (1 m i)
  then show ?case by (subst (asm) (2) entry_end.simps) (auto split: if_splits Option.bind_splits)
qed

lemma entry_end_lim_ge: "entry_end_lim m lim i = Some (Some j) \<Longrightarrow> i \<le> j \<and> j < length m"
proof (induction m lim i rule: entry_end_lim.induct)
  case (1 m lim i)
  then show ?case by (subst (asm) (2) entry_end_lim.simps) (auto split: if_splits Option.bind_splits)
qed

function getenv_loop :: "gd \<Rightarrow> bytes \<Rightarrow> nat \<Rightarrow> nat option option" where
  "getenv_loop g name i = do {
     c \<leftarrow> env_get_char g i;
     if c = 0 then Some None
     else do {
       nx \<leftarrow> entry_end_lim (env_mem g) (CFG_ENV_SIZE g) i;
       case nx of
         None \<Rightarrow> Some None
       | Some nxt \<Rightarrow> do {
           v \<leftarrow> envmatch (env_mem g) name i;
           if v < 0 then getenv_loop g name (nxt + 1) else Some (Some (nat v)) } } }"
  by pat_completeness auto
termination
  by (relation "measure (\<lambda>(g, name, i). length (env_mem g) - i)") (auto dest!: entry_end_lim_ge)

declare getenv_loop.simps [simp del]

definition getenv :: "bytes \<Rightarrow> gd \<Rightarrow> nat option option" where
  "getenv name g = getenv_loop g name 0"

text \<open>\<^verbatim>\<open>getenv_r\<close> copies the value to \<open>buf\<close>; \<open>copy_out\<close> is its loop with the counter \<^verbatim>\<open>n\<close> before the test.\<close>

function copy_out :: "mem \<Rightarrow> nat \<Rightarrow> nat \<Rightarrow> nat \<Rightarrow> nat \<Rightarrow> mem \<Rightarrow> (nat \<times> nat \<times> mem) option" where
  "copy_out m v len n b buf =
     (if len > n then do {
        c \<leftarrow> rd m v; buf' \<leftarrow> wr buf b c;
        if c \<noteq> 0 then copy_out m (Suc v) len (n + 1) (Suc b) buf' else Some (n + 1, Suc b, buf') }
      else Some (n + 1, b, buf))"
  by pat_completeness auto
termination by (relation "measure (\<lambda>(m, v, len, n, b, buf). len - n)") auto

declare copy_out.simps [simp del]

function getenv_r_loop :: "gd \<Rightarrow> bytes \<Rightarrow> nat \<Rightarrow> mem \<Rightarrow> nat \<Rightarrow> (int \<times> mem) option" where
  "getenv_r_loop g name i buf len = do {
     c \<leftarrow> env_get_char g i;
     if c = 0 then Some (-1, buf)
     else do {
       nx \<leftarrow> entry_end_lim (env_mem g) (CFG_ENV_SIZE g) i;
       case nx of
         None \<Rightarrow> Some (-1, buf)
       | Some nxt \<Rightarrow> do {
           v \<leftarrow> envmatch (env_mem g) name i;
           if v < 0 then getenv_r_loop g name (nxt + 1) buf len
           else do {
             (n, b, buf') \<leftarrow> copy_out (env_mem g) (nat v) len 0 0 buf;
             buf'' \<leftarrow> (if len = n then wr buf' b 0 else Some buf');
             Some (int n, buf'') } } } }"
  by pat_completeness auto
termination
  by (relation "measure (\<lambda>(g, name, i, buf, len). length (env_mem g) - i)") (auto dest!: entry_end_lim_ge)

declare getenv_r_loop.simps [simp del]

definition getenv_r :: "bytes \<Rightarrow> mem \<Rightarrow> nat \<Rightarrow> gd \<Rightarrow> (int \<times> mem) option" where
  "getenv_r name buf len g = getenv_r_loop g name 0 buf len"

section \<open>Printing\<close>

text \<open>The characters from \<open>i\<close> up to \<open>j\<close> are printed; \<open>ctrlc\<close> gives the answer of each poll of the keyboard.\<close>

definition print_dec :: "nat \<Rightarrow> bytes" where
  "print_dec n = rev (dec_rev n)"

function printenv_all :: "gd \<Rightarrow> (nat \<Rightarrow> bool) \<Rightarrow> nat \<Rightarrow> nat \<Rightarrow> bytes \<Rightarrow> (bytes \<times> int) option" where
  "printenv_all g ctrlc k i con = do {
     c \<leftarrow> env_get_char g i;
     if c = 0 then Some (con @ bytes_of [CHR 0x0A] @ bytes_of ''Environment size: '' @ print_dec i
         @ bytes_of ''/'' @ print_dec (ENV_SIZE g) @ bytes_of '' bytes'' @ bytes_of [CHR 0x0A], 0)
     else do {
       nxt \<leftarrow> entry_end (env_mem g) i;
       let con' = con @ slice (env_mem g) i (nxt - i) @ [10];
       if ctrlc k then Some (con' @ bytes_of [CHR 0x0A] @ bytes_of '' ** Abort'' @ bytes_of [CHR 0x0A], 1)
       else printenv_all g ctrlc (Suc k) (nxt + 1) con' } }"
  by pat_completeness auto
termination
  by (relation "measure (\<lambda>(g, ctrlc, k, i, con). length (env_mem g) - i)") (auto dest!: entry_end_ge)

declare printenv_all.simps [simp del]

text \<open>One variable: the output, and the last value of \<^verbatim>\<open>k\<close>, negative when nothing matched.\<close>

function printenv_one :: "gd \<Rightarrow> bytes \<Rightarrow> nat \<Rightarrow> int \<Rightarrow> (bytes \<times> int) option" where
  "printenv_one g name j k = do {
     c \<leftarrow> env_get_char g j;
     if c = 0 then Some ([], k)
     else do {
       nxt \<leftarrow> entry_end (env_mem g) j;
       k' \<leftarrow> envmatch (env_mem g) name j;
       if k' < 0 then printenv_one g name (nxt + 1) k'
       else Some (name @ [61] @ slice (env_mem g) (nat k') (nxt - nat k') @ [10], max k' (int nxt)) } }"
  by pat_completeness auto
termination
  by (relation "measure (\<lambda>(g, name, j, k). length (env_mem g) - j)") (auto dest!: entry_end_ge)

declare printenv_one.simps [simp del]

fun printenv_names :: "gd \<Rightarrow> bytes list \<Rightarrow> bytes \<Rightarrow> int \<Rightarrow> (bytes \<times> int) option" where
  "printenv_names g [] con rcode = Some (con, rcode)"
| "printenv_names g (name # names) con rcode = do {
     (out, k) \<leftarrow> printenv_one g name 0 (-1);
     if k < 0
     then printenv_names g names
       (con @ out @ bytes_of ''## Error: '' @ [34] @ name @ [34] @ bytes_of '' not defined'' @ [10]) (rcode + 1)
     else printenv_names g names (con @ out) rcode }"

definition do_printenv :: "bytes list \<Rightarrow> (nat \<Rightarrow> bool) \<Rightarrow> gd \<Rightarrow> (bytes \<times> int) option" where
  "do_printenv argv ctrlc g =
     (if length argv = 1 then printenv_all g ctrlc 0 0 [] else printenv_names g (tl argv) [] 0)"

section \<open>Console devices\<close>

definition DEV_FLAGS_INPUT :: u32 where "DEV_FLAGS_INPUT = 1"
definition DEV_FLAGS_OUTPUT :: u32 where "DEV_FLAGS_OUTPUT = 2"

text \<open>\<^verbatim>\<open>console_setfile\<close>: a device whose start routine fails is not used.\<close>

definition console_setfile :: "nat \<Rightarrow> device option \<Rightarrow> gd \<Rightarrow> gd \<times> int" where
  "console_setfile file dev g = (case dev of
     None \<Rightarrow> (g, -1)
   | Some d \<Rightarrow>
       if file \<le> 2 then
         (let error = (case dev_start d of None \<Rightarrow> 0 | Some e \<Rightarrow> e)
          in if error < 0 then (g, error)
             else (g\<lparr>stdio_devices := (stdio_devices g)(file := Some d)\<rparr>, error))
       else (g, -1))"

fun console_find :: "device list \<Rightarrow> bytes \<Rightarrow> device option" where
  "console_find [] name = None"
| "console_find (d # ds) name = (if dev_name d = name then Some d else console_find ds name)"

definition console_assign :: "nat \<Rightarrow> bytes \<Rightarrow> gd \<Rightarrow> gd \<times> int" where
  "console_assign file devname g =
     (if 2 < file then (g, -1)
      else let flag = (if file = 0 then DEV_FLAGS_INPUT else DEV_FLAGS_OUTPUT)
           in case console_find (devlist g) devname of
                None \<Rightarrow> (g, -1)
              | Some dev \<Rightarrow> if dev_flags dev AND flag \<noteq> 0 then console_setfile file (Some dev) g else (g, -1))"

text \<open>\<^verbatim>\<open>search_device\<close> leaves \<^verbatim>\<open>dev\<close> at the last item looked at, also when none matched.\<close>

fun search_device_loop :: "device list \<Rightarrow> u32 \<Rightarrow> bytes \<Rightarrow> device option \<Rightarrow> device option" where
  "search_device_loop [] flags name dev = dev"
| "search_device_loop (d # ds) flags name dev =
     (if dev_flags d AND flags \<noteq> 0 \<and> name = dev_name d then Some d
      else search_device_loop ds flags name (Some d))"

definition search_device :: "u32 \<Rightarrow> bytes option \<Rightarrow> gd \<Rightarrow> device option" where
  "search_device flags name g = (case name of
     None \<Rightarrow> None | Some n \<Rightarrow> search_device_loop (devlist g) flags n None)"

section \<open>Network settings\<close>

text \<open>\<^verbatim>\<open>simple_strtoul\<close> on a string argument: the value and the rest of the string.\<close>

definition str_toul :: "bytes \<Rightarrow> u32 \<Rightarrow> (u32 \<times> bytes) option" where
  "str_toul s base = do { (v, e) \<leftarrow> simple_strtoul 0 base (s @ [0]); Some (v, drop e s) }"

text \<open>\<open>n\<close> numbers separated by one character each; a missing string gives zeros.\<close>

fun parse_numbers :: "nat \<Rightarrow> u32 \<Rightarrow> bytes option \<Rightarrow> u32 list option" where
  "parse_numbers 0 base s = Some []"
| "parse_numbers (Suc n) base None = do { vs \<leftarrow> parse_numbers n base None; Some (0 # vs) }"
| "parse_numbers (Suc n) base (Some s) = do {
     (v, e) \<leftarrow> str_toul s base;
     vs \<leftarrow> parse_numbers n base (Some (if e = [] then e else tl e));
     Some (v # vs) }"

text \<open>The ring of devices: \<^verbatim>\<open>while (num-- > 0)\<close> steps on and gives up when it is back at the first.\<close>

fun eth_step :: "nat \<Rightarrow> nat \<Rightarrow> nat \<Rightarrow> nat option" where
  "eth_step len 0 i = Some i"
| "eth_step len (Suc k) i =
     (let i' = (if Suc i = len then 0 else Suc i) in if i' = 0 then None else eth_step len k i')"

definition eth_set_enetaddr :: "int \<Rightarrow> bytes option \<Rightarrow> gd \<Rightarrow> gd option" where
  "eth_set_enetaddr num addr g =
     (if eth_devices g = [] then Some g
      else do {
        vs \<leftarrow> parse_numbers 6 16 addr;
        Some (case eth_step (length (eth_devices g)) (nat num) 0 of
                None \<Rightarrow> g
              | Some i \<Rightarrow> g\<lparr>eth_devices := (eth_devices g)[i := map ucast vs]\<rparr>) })"

text \<open>\<^verbatim>\<open>copy_filename\<close> skips an opening quote and stops at a closing one; \<open>size\<close> counts down before the test.\<close>

fun copy_filename_loop :: "mem \<Rightarrow> nat \<Rightarrow> bytes \<Rightarrow> int \<Rightarrow> mem option" where
  "copy_filename_loop dst d [] sz = wr dst d 0"
| "copy_filename_loop dst d (c # src) sz =
     (if sz - 1 > 0 \<and> c \<noteq> 34 then do { dst' \<leftarrow> wr dst d c; copy_filename_loop dst' (Suc d) src (sz - 1) }
      else wr dst d 0)"

definition copy_filename :: "mem \<Rightarrow> bytes \<Rightarrow> int \<Rightarrow> mem option" where
  "copy_filename dst src sz =
     (if src \<noteq> [] \<and> hd src = 34 then copy_filename_loop dst 0 (tl src) (sz - 1)
      else copy_filename_loop dst 0 src sz)"

section \<open>Setting a variable\<close>

definition argv_at :: "bytes option list \<Rightarrow> nat \<Rightarrow> bytes option" where
  "argv_at argv i = (if i < length argv then argv ! i else None)"

text \<open>The search loop: \<open>oldval\<close>, the entry \<open>env\<close> and its terminator \<open>nxt\<close>.\<close>

function env_find :: "mem \<Rightarrow> bytes \<Rightarrow> nat \<Rightarrow> nat \<Rightarrow> int \<Rightarrow> (int \<times> nat \<times> nat) option" where
  "env_find m name env nxt0 oldval = do {
     c \<leftarrow> rd m env;
     if c = 0 then Some (oldval, env, nxt0)
     else do {
       nxt \<leftarrow> entry_end m env;
       v \<leftarrow> envmatch m name env;
       if v \<ge> 0 then Some (v, env, nxt) else env_find m name (nxt + 1) nxt v } }"
  by pat_completeness auto
termination
  by (relation "measure (\<lambda>(m, name, env, nxt, v). length m - env)") (auto dest!: entry_end_ge)

text \<open>The shift of the following entries to the front, from \<open>nxt\<close> down to \<open>env\<close>, up to the double NUL.\<close>

function shift_loop :: "mem \<Rightarrow> nat \<Rightarrow> nat \<Rightarrow> (mem \<times> nat) option" where
  "shift_loop m env nxt = do {
     c \<leftarrow> rd m nxt;
     m' \<leftarrow> wr m env c;
     d \<leftarrow> rd m' (Suc nxt);
     if c = 0 \<and> d = 0 then Some (m', env) else shift_loop m' (Suc env) (Suc nxt) }"
  by pat_completeness auto
termination by (relation "measure (\<lambda>(m, env, nxt). length m - nxt)") auto

declare env_find.simps [simp del] shift_loop.simps [simp del]

definition env_delete :: "mem \<Rightarrow> nat \<Rightarrow> nat \<Rightarrow> mem option" where
  "env_delete m env nxt = do {
     c \<leftarrow> rd m (Suc nxt);
     (m', env') \<leftarrow>
       (if c = 0 then
          (if env > 0 then Some (m, env - 1) else do { m1 \<leftarrow> wr m env 0; Some (m1, env) })
        else shift_loop m env (Suc nxt));
     wr m' (Suc env') 0 }"

text \<open>\<^verbatim>\<open>for (env = env_data; *env || *(env+1); ++env)\<close>.\<close>

function env_end :: "mem \<Rightarrow> nat \<Rightarrow> nat option" where
  "env_end m env = do {
     c \<leftarrow> rd m env;
     if c \<noteq> 0 then env_end m (Suc env)
     else do { d \<leftarrow> rd m (Suc env); if d \<noteq> 0 then env_end m (Suc env) else Some env } }"
  by pat_completeness auto
termination by (relation "measure (\<lambda>(m, env). length m - env)") auto

declare env_end.simps [simp del]

fun put_str :: "mem \<Rightarrow> nat \<Rightarrow> bytes \<Rightarrow> (mem \<times> nat) option" where
  "put_str m env [] = do { m' \<leftarrow> wr m env 0; Some (m', env) }"
| "put_str m env (c # cs) = do { m' \<leftarrow> wr m env c; put_str m' (Suc env) cs }"

fun put_vals :: "mem \<Rightarrow> nat \<Rightarrow> bool \<Rightarrow> bytes list \<Rightarrow> (mem \<times> nat) option" where
  "put_vals m env first [] = Some (m, env)"
| "put_vals m env first (v # vs) = do {
     m1 \<leftarrow> wr m env (if first then 61 else 32);
     (m2, env') \<leftarrow> put_str m1 (Suc env) v;
     put_vals m2 env' False vs }"

fun the_all :: "'a option list \<Rightarrow> 'a list option" where
  "the_all [] = Some []"
| "the_all (x # xs) = do { y \<leftarrow> x; ys \<leftarrow> the_all xs; Some (y # ys) }"

text \<open>
  The append: the place, the length test against the room left, the entry and the closing NUL. The
  inner \<open>None\<close> is the overflow.
\<close>

definition env_append :: "mem \<Rightarrow> nat \<Rightarrow> bytes \<Rightarrow> bytes list \<Rightarrow> mem option option" where
  "env_append m env_size name vals = do {
     e \<leftarrow> env_end m 0;
     let env = (if e > 0 then e + 1 else e);
     let len = length name + 2 + sum_list (map (\<lambda>v. length v + 1) vals);
     if int len > int env_size - int env then Some None
     else do {
       (m1, e1) \<leftarrow> put_str m env name;
       (m2, e2) \<leftarrow> put_vals m1 e1 True vals;
       m3 \<leftarrow> wr m2 (Suc e2) 0;
       Some (Some m3) } }"

text \<open>An early \<^verbatim>\<open>return\<close> of \<open>_do_setenv\<close> is \<open>Inr\<close>, going on is \<open>Inl\<close>.\<close>

type_synonym flow = "gd + gd \<times> int"

text \<open>The checks on an existing variable: protected names, console redirection, baud rate. Changing the
  baud rate waits for a carriage return on the console.\<close>

definition setenv_console :: "bytes \<Rightarrow> bytes option list \<Rightarrow> gd \<Rightarrow> flow option" where
  "setenv_console name argv g =
     (let console = (if name = bytes_of ''stdin'' then Some 0
                     else if name = bytes_of ''stdout'' then Some 1
                     else if name = bytes_of ''stderr'' then Some 2 else None)
      in case console of
           None \<Rightarrow> Some (Inl g)
         | Some file \<Rightarrow>
             if length argv < 3 then Some (Inr (g, 1))
             else do {
               dev \<leftarrow> argv_at argv 2;
               let (g', rc) = console_assign file dev g;
               Some (if rc < 0 then Inr (g', 1) else Inl g') })"

definition setenv_baudrate :: "bytes \<Rightarrow> bytes option list \<Rightarrow> gd \<Rightarrow> flow option" where
  "setenv_baudrate name argv g =
     (if name = bytes_of ''baudrate'' then do {
        s \<leftarrow> argv_at argv 2;
        (baudrate, e) \<leftarrow> str_toul s 10;
        if baudrate \<notin> set baudrate_table then Some (Inr (g, 1))
        else do {
          let rest = dropWhile (\<lambda>c. c \<noteq> 13) (con_input g);
          if rest = [] then None
          else Some (Inl (g\<lparr>gd_baudrate := baudrate, con_input := tl rest\<rparr>)) } }
      else Some (Inl g))"

definition setenv_existing :: "bytes \<Rightarrow> bytes option list \<Rightarrow> nat \<Rightarrow> nat \<Rightarrow> gd \<Rightarrow> flow option" where
  "setenv_existing name argv env nxt g =
     (if name = bytes_of ''serial#'' \<or> name = bytes_of ''ethaddr'' then Some (Inr (g, 1))
      else do {
        r1 \<leftarrow> setenv_console name argv g;
        case r1 of Inr x \<Rightarrow> Some (Inr x) | Inl g1 \<Rightarrow> do {
          r2 \<leftarrow> setenv_baudrate name argv g1;
          case r2 of Inr x \<Rightarrow> Some (Inr x) | Inl g2 \<Rightarrow> do {
            m \<leftarrow> env_delete (env_mem g2) env nxt;
            Some (Inl (set_env_mem m g2)) } } })"

text \<open>\<^verbatim>\<open>CONFIG_NET_MULTI\<close>: \<^verbatim>\<open>eth<n>addr\<close> sets the address of device \<open>n\<close>.\<close>

definition setenv_ethaddr :: "bytes \<Rightarrow> bytes option list \<Rightarrow> gd \<Rightarrow> gd option" where
  "setenv_ethaddr name argv g =
     (if take 3 name = bytes_of ''eth'' then do {
        (num, e) \<leftarrow> str_toul (drop 3 name) 10;
        if e = bytes_of ''addr'' then eth_set_enetaddr (sint num) (argv_at argv 2) g else Some g }
      else Some g)"

text \<open>The settings kept in step with a variable that has been stored.\<close>

definition setenv_effects :: "bytes \<Rightarrow> bytes \<Rightarrow> gd \<Rightarrow> gd option" where
  "setenv_effects name val g =
     (if name = bytes_of ''ethaddr'' then do {
        vs \<leftarrow> parse_numbers 6 16 (Some val);
        eth_set_enetaddr 0 (Some val) (g\<lparr>bi_enetaddr := map ucast vs\<rparr>) }
      else if name = bytes_of ''ipaddr'' then do {
        vs \<leftarrow> parse_numbers 4 10 (Some val);
        Some (g\<lparr>bi_ip_addr := foldl (\<lambda>addr v. push_bit 8 addr OR (v AND 0xff)) 0 vs\<rparr>) }
      else if name = bytes_of ''loadaddr'' then do {
        (v, e) \<leftarrow> str_toul val 16; Some (g\<lparr>load_addr := v\<rparr>) }
      else if name = bytes_of ''bootfile'' then do {
        f \<leftarrow> copy_filename (BootFile g) val (int (length (BootFile g))); Some (g\<lparr>BootFile := f\<rparr>) }
      else Some g)"

text \<open>\<open>_do_setenv\<close>.\<close>

definition do_setenv_raw :: "bytes option list \<Rightarrow> gd \<Rightarrow> (gd \<times> int) option" where
  "do_setenv_raw argv g = do {
     name \<leftarrow> argv_at argv 1;
     (oldval, env, nxt) \<leftarrow> env_find (env_mem g) name 0 0 (-1);
     r \<leftarrow> (if oldval \<ge> 0 then setenv_existing name argv env nxt g else Some (Inl g));
     case r of
       Inr x \<Rightarrow> Some x
     | Inl g1 \<Rightarrow> do {
         g2 \<leftarrow> setenv_ethaddr name argv g1;
         if length argv < 3 \<or> argv_at argv 2 = None
         then do { g3 \<leftarrow> env_crc_update g2; Some (g3, 0) }
         else do {
           vals \<leftarrow> the_all (drop 2 argv);
           r2 \<leftarrow> env_append (env_mem g2) (ENV_SIZE g2) name vals;
           case r2 of
             None \<Rightarrow> Some (g2, 1)
           | Some m \<Rightarrow> do {
               g3 \<leftarrow> env_crc_update (set_env_mem m g2);
               g4 \<leftarrow> setenv_effects name (hd vals) g3;
               Some (g4, 0) } } } }"

definition setenv :: "bytes \<Rightarrow> bytes option \<Rightarrow> gd \<Rightarrow> gd option" where
  "setenv varname varvalue g =
     map_option fst (do_setenv_raw [Some (bytes_of ''setenv''), Some varname, varvalue] g)"

definition do_setenv :: "bytes option list \<Rightarrow> gd \<Rightarrow> (gd \<times> int) option" where
  "do_setenv argv g = (if length argv < 2 then Some (g, 1) else do_setenv_raw argv g)"

section \<open>Relocation, name completion\<close>

text \<open>
  \<^verbatim>\<open>env_relocate\<close>: \<open>block\<close> is the block \<^verbatim>\<open>malloc\<close> returns, \<open>relocate_spec\<close> the routine of the storage
  medium. The whole \<^verbatim>\<open>env_t\<close> is cleared before the default environment is copied in. An environment
  block that is too small for the default one leaves \<^verbatim>\<open>env_valid\<close> and \<^verbatim>\<open>env_addr\<close> as they are.
\<close>

definition env_relocate :: "mem \<Rightarrow> (gd \<Rightarrow> gd option) \<Rightarrow> gd \<Rightarrow> gd option" where
  "env_relocate block relocate_spec g =
     (let g0 = g\<lparr>env_data := block\<rparr>
      in if env_valid g0 = 0 then
           if length (default_environment g0) > ENV_SIZE g0 then Some g0
           else do {
             m \<leftarrow> memset_loop 0 0 (ENV_SIZE g0) (env_data g0);
             g1 \<leftarrow> env_crc_update (g0\<lparr>env_data := blit m 0 (default_environment g0)\<rparr>);
             Some (g1\<lparr>env_valid := 1\<rparr>) }
         else relocate_spec g0)"

text \<open>\<^verbatim>\<open>env_complete\<close>: the candidates are offsets of names in \<open>buf\<close>, or the literal dots.\<close>

datatype candidate = Name nat | Dots

function env_complete_loop :: "gd \<Rightarrow> bytes \<Rightarrow> nat \<Rightarrow> int \<Rightarrow> candidate list \<Rightarrow> int \<Rightarrow> nat \<Rightarrow> mem
    \<Rightarrow> (candidate list \<times> mem) option" where
  "env_complete_loop g var i maxv cmdv bufsz b buf = do {
     c \<leftarrow> env_get_char g i;
     if c = 0 then Some (cmdv, buf)
     else do {
       nxt \<leftarrow> entry_end (env_mem g) i;
       r \<leftarrow> strchr i 61 (env_mem g);
       vallen \<leftarrow> (case r of Some rval \<Rightarrow> Some (rval - i) | None \<Rightarrow> strlen i (env_mem g));
       differ \<leftarrow> (if 0 < length var \<and> length var \<le> vallen
                  then Some (slice (env_mem g) i (length var) \<noteq> var) else Some True);
       if 0 < length var \<and> (vallen < length var \<or> differ)
       then env_complete_loop g var (nxt + 1) maxv cmdv bufsz b buf
       else if int (length cmdv) \<ge> maxv - 2 \<or> bufsz < int vallen + 1
       then Some (cmdv @ [Dots], buf)
       else if b + vallen < length buf
       then env_complete_loop g var (nxt + 1) maxv (cmdv @ [Name b]) (bufsz - int vallen - 1) (b + vallen + 1)
              (blit buf b (slice (env_mem g) i vallen @ [0]))
       else None } }"
  by pat_completeness auto
termination
  by (relation "measure (\<lambda>(g, var, i, maxv, cmdv, bufsz, b, buf). length (env_mem g) - i)")
    (auto dest!: entry_end_ge)

declare env_complete_loop.simps [simp del]

definition env_complete :: "bytes \<Rightarrow> int \<Rightarrow> int \<Rightarrow> mem \<Rightarrow> gd \<Rightarrow> (candidate list \<times> mem) option" where
  "env_complete var maxv bufsz buf g = env_complete_loop g var 0 maxv [] bufsz 0 buf"

end
