(* ===== verification/CrcProps.thy ===== *)
theory CrcProps
  imports Crc CStringProps
begin

text \<open>
  The two checksums as interpretations of \<open>table_crc\<close> and \<open>sound_crc\<close>, and what they compute on a
  block of memory.
\<close>

section \<open>Masks, bits past the end, tables of linear maps\<close>

lemma ff_mask: "(0xff :: 'w::len word) = mask 8"
  by (simp add: mask_eq_exp_minus_1)

lemma no_bit_u32: "32 \<le> n \<Longrightarrow> \<not> bit (a :: u32) n"
  using bit_imp_le_length [of a n] by auto

lemma no_bit_u16: "16 \<le> n \<Longrightarrow> \<not> bit (a :: u16) n"
  using bit_imp_le_length [of a n] by auto

lemma no_bit_u8: "8 \<le> n \<Longrightarrow> \<not> bit (a :: u8) n"
  using bit_imp_le_length [of a n] by auto

lemma bit_u8_less: "bit (a :: u8) n \<Longrightarrow> n < 8"
  using no_bit_u8 [of n a] by (auto simp: not_less [symmetric])

lemma unat_ucast_u32 [simp]: "unat (ucast (a :: u8) :: u32) = unat a"
  using unsigned_less [of a, where 'a = nat]
  by (simp add: unsigned_ucast_eq take_bit_nat_eq_self_iff)

lemma unat_ucast_u16 [simp]: "unat (ucast (a :: u8) :: u16) = unat a"
  using unsigned_less [of a, where 'a = nat]
  by (simp add: unsigned_ucast_eq take_bit_nat_eq_self_iff)

text \<open>The table of a linear map is spanned by its values at the powers of two.\<close>

fun span_table :: "'w::len word list \<Rightarrow> 'w word list \<Rightarrow> 'w word list" where
  "span_table T [] = T"
| "span_table T (b # bs) = span_table (T @ map (\<lambda>x. x XOR b) T) bs"

lemma of_nat_xor_exp: "n < 2 ^ k \<Longrightarrow> (of_nat (2 ^ k + n) :: u8) = of_nat n XOR 2 ^ k"
proof -
  assume n: "n < 2 ^ k"
  then have "\<not> bit n k" by (simp add: bit_iff_odd)
  then have "n AND 2 ^ k = 0" by (simp add: and_exp_eq_0_iff_not_bit)
  then have "n + 2 ^ k = n XOR 2 ^ k" by (rule disjunctive_add_eq_xor)
  then show ?thesis by (metis add.commute of_nat_numeral of_nat_power of_nat_xor_eq)
qed

lemma span_table_map:
  assumes lin: "\<And>x y :: u8. f (x XOR y) = f x XOR (f y :: 'w::len word)"
  shows "span_table (map (\<lambda>n. f (of_nat n)) [0..<2 ^ k]) (map (\<lambda>i. f (2 ^ i)) [k..<k + j])
    = map (\<lambda>n. f (of_nat n)) [0..<2 ^ (k + j)]"
proof (induction j arbitrary: k)
  case (Suc j)
  have "[0..<2 ^ Suc k] = [0..<2 ^ k] @ map (\<lambda>n. 2 ^ k + n) [0..<2 ^ k]"
    by (simp add: map_add_upt mult_2 upt_add_eq_append [of 0] add.commute)
  then have "map (\<lambda>n. f (of_nat n)) [0..<2 ^ k] @ map (\<lambda>x. x XOR f (2 ^ k)) (map (\<lambda>n. f (of_nat n)) [0..<2 ^ k])
      = map (\<lambda>n. f (of_nat n)) [0..<2 ^ Suc k]"
    by (simp only: map_append map_map o_def) (auto simp: of_nat_xor_exp lin simp del: of_nat_add)
  moreover have "[k..<k + Suc j] = k # [Suc k..<Suc k + j]" by (simp add: upt_rec)
  ultimately show ?case using Suc.IH [of "Suc k"] by simp
qed simp

lemma span_table_256:
  assumes "\<And>x y :: u8. f (x XOR y) = f x XOR (f y :: 'w::len word)"
  shows "span_table [0] (map (\<lambda>i. f (2 ^ i)) [0..<8]) = map (\<lambda>n. f (of_nat n)) [0..<256]"
proof -
  have "f 0 = 0" using assms [of 0 0] by simp
  then show ?thesis using span_table_map [of f 0 8, OF assms] by simp
qed

section \<open>CRC-32\<close>

lemma crc_poly_eq: "crc_poly = 0xedb88320"
  by code_simp

lemma crc_bit_odd: "crc_bit p c = (if odd c then p XOR drop_bit 1 c else drop_bit 1 c)"
  by (simp add: crc_bit_def and_one_eq odd_iff_mod_2_eq_one)

lemma crc_bit_xor: "crc_bit p (a XOR b) = crc_bit p a XOR crc_bit p b"
  by (auto simp: crc_bit_odd drop_bit_xor even_xor_iff ac_simps)

lemma crc_bit_zero: "bit p 31 \<Longrightarrow> crc_bit p a = 0 \<Longrightarrow> a = 0"
proof (rule bit_word_eqI)
  fix n
  assume p: "bit p 31" and z: "crc_bit p a = 0" and n: "n < LENGTH(32)"
  have "even a"
  proof (rule ccontr)
    assume "odd a"
    then have "bit (crc_bit p a) 31" using p by (simp add: crc_bit_odd bit_simps no_bit_u32)
    with z show False by simp
  qed
  with z have "drop_bit 1 a = 0" by (simp add: crc_bit_odd)
  then have "bit (drop_bit 1 a) (n - 1) = False" by simp
  with \<open>even a\<close> show "bit a n = bit 0 n"
    by (cases n) (auto simp: bit_0 bit_drop_bit_eq)
qed

lemma crc_bit_shift:
  "n < 8 \<Longrightarrow> crc_bit p (push_bit (Suc n) (drop_bit 8 a)) = push_bit n (drop_bit 8 a)"
proof (rule bit_word_eqI)
  fix k
  assume n: "n < 8" and k: "k < LENGTH(32)"
  show "bit (crc_bit p (push_bit (Suc n) (drop_bit 8 a))) k = bit (push_bit n (drop_bit 8 a)) k"
  proof (cases "k = 31")
    case True
    with n show ?thesis
      by (auto simp: crc_bit_odd bit_simps no_bit_u32 simp del: push_bit_Suc)
  next
    case False
    with n k show ?thesis
      by (auto simp: crc_bit_odd bit_simps Suc_le_eq simp del: push_bit_Suc)
  qed
qed

lemma crc_bits_shift: "n \<le> 8 \<Longrightarrow> (crc_bit p ^^ n) (push_bit n (drop_bit 8 a)) = drop_bit 8 a"
  by (induction n) (simp_all add: crc_bit_shift funpow_Suc_right del: funpow.simps push_bit_Suc)

lemma crc_bits_xor: "(crc_bit p ^^ n) (a XOR b) = (crc_bit p ^^ n) a XOR (crc_bit p ^^ n) b"
  by (induction n) (auto simp: crc_bit_xor)

lemma ucast_xor: "(ucast (x XOR y) :: 'w::len word) = ucast x XOR ucast (y :: u8)"
  by (rule bit_word_eqI) (auto simp: bit_simps)

definition crc_base :: "u32 list" where
  "crc_base = [0x77073096, 0xee0e612c, 0x076dc419, 0x0edb8832, 0x1db71064, 0x3b6e20c8, 0x76dc4190, 0xedb88320]"

lemma funpow8: "(f ^^ 8) x = f (f (f (f (f (f (f (f x)))))))"
  by (simp add: numeral_eq_Suc)

lemma upt_8: "[0..<8] = [0, 1, 2, 3, 4, 5, 6, 7]"
  by (simp add: upt_rec)

lemma crc_base_bits: "map (\<lambda>i. (crc_bit 0xedb88320 ^^ 8) (ucast (2 ^ i :: u8))) [0..<8] = crc_base"
  by (simp add: upt_8 crc_base_def funpow8 crc_bit_def)

lemma crc_table_base: "crc_table = span_table [0] crc_base"
  by (simp add: crc_base_def crc_table_def)

lemma crc_table_span:
  "crc_table = span_table [0] (map (\<lambda>i. (crc_bit 0xedb88320 ^^ 8) (ucast (2 ^ i :: u8))) [0..<8])"
  unfolding crc_base_bits by (rule crc_table_base)

lemma crc_table_bits: "crc_table = map (\<lambda>n. (crc_bit crc_poly ^^ 8) (ucast (of_nat n :: u8))) [0..<256]"
  unfolding crc_table_span crc_poly_eq by (rule span_table_256) (simp add: ucast_xor crc_bits_xor)

lemma crc_table_nth: "crc_table ! unat (x :: u8) = (crc_bit crc_poly ^^ 8) (ucast x)"
proof -
  have "unat x < 2 ^ LENGTH(8)" by (rule unsigned_less)
  then show ?thesis by (simp add: crc_table_bits)
qed

lemma crc_table_make: "crc_table = make_crc_table"
proof -
  have "(ucast (of_nat n :: u8) :: u32) = of_nat n" if "n < 256" for n
    using that by (simp add: word_unat_eq_iff unat_of_nat take_bit_eq_mod unsigned_ucast_eq)
  then show ?thesis by (auto simp: crc_table_bits make_crc_table_def)
qed

lemma crc_split: "a = (ucast (ucast a :: u8) :: u32) XOR push_bit 8 (drop_bit 8 a)"
  by (rule bit_word_eqI) (auto simp: bit_simps)

lemma crc_poly_zero: "crc_bit crc_poly a = 0 \<Longrightarrow> a = 0"
  by (rule crc_bit_zero) (simp_all add: crc_poly_eq)

lemma crc_ucast_zero: "(ucast (x :: u8) :: u32) = 0 \<Longrightarrow> x = 0"
  using unat_ucast_u32 [of x] by (simp del: unat_ucast_u32 add: unsigned_eq_0_iff)

interpretation crc32: sound_crc "crc_bit crc_poly" ucast ucast "\<lambda>a. push_bit 8 (drop_bit 8 a)"
  "drop_bit 8" "\<lambda>x. crc_table ! unat x"
  by (rule sound_crc.intro [OF table_crc.intro sound_crc_axioms.intro])
    (rule crc_bit_xor crc_split ucast_xor crc_bits_shift [OF order_refl] crc_table_nth
       crc_ucast_zero crc_poly_zero, assumption?)+

lemma crc_index: "unat ((crc XOR ucast b) AND 0xff :: u32) = unat (ucast crc XOR b :: u8)"
proof -
  have "(crc XOR ucast b) AND 0xff = (ucast (ucast crc XOR b :: u8) :: u32)"
    by (rule bit_word_eqI) (auto simp: ff_mask bit_simps dest: bit_u8_less)
  moreover have "unat (ucast (ucast crc XOR b :: u8) :: u32) = unat (ucast crc XOR b :: u8)" by simp
  ultimately show ?thesis by metis
qed

lemma crc_step_bits: "crc_step crc b = (crc_bit crc_poly ^^ 8) (crc XOR ucast b)"
  using crc32.byte_step [of crc b] by (simp add: crc_step_def crc_index)

text \<open>The bit-wise reference on a block.\<close>

definition crc32_ref :: "u32 \<Rightarrow> bytes \<Rightarrow> u32" where
  "crc32_ref crc bs = bitwise (crc_bit 0xedb88320) ucast (crc XOR 0xffffffff) bs XOR 0xffffffff"

lemma crc_fold: "foldl crc_step c bs = bitwise (crc_bit crc_poly) ucast c bs"
  by (simp add: bitwise_def crc_step_bits [abs_def])

lemma crc_tail_fold:
  "p + n \<le> length m \<Longrightarrow> crc_tail m n (c, p) = Some (foldl crc_step c (slice m p n), p + n)"
  by (induction n arbitrary: c p) (auto simp: DO1_def mem_simps slice_Suc)

lemma crc_tail_add:
  "crc_tail m (k + n) st = do { st' \<leftarrow> crc_tail m k st; crc_tail m n st' }"
  by (induction k arbitrary: st) (auto intro: Option.bind_cong simp: Option.bind_assoc)

lemma DO8_tail: "DO8 m st = crc_tail m 8 st"
proof -
  have one: "crc_tail m (Suc n) = (\<lambda>st. DO1 m st \<bind> crc_tail m n)" for n by (rule ext) simp
  have "8 = Suc (Suc (Suc (Suc (Suc (Suc (Suc (Suc 0)))))))" by simp
  moreover have "crc_tail m 0 = Some" by (rule ext) simp
  ultimately show ?thesis by (simp only: DO8_def DO4_def DO2_def one Option.bind_assoc Option.bind_rzero) simp
qed

lemma crc_run_tail: "crc_run m n st = crc_tail m n st"
proof (induction m n st rule: crc_run.induct)
  case (1 m n st)
  show ?case
  proof (cases "8 \<le> n")
    case True
    then have "crc_tail m n st = do { st' \<leftarrow> crc_tail m 8 st; crc_tail m (n - 8) st' }"
      using crc_tail_add [of m 8 "n - 8" st] by simp
    with True "1.IH" show ?thesis
      by (subst crc_run.simps) (auto simp: DO8_tail intro: Option.bind_cong)
  next
    case False
    then show ?thesis by (subst crc_run.simps) simp
  qed
qed

lemma crc_run_fold:
  "p + n \<le> length m \<Longrightarrow> crc_run m n (c, p) = Some (foldl crc_step c (slice m p n), p + n)"
  by (simp add: crc_run_tail crc_tail_fold)

lemma crc32_slice: "p + n \<le> length m \<Longrightarrow> crc32 c p n m = Some (crc32_ref c (slice m p n))"
  by (simp add: crc32_def crc_run_fold crc_fold crc32_ref_def crc_poly_eq)

lemma crc32_ref_byte:
  "x \<noteq> y \<Longrightarrow> crc32_ref c (us @ x # vs) \<noteq> crc32_ref c (us @ y # vs)"
  using crc32.detects_byte [of x y "c XOR 0xffffffff" us vs]
  by (simp add: crc32_ref_def crc_poly_eq xor_cancel)

section \<open>CRC-16\<close>

lemma crc16_bit_odd: "crc16_bit c = (if bit c 15 then push_bit 1 c XOR 0x1021 else push_bit 1 c)"
  using and_exp_eq_0_iff_not_bit [of c 15] by (simp add: crc16_bit_def)

lemma crc16_bit_xor: "crc16_bit (a XOR b) = crc16_bit a XOR crc16_bit b"
  by (auto simp: crc16_bit_odd push_bit_xor bit_simps ac_simps)

lemma crc16_bit_zero: "crc16_bit a = 0 \<Longrightarrow> a = 0"
proof (rule bit_word_eqI)
  fix n
  assume z: "crc16_bit a = 0" and n: "n < LENGTH(16)"
  have "\<not> bit a 15"
  proof
    assume "bit a 15"
    then have "bit (crc16_bit a) 0" by (simp add: crc16_bit_odd even_xor_iff bit_0)
    with z show False by simp
  qed
  with z have "push_bit 1 a = 0" by (simp add: crc16_bit_odd)
  then have "\<not> bit (push_bit 1 a) (Suc n)" by (simp only: bit_0_eq bot_fun_def bot_bool_def not_False_eq_True)
  then have "n < 15 \<Longrightarrow> \<not> bit a n" by (simp only: bit_push_bit_iff) simp
  with \<open>\<not> bit a 15\<close> n show "bit a n = bit 0 n"
    by (cases "n = 15") simp_all
qed

definition low8 :: "u16 \<Rightarrow> u16" where
  "low8 a = a AND 0xff"

lemma crc16_shift:
  "n < 8 \<Longrightarrow> crc16_bit (push_bit n (low8 a)) = push_bit (Suc n) (low8 a)"
  by (rule bit_word_eqI) (auto simp: low8_def ff_mask crc16_bit_odd bit_simps Suc_le_eq)

lemma crc16_shifts: "n \<le> 8 \<Longrightarrow> (crc16_bit ^^ n) (low8 a) = push_bit n (low8 a)"
  by (induction n) (auto simp: crc16_shift)

lemma crc16_bits_xor: "(crc16_bit ^^ n) (a XOR b) = (crc16_bit ^^ n) a XOR (crc16_bit ^^ n) b"
  by (induction n) (auto simp: crc16_bit_xor)

lemma crc16_emb_xor: "push_bit 8 (ucast (x XOR y) :: u16) = push_bit 8 (ucast x) XOR push_bit 8 (ucast (y :: u8))"
  by (simp add: ucast_xor push_bit_xor)

definition crc16_base :: "u16 list" where
  "crc16_base = [0x1021, 0x2042, 0x4084, 0x8108, 0x1231, 0x2462, 0x48c4, 0x9188]"

lemma crc16_base_bits: "map (\<lambda>i. (crc16_bit ^^ 8) (push_bit 8 (ucast (2 ^ i :: u8)))) [0..<8] = crc16_base"
  by (simp add: upt_8 crc16_base_def funpow8 crc16_bit_def)

lemma crc16_tab_base: "crc16_tab = span_table [0] crc16_base"
  by (simp add: crc16_base_def crc16_tab_def)

lemma crc16_tab_span:
  "crc16_tab = span_table [0] (map (\<lambda>i. (crc16_bit ^^ 8) (push_bit 8 (ucast (2 ^ i :: u8)))) [0..<8])"
  unfolding crc16_base_bits by (rule crc16_tab_base)

lemma crc16_tab_bits: "crc16_tab = map (\<lambda>n. (crc16_bit ^^ 8) (push_bit 8 (ucast (of_nat n :: u8)))) [0..<256]"
  unfolding crc16_tab_span by (rule span_table_256) (simp only: crc16_emb_xor crc16_bits_xor)

lemma crc16_tab_nth: "crc16_tab ! unat (x :: u8) = (crc16_bit ^^ 8) (push_bit 8 (ucast x))"
proof -
  have "unat x < 2 ^ LENGTH(8)" by (rule unsigned_less)
  then show ?thesis by (simp add: crc16_tab_bits)
qed

interpretation crc16: sound_crc crc16_bit "\<lambda>x. push_bit 8 (ucast x)" "\<lambda>a. ucast (drop_bit 8 a)"
  low8 "push_bit 8" "\<lambda>x. crc16_tab ! unat x"
proof unfold_locales
  fix a b :: u16 and x y :: u8
  show "crc16_bit (a XOR b) = crc16_bit a XOR crc16_bit b" by (rule crc16_bit_xor)
  show "a = push_bit 8 (ucast (ucast (drop_bit 8 a) :: u8)) XOR low8 a"
    by (rule bit_word_eqI) (auto simp: low8_def ff_mask bit_simps)
  show "push_bit 8 (ucast (x XOR y)) = (push_bit 8 (ucast x) XOR push_bit 8 (ucast y) :: u16)"
    by (rule crc16_emb_xor)
  show "(crc16_bit ^^ 8) (low8 a) = push_bit 8 a"
    using crc16_shifts [of 8 a] by (auto intro!: bit_word_eqI simp: low8_def ff_mask bit_simps)
  show "crc16_tab ! unat x = (crc16_bit ^^ 8) (push_bit 8 (ucast x))" by (rule crc16_tab_nth)
  show "a = 0" if "crc16_bit a = 0" using that by (rule crc16_bit_zero)
  show "x = 0" if "push_bit 8 (ucast x) = (0 :: u16)"
  proof (rule bit_word_eqI)
    fix n assume "n < LENGTH(8)"
    have "bit (push_bit 8 (ucast x) :: u16) (n + 8) = False" using that by simp
    with \<open>n < LENGTH(8)\<close> show "bit x n = bit 0 n" by (auto simp: bit_simps)
  qed
qed

lemma crc16_index: "unat ((drop_bit 8 c XOR ucast b) AND 0xff :: u16) = unat (ucast (drop_bit 8 c) XOR b :: u8)"
proof -
  have "(drop_bit 8 c XOR ucast b) AND 0xff = (ucast (ucast (drop_bit 8 c) XOR b :: u8) :: u16)"
    by (rule bit_word_eqI) (auto simp: ff_mask bit_simps dest: bit_u8_less)
  moreover have "unat (ucast (ucast (drop_bit 8 c) XOR b :: u8) :: u16) = unat (ucast (drop_bit 8 c) XOR b :: u8)"
    by simp
  ultimately show ?thesis by metis
qed

lemma crc16_step_bits: "crc16_step c b = (crc16_bit ^^ 8) (c XOR push_bit 8 (ucast b))"
  using crc16.byte_step [of c b] by (simp add: crc16_step_def crc16_index)

lemma crc16_loop_fold:
  "p + n \<le> length m \<Longrightarrow> crc16_loop m n p c = Some (foldl crc16_step c (slice m p n))"
  by (induction n arbitrary: c p) (auto simp: mem_simps slice_Suc)

lemma crc16_slice:
  "p + n \<le> length m \<Longrightarrow>
   cyg_crc16 p (int n) m = Some (bitwise crc16_bit (\<lambda>x. push_bit 8 (ucast x)) 0 (slice m p n))"
  by (simp add: cyg_crc16_def crc16_loop_fold bitwise_def crc16_step_bits [abs_def])

section \<open>Properties\<close>

text \<open>C24: On a block of memory the unrolled table routine \<^verbatim>\<open>crc32\<close> computes the bit-wise CRC-32 of the
  reflected polynomial \<open>0xedb88320\<close>, with inverted start and result, and reads nothing else.\<close>

theorem crc32_bitwise:
  assumes "p + n \<le> length m"
  shows "crc32 c p n m = Some (crc32_ref c (slice m p n))"
  using assms by (rule crc32_slice)

lemma crc32_bitwise_witness: "crc32 0 1 3 [0, 97, 98, 99] = Some 0x352441c2"
proof -
  have "crc32_ref 0 (slice [0, 97, 98, 99] 1 3) = 0x352441c2" by code_simp
  then show ?thesis using crc32_bitwise [of 1 3 "[0, 97, 98, 99]" 0] by simp
qed

text \<open>The literal table of \<^verbatim>\<open>crc32.c\<close> is the one the generator of the \<^verbatim>\<open>DYNAMIC_CRC_TABLE\<close> build makes.\<close>

theorem crc_table_generated: "crc_table = make_crc_table"
  by (rule crc_table_make)

text \<open>Two memories that differ in exactly one byte of a block have different CRC-32 checksums of the
  block: a corrupted byte of the environment or of an image header is always noticed.\<close>

theorem crc32_one_byte:
  assumes "p + n \<le> length m" "p \<le> i" "i < p + n" "v \<noteq> m ! i"
  shows "crc32 c p n (m[i := v]) \<noteq> crc32 c p n m"
proof -
  have sl: "slice m p n = take (i - p) (slice m p n) @ m ! i # drop (Suc (i - p)) (slice m p n)"
    using assms by (subst id_take_nth_drop [of "i - p"]) (auto simp: mem_simps)
  have "slice (m[i := v]) p n = (slice m p n)[i - p := v]"
    using assms by (intro nth_equalityI) (auto simp: mem_simps nth_list_update)
  also have "\<dots> = take (i - p) (slice m p n) @ v # drop (Suc (i - p)) (slice m p n)"
    using assms by (simp add: upd_conv_take_nth_drop)
  finally show ?thesis
    using crc32_ref_byte [OF assms(4)] sl assms(1) by (metis crc32_slice length_list_update option.inject)
qed

lemma crc32_one_byte_witness: "crc32 0 0 3 [1, 7, 3] \<noteq> crc32 0 0 3 [1, 2, 3]"
  using crc32_one_byte [of 0 3 "[1, 2, 3]" 1 7 0] by simp

text \<open>C31: On a block of memory \<^verbatim>\<open>cyg_crc16\<close> computes the bit-wise CRC-16 with polynomial \<open>0x1021\<close>, and a
  one-byte difference in an XMODEM packet changes it.\<close>

theorem crc16_bitwise:
  assumes "p + n \<le> length m" "slice m p n = us @ x # vs"
  shows "cyg_crc16 p (int n) m = Some (bitwise crc16_bit (\<lambda>b. push_bit 8 (ucast b)) 0 (us @ x # vs)) \<and>
    (y \<noteq> x \<longrightarrow> cyg_crc16 p (int n) (blit m p (us @ y # vs)) \<noteq> cyg_crc16 p (int n) m)"
proof -
  have n: "length (us @ y # vs) = n" using arg_cong [OF assms(2), of length] assms(1) by simp
  then have "slice (blit m p (us @ y # vs)) p n = us @ y # vs"
    using slice_blit_same [of p "us @ y # vs" m] assms(1) by simp
  with assms show ?thesis
    using crc16.detects_byte [of y x 0 us vs] by (auto simp: crc16_slice)
qed

lemma crc16_bitwise_witness: "cyg_crc16 0 3 [97, 98, 99] = Some 0x9dd6"
proof -
  have "bitwise crc16_bit (\<lambda>b. push_bit 8 (ucast b)) 0 ([97] @ 98 # [99]) = 0x9dd6" by code_simp
  then show ?thesis using crc16_bitwise [of 0 3 "[97, 98, 99]" "[97]" 98 "[99]"] by (simp add: slice_def)
qed

end
