(* ===== verification/EnvProps.thy ===== *)
theory EnvProps
  imports Env CrcProps
begin

text \<open>
  The environment block as a list of variables: the byte-level routines refine lookup, update and
  deletion on an association list. \<open>enc\<close> is the layout: \<^verbatim>\<open>name=value\<close> entries, each closed by a NUL, the
  list closed by one more; the empty environment is two NULs. The block may go on behind it.
\<close>

section \<open>Layout\<close>

type_synonym var = "bytes \<times> bytes"

definition ent :: "var \<Rightarrow> bytes" where
  "ent e = fst e @ 61 # snd e @ [0]"

definition ents :: "var list \<Rightarrow> bytes" where
  "ents es = concat (map ent es)"

definition enc :: "var list \<Rightarrow> bytes" where
  "enc es = (if es = [] then [0, 0] else ents es @ [0])"

definition wf_name :: "bytes \<Rightarrow> bool" where
  "wf_name n \<longleftrightarrow> 0 \<notin> set n \<and> 61 \<notin> set n"

definition wf_var :: "var \<Rightarrow> bool" where
  "wf_var e \<longleftrightarrow> wf_name (fst e) \<and> 0 \<notin> set (snd e)"

definition env_ok :: "mem \<Rightarrow> var list \<Rightarrow> bool" where
  "env_ok m es \<longleftrightarrow> (\<exists>rest. m = enc es @ rest) \<and> list_all wf_var es \<and> distinct (map fst es)"

lemma ents_simps [simp]: "ents [] = []" "ents (e # es) = ent e @ ents es" "ents (es @ fs) = ents es @ ents fs"
  by (simp_all add: ents_def)

lemma length_ent [simp]: "length (ent e) = length (fst e) + length (snd e) + 2"
  by (simp add: ent_def)

lemma rd_append [simp]: "rd (pre @ c # post) (length pre) = Some c"
  by (simp add: rd_def)

lemma env_ok_split:
  assumes "env_ok m es"
  obtains rest where "m = ents es @ 0 # rest" "es = [] \<Longrightarrow> \<exists>r. rest = 0 # r"
  using assms by (auto simp: env_ok_def enc_def split: if_splits)

text \<open>Scanning over a string in the middle of a block.\<close>

lemma entry_end_str: "0 \<notin> set s \<Longrightarrow> entry_end (pre @ s @ 0 # post) (length pre) = Some (length pre + length s)"
proof (induction s arbitrary: pre)
  case (Cons c s)
  then show ?case
    using Cons.IH [of "pre @ [c]"] by (subst entry_end.simps) simp
qed (subst entry_end.simps, simp)

lemma entry_end_lim_str:
  "0 \<notin> set s \<Longrightarrow> length pre + length s \<le> lim \<Longrightarrow>
   entry_end_lim (pre @ s @ 0 # post) lim (length pre) = Some (Some (length pre + length s))"
proof (induction s arbitrary: pre)
  case (Cons c s)
  then show ?case
    using Cons.IH [of "pre @ [c]"] by (subst entry_end_lim.simps) simp
qed (subst entry_end_lim.simps, simp)

lemma envmatch_name:
  "wf_name name \<Longrightarrow> wf_name n \<Longrightarrow>
   envmatch (pre @ n @ 61 # post) name (length pre) =
     Some (if name = n then int (length pre + length n + 1) else -1)"
proof (induction name arbitrary: n pre)
  case Nil
  then show ?case by (cases n) (auto simp: wf_name_def)
next
  case (Cons a s)
  show ?case
  proof (cases n)
    case Nil
    then show ?thesis using Cons.prems by (auto simp: wf_name_def)
  next
    case (Cons b n')
    then show ?thesis
      using Cons.prems Cons.IH [of n' "pre @ [b]"] by (auto simp: wf_name_def)
  qed
qed

lemma ent_match:
  "wf_name name \<Longrightarrow> wf_var e \<Longrightarrow>
   envmatch (pre @ ent e @ post) name (length pre) =
     Some (if name = fst e then int (length pre + length (fst e) + 1) else -1)"
  using envmatch_name [of name "fst e" pre "snd e @ [0] @ post"] by (simp add: ent_def wf_var_def)

lemma ent_end:
  "wf_var e \<Longrightarrow> entry_end (pre @ ent e @ post) (length pre) = Some (length pre + length (ent e) - 1)"
  using entry_end_str [of "fst e @ 61 # snd e" pre post] by (simp add: ent_def wf_var_def wf_name_def)

lemma ent_end_lim:
  "wf_var e \<Longrightarrow> length pre + length (ent e) \<le> lim \<Longrightarrow>
   entry_end_lim (pre @ ent e @ post) lim (length pre) = Some (Some (length pre + length (ent e) - 1))"
  using entry_end_lim_str [of "fst e @ 61 # snd e" pre lim post] by (simp add: ent_def wf_var_def wf_name_def)

lemma ent_first: "wf_var e \<Longrightarrow> \<exists>c. c \<noteq> 0 \<and> rd (pre @ ent e @ post) (length pre) = Some c"
  by (cases "fst e") (auto simp: ent_def wf_var_def wf_name_def)

lemma ent_value: "wf_var e \<Longrightarrow> is_cstr (pre @ ent e @ post) (length pre + length (fst e) + 1) (snd e)"
proof -
  assume w: "wf_var e"
  let ?m = "pre @ ent e @ post" and ?p = "length pre + length (fst e) + 1"
  have "slice ?m ?p (Suc (length (snd e))) = snd e @ [0]"
    by (simp add: slice_def ent_def)
  then show ?thesis using w by (simp add: is_cstr_iff wf_var_def)
qed

section \<open>Lookup\<close>

lemma getenv_loop_ok:
  assumes "env_mem g = ents es @ ents fs @ 0 # rest" "list_all wf_var fs" "wf_name name"
    and "length (env_mem g) \<le> CFG_ENV_SIZE g"
  shows "case map_of fs name of
      None \<Rightarrow> getenv_loop g name (length (ents es)) = Some None
    | Some v \<Rightarrow> \<exists>a. getenv_loop g name (length (ents es)) = Some (Some a) \<and> is_cstr (env_mem g) a v"
  using assms
proof (induction fs arbitrary: es)
  case Nil
  then show ?case by (subst getenv_loop.simps) (simp add: env_get_char_def)
next
  case (Cons e fs)
  let ?m = "env_mem g" and ?p = "length (ents es)"
  have m: "?m = ents es @ ent e @ ents fs @ 0 # rest" and w: "wf_var e" using Cons.prems by simp_all
  obtain c where c: "c \<noteq> 0" "rd ?m ?p = Some c" using ent_first [OF w] unfolding m by blast
  have x: "entry_end_lim ?m (CFG_ENV_SIZE g) ?p = Some (Some (?p + length (ent e) - 1))"
    using ent_end_lim [OF w, of "ents es"] Cons.prems(4) unfolding m by simp
  have t: "envmatch ?m name ?p = Some (if name = fst e then int (?p + length (fst e) + 1) else -1)"
    using ent_match [OF Cons.prems(3) w] unfolding m by blast
  have step: "getenv_loop g name ?p =
      (if name = fst e then Some (Some (?p + length (fst e) + 1)) else getenv_loop g name (length (ents (es @ [e]))))"
    using c by (subst getenv_loop.simps) (auto simp: env_get_char_def x t mem_simps)
  show ?case
  proof (cases "name = fst e")
    case True
    then show ?thesis using step ent_value [OF w] unfolding m by (cases e) auto
  next
    case False
    then show ?thesis
      using step Cons.IH [of "es @ [e]"] Cons.prems by (cases e) (auto split: option.splits)
  qed
qed

lemma getenv_ok:
  assumes "env_ok (env_mem g) es" "wf_name name" "env_valid g \<noteq> 0"
  shows "case map_of es name of
      None \<Rightarrow> getenv name g = Some None
    | Some v \<Rightarrow> \<exists>a. getenv name g = Some (Some a) \<and> is_cstr (env_mem g) a v"
proof -
  obtain rest where "env_mem g = ents [] @ ents es @ 0 # rest" using env_ok_split [OF assms(1)] by auto
  moreover have "length (env_mem g) \<le> CFG_ENV_SIZE g"
    using assms(3) by (simp add: env_mem_def CFG_ENV_SIZE_def ENV_SIZE_def)
  ultimately show ?thesis
    using getenv_loop_ok [of g "[]" es rest name] assms unfolding getenv_def env_ok_def
    by (cases "map_of es name") (simp_all del: map_of_eq_None_iff)
qed

section \<open>Deletion\<close>

text \<open>The position \<open>env_find\<close> stops at.\<close>

lemma env_find_ok:
  assumes "m = ents es @ ents fs @ 0 # rest" "list_all wf_var fs" "wf_name name" "v < 0"
  shows "case map_of fs name of
      None \<Rightarrow> \<exists>v' env nxt. env_find m name (length (ents es)) nxt0 v = Some (v', env, nxt) \<and> v' < 0
    | Some val \<Rightarrow> \<exists>gs hs v'. fs = gs @ (name, val) # hs \<and> name \<notin> fst ` set gs \<and> 0 \<le> v' \<and>
        env_find m name (length (ents es)) nxt0 v =
          Some (v', length (ents (es @ gs)), length (ents (es @ gs @ [(name, val)])) - 1)"
  using assms
proof (induction fs arbitrary: es nxt0 v)
  case Nil
  then show ?case by (subst env_find.simps) simp
next
  case (Cons e fs)
  let ?p = "length (ents es)"
  have m: "m = ents es @ ent e @ ents fs @ 0 # rest" and w: "wf_var e" using Cons.prems by simp_all
  obtain c where c: "c \<noteq> 0" "rd m ?p = Some c" using ent_first [OF w] unfolding m by blast
  have x: "entry_end m ?p = Some (?p + length (ent e) - 1)" using ent_end [OF w] unfolding m by blast
  have t: "envmatch m name ?p = Some (if name = fst e then int (?p + length (fst e) + 1) else -1)"
    using ent_match [OF Cons.prems(3) w] unfolding m by blast
  have step: "env_find m name ?p nxt0 v =
      (if name = fst e then Some (int (?p + length (fst e) + 1), ?p, ?p + length (ent e) - 1)
       else env_find m name (length (ents (es @ [e]))) (?p + length (ent e) - 1) (-1))"
    using c by (subst env_find.simps) (auto simp: x t mem_simps)
  show ?case
  proof (cases "name = fst e")
    case True
    then obtain val where e: "e = (name, val)" by (cases e) simp
    have mo: "map_of (e # fs) name = Some val" by (simp add: e)
    have "\<exists>v'. e # fs = [] @ (name, val) # fs \<and> name \<notin> fst ` set ([] :: var list) \<and> 0 \<le> v' \<and>
        env_find m name ?p nxt0 v = Some (v', length (ents (es @ [])), length (ents (es @ [] @ [(name, val)])) - 1)"
      using step by (simp add: e)
    then obtain v' where v': "e # fs = [] @ (name, val) # fs \<and> name \<notin> fst ` set ([] :: var list) \<and> 0 \<le> v' \<and>
        env_find m name ?p nxt0 v = Some (v', length (ents (es @ [])), length (ents (es @ [] @ [(name, val)])) - 1)"
      by blast
    show ?thesis
      unfolding mo option.case by (rule exI [of _ "[]"], rule exI [of _ fs], rule exI [of _ v'], rule v')
  next
    case False
    have IH: "case map_of fs name of
        None \<Rightarrow> \<exists>v' env nxt. env_find m name ?p nxt0 v = Some (v', env, nxt) \<and> v' < 0
      | Some val \<Rightarrow> \<exists>gs hs v'. fs = gs @ (name, val) # hs \<and> name \<notin> fst ` set gs \<and> 0 \<le> v' \<and>
          env_find m name ?p nxt0 v =
            Some (v', length (ents ((es @ [e]) @ gs)), length (ents ((es @ [e]) @ gs @ [(name, val)])) - 1)"
      using Cons.IH [of "es @ [e]" "-1" "?p + length (ent e) - 1"] Cons.prems False unfolding step by simp
    show ?thesis
    proof (cases "map_of fs name")
      case None
      then show ?thesis using IH False by (cases e) simp
    next
      case (Some val)
      then obtain gs hs v' where "fs = gs @ (name, val) # hs" "name \<notin> fst ` set gs" "0 \<le> v'"
        "env_find m name ?p nxt0 v = Some (v', length (ents ((es @ [e]) @ gs)),
           length (ents ((es @ [e]) @ gs @ [(name, val)])) - 1)"
        using IH by auto
      then have "e # fs = (e # gs) @ (name, val) # hs \<and> name \<notin> fst ` set (e # gs) \<and> 0 \<le> v' \<and>
        env_find m name ?p nxt0 v = Some (v', length (ents (es @ e # gs)),
           length (ents (es @ (e # gs) @ [(name, val)])) - 1)"
        using False by auto
      moreover have "map_of (e # fs) name = Some val" using Some False by (cases e) simp
      ultimately show ?thesis by (simp only: option.case) blast
    qed
  qed
qed

text \<open>A run of entries: no two NULs in a row, the last byte a NUL.\<close>

fun entry_run :: "bytes \<Rightarrow> bool" where
  "entry_run [] \<longleftrightarrow> False"
| "entry_run [c] \<longleftrightarrow> c = 0"
| "entry_run (c # d # X) \<longleftrightarrow> \<not> (c = 0 \<and> d = 0) \<and> entry_run (d # X)"

lemma entry_run_str: "0 \<notin> set s \<Longrightarrow> entry_run X \<Longrightarrow> hd X \<noteq> 0 \<Longrightarrow> entry_run (s @ 0 # X)"
proof (induction s)
  case Nil
  then show ?case by (cases X) auto
next
  case (Cons c s)
  then show ?case by (cases s) auto
qed

lemma entry_run_last: "0 \<notin> set s \<Longrightarrow> entry_run (s @ [0])"
proof (induction s)
  case (Cons c s)
  then show ?case by (cases s) auto
qed simp

lemma hd_ents: "es \<noteq> [] \<Longrightarrow> list_all wf_var es \<Longrightarrow> hd (ents es) \<noteq> 0"
  by (cases es) (auto simp: ent_def wf_var_def wf_name_def hd_append, metis hd_in_set)

lemma entry_run_ents: "es \<noteq> [] \<Longrightarrow> list_all wf_var es \<Longrightarrow> entry_run (ents es)"
proof (induction es)
  case (Cons e es)
  let ?s = "fst e @ 61 # snd e"
  have s: "0 \<notin> set ?s" using Cons.prems by (simp add: wf_var_def wf_name_def)
  show ?case
  proof (cases "es = []")
    case True
    then show ?thesis using entry_run_last [OF s] by (simp add: ent_def)
  next
    case False
    then show ?thesis
      using entry_run_str [OF s, of "ents es"] Cons hd_ents [of es] by (simp add: ent_def)
  qed
qed simp

lemma slice_shift: "env < nxt \<Longrightarrow> slice (m[env := c]) nxt n = slice m nxt n"
  by (rule slice_update_other) simp

lemma shift_loop_run:
  "entry_run X \<Longrightarrow> slice m nxt (Suc (length X)) = X @ [0] \<Longrightarrow> env < nxt \<Longrightarrow> nxt + length X < length m \<Longrightarrow>
   shift_loop m env nxt = Some (blit m env X, env + length X - 1)"
proof (induction X arbitrary: m env nxt rule: entry_run.induct)
  case (2 c)
  then show ?case
    by (subst shift_loop.simps) (auto simp: mem_simps slice_Suc rd_upd)
next
  case (3 c d X)
  let ?m = "m[env := c]"
  have n: "m ! nxt = c" "slice m (Suc nxt) (Suc (length (d # X))) = d # X @ [0]"
    using 3(3,5) by (simp_all add: slice_Suc)
  then have d: "m ! Suc nxt = d" using 3(5) by (simp add: slice_Suc)
  have "shift_loop ?m (Suc env) (Suc nxt) = Some (blit ?m (Suc env) (d # X), Suc env + length (d # X) - 1)"
    using 3 n by (intro "3.IH") (auto simp: slice_shift)
  then show ?case
    using 3 n d by (subst shift_loop.simps) (auto simp: mem_simps rd_upd)
qed simp

lemma env_delete_blit:
  assumes m: "m = ents gs @ ent e @ ents hs @ 0 # rest" and "list_all wf_var hs" "wf_var e"
  shows "env_delete m (length (ents gs)) (length (ents (gs @ [e])) - 1) =
    Some (blit m (length (ents gs)) (if gs = [] \<and> hs = [] then [0, 0] else ents hs @ [0]))"
proof -
  let ?p = "length (ents gs)" and ?n = "length (ents (gs @ [e]))"
  have n: "?n - 1 + 1 = ?n" by simp
  have r: "slice m ?n (Suc (length (ents hs))) = ents hs @ [0]" by (simp add: m slice_def)
  have len: "?n + length (ents hs) < length m" by (simp add: m)
  show ?thesis
  proof (cases "hs = []")
    case True
    then have "rd m ?n = Some 0" using r len by (simp add: slice_Suc)
    moreover have "gs \<noteq> [] \<Longrightarrow> 0 < ?p" by (cases gs) auto
    moreover have "Suc ?p < length m" using len by simp
    moreover have "0 < length m" "Suc 0 < length m" by (simp_all add: m)
    ultimately show ?thesis
      using True by (auto simp: env_delete_def mem_simps)
  next
    case False
    then obtain c X where X: "ents hs = c # X" "c \<noteq> 0"
      using hd_ents [OF False assms(2)] entry_run_ents [OF False assms(2)] by (cases "ents hs") auto
    then have "rd m ?n = Some c" using r len by (simp add: slice_Suc)
    moreover have "shift_loop m ?p ?n = Some (blit m ?p (ents hs), ?p + length (ents hs) - 1)"
      using entry_run_ents [OF False assms(2)] r len by (intro shift_loop_run) auto
    ultimately show ?thesis
      using False X len blit_snoc [of m ?p "ents hs" 0]
      by (auto simp: env_delete_def mem_simps simp del: blit.simps)
  qed
qed

section \<open>Appending\<close>

lemma env_end_run:
  "entry_run X \<Longrightarrow> env_end (pre @ X @ 0 # post) (length pre) = Some (length pre + length X - 1)"
proof (induction X arbitrary: pre rule: entry_run.induct)
  case (2 c)
  then show ?case by (subst env_end.simps) (simp add: rd_def nth_append)
next
  case (3 c d X)
  have n: "rd (pre @ c # d # X @ 0 # post) (Suc (length pre)) = Some d" by (simp add: rd_def nth_append)
  show ?case
    using 3(1) [of "pre @ [c]"] 3(2) n by (subst env_end.simps) (auto simp del: rd_eq_Some)
qed simp

lemma env_end_ok:
  assumes "m = ents es @ 0 # rest" "list_all wf_var es" "es = [] \<Longrightarrow> \<exists>r. rest = 0 # r"
  shows "\<exists>e. env_end m 0 = Some e \<and> (if e > 0 then e + 1 else e) = length (ents es)"
proof (cases "es = []")
  case True
  then obtain r where "m = 0 # 0 # r" using assms by auto
  then have "env_end m 0 = Some 0" by (subst env_end.simps) (simp add: rd_def)
  then show ?thesis using True by simp
next
  case False
  then have "2 \<le> length (ents es)" by (cases es) auto
  then show ?thesis
    using env_end_run [OF entry_run_ents [OF False assms(2)], of "[]" rest] assms(1) by auto
qed

lemma put_str_blit:
  "p + length s < length m \<Longrightarrow> put_str m p s = Some (blit m p (s @ [0]), p + length s)"
  by (induction s arbitrary: m p) (simp_all add: mem_simps)

fun vals_text :: "bool \<Rightarrow> bytes list \<Rightarrow> bytes" where
  "vals_text first [] = []"
| "vals_text first (v # vs) = (if first then 61 else 32) # v @ vals_text False vs"

lemma length_vals_text: "length (vals_text first vs) = sum_list (map (\<lambda>v. length v + 1) vs)"
  by (induction first vs rule: vals_text.induct) auto

lemma blit_override: "blit (blit m p (s @ [0])) (p + length s) (c # t) = blit m p (s @ c # t)"
  by (simp add: blit_snoc blit_append)

lemma put_vals_blit:
  "p + length (vals_text first vs) < length m \<Longrightarrow> m ! p = 0 \<Longrightarrow>
   put_vals m p first vs = Some (blit m p (vals_text first vs @ [0]), p + length (vals_text first vs))"
proof (induction first vs arbitrary: m p rule: vals_text.induct)
  case (1 first)
  then show ?case using list_update_id [of m p] by simp
next
  case (2 first v vs)
  let ?c = "if first then 61 else 32 :: u8"
  let ?m = "blit (m[p := ?c]) (Suc p) (v @ [0])"
  have len: "Suc p + length v < length (m[p := ?c])" using 2(2) by simp
  have nul: "?m ! (Suc p + length v) = 0" using len by (simp add: blit_snoc)
  have "put_vals ?m (Suc p + length v) False vs =
      Some (blit ?m (Suc p + length v) (vals_text False vs @ [0]), Suc p + length v + length (vals_text False vs))"
    using 2 nul by (intro "2.IH") auto
  moreover have "blit ?m (Suc p + length v) (vals_text False vs @ [0])
      = blit (m[p := ?c]) (Suc p) (v @ vals_text False vs @ [0])"
    using blit_override [of "m[p := ?c]" "Suc p" v]
    by (cases "vals_text False vs @ [0]") (simp_all del: blit.simps)
  ultimately show ?case
    using 2(2) put_str_blit [OF len] by (simp add: mem_simps)
qed

text \<open>The value stored: the arguments with single spaces between them.\<close>

fun join_sp :: "bytes list \<Rightarrow> bytes" where
  "join_sp [] = []"
| "join_sp [v] = v"
| "join_sp (v # vs) = v @ 32 # join_sp vs"

lemma vals_text_join: "vs \<noteq> [] \<Longrightarrow> vals_text first vs = (if first then 61 else 32) # join_sp vs"
  by (induction vs arbitrary: first rule: join_sp.induct) auto

lemma env_append_blit:
  assumes "m = ents es @ 0 # rest" "list_all wf_var es" "es = [] \<Longrightarrow> \<exists>r. rest = 0 # r" "vals \<noteq> []"
    and "length m = size'"
  shows "env_append m size' name vals =
    (if length (ents es) + length (ent (name, join_sp vals)) + 1 > size' then Some None
     else Some (Some (blit m (length (ents es)) (ent (name, join_sp vals) @ [0]))))"
proof -
  let ?p = "length (ents es)" and ?t = "vals_text True vals"
  obtain e where e: "env_end m 0 = Some e" "(if e > 0 then e + 1 else e) = ?p"
    using env_end_ok [OF assms(1-3)] by blast
  have t: "?t = 61 # join_sp vals" using vals_text_join [OF assms(4), of True] by simp
  have le: "length name + 2 + sum_list (map (\<lambda>v. length v + 1) vals) = length (ent (name, join_sp vals)) + 1"
    using t length_vals_text [of True vals] by simp
  show ?thesis
  proof (cases "?p + length (ent (name, join_sp vals)) + 1 > size'")
    case True
    then have "int size' - int ?p < int (length name + 2 + sum_list (map (\<lambda>v. length v + 1) vals))"
      unfolding le by linarith
    then show ?thesis using e True by (simp only: env_append_def Let_def) simp
  next
    case False
    let ?m = "blit m ?p (name @ [0])"
    have 1: "put_str m ?p name = Some (?m, ?p + length name)"
      using False assms(5) by (intro put_str_blit) simp
    have nul: "?m ! (?p + length name) = 0" using False assms(5) by (simp add: blit_snoc)
    have 2: "put_vals ?m (?p + length name) True vals =
        Some (blit ?m (?p + length name) (?t @ [0]), ?p + length name + length ?t)"
      using False assms(5) nul t by (intro put_vals_blit) simp_all
    have 3: "blit ?m (?p + length name) (?t @ [0]) = blit m ?p (ent (name, join_sp vals))"
      using blit_override [of m ?p name] t by (simp add: ent_def del: blit.simps)
    have "wr (blit m ?p (ent (name, join_sp vals))) (?p + length (ent (name, join_sp vals))) 0
        = Some (blit m ?p (ent (name, join_sp vals) @ [0]))"
      using False assms(5) by (simp add: wr_def blit_snoc)
    then show ?thesis
      using e 1 2 3 False t le by (auto simp: env_append_def Let_def mem_simps ac_simps)
  qed
qed

section \<open>The block after an update\<close>

definition del_var :: "bytes \<Rightarrow> var list \<Rightarrow> var list" where
  "del_var name es = filter (\<lambda>e. fst e \<noteq> name) es"

lemma del_var_split:
  "distinct (map fst (gs @ (name, v) # hs)) \<Longrightarrow> del_var name (gs @ (name, v) # hs) = gs @ hs"
  by (auto simp: del_var_def filter_id_conv intro!: arg_cong2 [where f = append])

lemma map_of_del: "map_of (del_var name es) = (map_of es)(name := None)"
  by (rule ext) (induction es, auto simp: del_var_def)

lemma del_var_id: "map_of es name = None \<Longrightarrow> del_var name es = es"
  by (auto simp: del_var_def filter_id_conv map_of_eq_None_iff)

lemma env_ok_delete:
  assumes "env_ok m es" "map_of es name = Some v" "wf_name name"
  shows "\<exists>v' env nxt m'. env_find m name 0 0 (-1) = Some (v', env, nxt) \<and> 0 \<le> v' \<and>
    env_delete m env nxt = Some m' \<and> env_ok m' (del_var name es) \<and> length m' = length m"
proof -
  obtain rest where m: "m = ents [] @ ents es @ 0 # rest" using env_ok_split [OF assms(1)] by auto
  have w: "list_all wf_var es" "distinct (map fst es)" using assms(1) by (simp_all add: env_ok_def)
  obtain gs hs v' where es: "es = gs @ (name, v) # hs" and "0 \<le> v'"
    and f: "env_find m name 0 0 (-1) = Some (v', length (ents gs), length (ents (gs @ [(name, v)])) - 1)"
    using env_find_ok [OF m w(1) assms(3), of "-1" 0] assms(2) by auto
  let ?p = "length (ents gs)"
  let ?b = "if gs = [] \<and> hs = [] then [0, 0] else ents hs @ [0]"
  have d: "env_delete m ?p (length (ents (gs @ [(name, v)])) - 1) = Some (blit m ?p ?b)"
    using w m by (intro env_delete_blit [of _ _ _ _ rest]) (simp_all add: es)
  have "blit m ?p ?b = ents gs @ ?b @ drop (?p + length ?b) m"
    by (subst blit_splice) (auto simp: m es)
  moreover have "del_var name es = gs @ hs" using del_var_split w(2) by (simp add: es)
  ultimately have "env_ok (blit m ?p ?b) (del_var name es)"
    using w by (auto simp: env_ok_def enc_def es)
  then show ?thesis using f d \<open>0 \<le> v'\<close> by auto
qed

lemma env_ok_absent:
  assumes "env_ok m es" "map_of es name = None" "wf_name name"
  shows "\<exists>v' env nxt. env_find m name 0 0 (-1) = Some (v', env, nxt) \<and> v' < 0"
proof -
  obtain rest where m: "m = ents [] @ ents es @ 0 # rest" using env_ok_split [OF assms(1)] by auto
  have "list_all wf_var es" using assms(1) by (simp add: env_ok_def)
  then show ?thesis using env_find_ok [OF m _ assms(3), of "-1" 0] assms(2) by auto
qed

lemma join_sp_nul: "(\<And>v. v \<in> set vs \<Longrightarrow> 0 \<notin> set v) \<Longrightarrow> 0 \<notin> set (join_sp vs)"
  by (induction vs rule: join_sp.induct) auto

definition fits :: "nat \<Rightarrow> var list \<Rightarrow> bool" where
  "fits n es \<longleftrightarrow> length (ents es) + 1 \<le> n"

lemma env_ok_append:
  assumes "env_ok m es" "map_of es name = None" "wf_name name" "vals \<noteq> []" "\<And>v. v \<in> set vals \<Longrightarrow> 0 \<notin> set v"
  shows "if fits (length m) (es @ [(name, join_sp vals)])
    then \<exists>m'. env_append m (length m) name vals = Some (Some m') \<and>
      env_ok m' (es @ [(name, join_sp vals)]) \<and> length m' = length m
    else env_append m (length m) name vals = Some None"
proof -
  obtain rest where m: "m = ents es @ 0 # rest" and e: "es = [] \<Longrightarrow> \<exists>r. rest = 0 # r"
    using env_ok_split [OF assms(1)] by blast
  have w: "list_all wf_var es" "distinct (map fst es)" using assms(1) by (simp_all add: env_ok_def)
  let ?e = "(name, join_sp vals)" and ?p = "length (ents es)"
  have a: "env_append m (length m) name vals = (if \<not> fits (length m) (es @ [?e]) then Some None
      else Some (Some (blit m ?p (ent ?e @ [0]))))"
    using env_append_blit [OF m w(1) e assms(4) refl] by (simp add: fits_def not_le)
  show ?thesis
  proof (cases "fits (length m) (es @ [?e])")
    case True
    then have "blit m ?p (ent ?e @ [0]) = ents es @ (ent ?e @ [0]) @ drop (?p + length (ent ?e @ [0])) m"
      by (subst blit_splice) (auto simp: m fits_def)
    moreover have "wf_var ?e" using assms(3,5) join_sp_nul [of vals] by (simp add: wf_var_def)
    ultimately have "env_ok (blit m ?p (ent ?e @ [0])) (es @ [?e])"
      using w assms(2) by (auto simp: env_ok_def enc_def map_of_eq_None_iff)
    then show ?thesis using a True by simp
  qed (simp add: a)
qed

section \<open>The commands\<close>

text \<open>Names that no other setting hangs on.\<close>

definition plain_name :: "bytes \<Rightarrow> bool" where
  "plain_name n \<longleftrightarrow> wf_name n \<and> take 3 n \<noteq> bytes_of ''eth'' \<and>
     n \<noteq> bytes_of ''serial#'' \<and> n \<noteq> bytes_of ''stdin'' \<and> n \<noteq> bytes_of ''stdout'' \<and> n \<noteq> bytes_of ''stderr'' \<and>
     n \<noteq> bytes_of ''baudrate'' \<and> n \<noteq> bytes_of ''ipaddr'' \<and> n \<noteq> bytes_of ''loadaddr'' \<and> n \<noteq> bytes_of ''bootfile''"

text \<open>The environment is valid and in memory, and its variables are \<open>es\<close>.\<close>

definition env_inv :: "gd \<Rightarrow> var list \<Rightarrow> bool" where
  "env_inv g es \<longleftrightarrow> env_valid g \<noteq> 0 \<and> env_ok (env_data g) es"

lemma env_mem_valid: "env_valid g \<noteq> 0 \<Longrightarrow> env_mem g = env_data g"
  by (simp add: env_mem_def)

lemma set_env_mem_valid: "env_valid g \<noteq> 0 \<Longrightarrow> set_env_mem m g = g\<lparr>env_data := m\<rparr>"
  by (simp add: set_env_mem_def)

lemma plain_name_eth: "plain_name n \<Longrightarrow> n \<noteq> bytes_of ''ethaddr''"
proof
  assume p: "plain_name n" and n: "n = bytes_of ''ethaddr''"
  have "take 3 n = bytes_of ''eth''" by (simp add: n numeral_3_eq_3)
  then show False using p by (simp only: plain_name_def simp_thms)
qed

lemma plain_name_ne:
  assumes "plain_name n"
  shows "n \<noteq> bytes_of ''serial#''" "n \<noteq> bytes_of ''stdin''" "n \<noteq> bytes_of ''stdout''" "n \<noteq> bytes_of ''stderr''"
    "n \<noteq> bytes_of ''baudrate''" "n \<noteq> bytes_of ''ipaddr''" "n \<noteq> bytes_of ''loadaddr''" "n \<noteq> bytes_of ''bootfile''"
  using assms unfolding plain_name_def by (simp_all only: simp_thms)

lemma setenv_existing_plain:
  assumes "plain_name name"
  shows "setenv_existing name argv env nxt g = do {
    m \<leftarrow> env_delete (env_mem g) env nxt; Some (Inl (set_env_mem m g)) }"
  by (simp only: setenv_existing_def setenv_console_def setenv_baudrate_def plain_name_ne [OF assms]
      plain_name_eth [OF assms] if_False simp_thms Let_def option.case Option.bind.bind_lunit sum.case)

lemma crc_update_valid: "\<exists>c. env_crc_update g = Some (g\<lparr>env_ptr_crc := c\<rparr>) \<and>
    crc32 0 0 (length (env_data g)) (env_data g) = Some c"
  using crc32_slice [of 0 "length (env_data g)" "env_data g" 0]
  by (simp add: env_crc_update_def ENV_SIZE_def)

text \<open>The first half of \<open>_do_setenv\<close>: an existing definition is removed.\<close>

lemma setenv_remove:
  assumes "env_inv g es" "plain_name name"
  shows "\<exists>oldval env nxt. env_find (env_mem g) name 0 0 (-1) = Some (oldval, env, nxt) \<and>
    (\<exists>m. (if oldval \<ge> 0 then setenv_existing name argv env nxt g else Some (Inl g)) = Some (Inl (g\<lparr>env_data := m\<rparr>)) \<and>
      env_ok m (del_var name es) \<and> length m = length (env_data g))"
proof -
  have v: "env_valid g \<noteq> 0" "env_ok (env_mem g) es" and n: "wf_name name"
    using assms by (auto simp: env_inv_def env_mem_valid plain_name_def)
  show ?thesis
  proof (cases "map_of es name")
    case None
    then obtain v' env nxt where "env_find (env_mem g) name 0 0 (-1) = Some (v', env, nxt)" "v' < 0"
      using env_ok_absent [OF v(2) _ n] by blast
    then show ?thesis
      using v del_var_id [OF None] by (auto simp: env_mem_valid intro!: exI [of _ "env_data g"])
  next
    case (Some val)
    then obtain v' env nxt m where "env_find (env_mem g) name 0 0 (-1) = Some (v', env, nxt)" "0 \<le> v'"
      "env_delete (env_mem g) env nxt = Some m" "env_ok m (del_var name es)" "length m = length (env_mem g)"
      using env_ok_delete [OF v(2) _ n] by blast
    then show ?thesis
      using v(1) by (auto simp: setenv_existing_plain [OF assms(2)] env_mem_valid set_env_mem_valid)
  qed
qed

lemma setenv_ethaddr_plain: "plain_name name \<Longrightarrow> setenv_ethaddr name argv g = Some g"
  by (simp only: setenv_ethaddr_def plain_name_def if_False)

lemma setenv_effects_plain: "plain_name name \<Longrightarrow> setenv_effects name v g = Some g"
  by (simp only: setenv_effects_def plain_name_ne plain_name_eth if_False)

lemma the_all_Some [simp]: "the_all (map Some xs) = Some xs"
  by (induction xs) auto

lemma setenv_delete_ok:
  assumes "env_inv g es" "plain_name name"
  shows "\<exists>g' c. do_setenv_raw [cmd, Some name] g = Some (g', 0) \<and> env_inv g' (del_var name es) \<and>
    ENV_SIZE g' = ENV_SIZE g \<and> crc32 0 0 (ENV_SIZE g') (env_data g') = Some (env_ptr_crc g')"
proof -
  obtain oldval env nxt m where f: "env_find (env_mem g) name 0 0 (-1) = Some (oldval, env, nxt)"
    and d: "(if oldval \<ge> 0 then setenv_existing name [cmd, Some name] env nxt g else Some (Inl g)) = Some (Inl (g\<lparr>env_data := m\<rparr>))"
    and m: "env_ok m (del_var name es)" "length m = length (env_data g)"
    using setenv_remove [OF assms] by blast
  obtain c where c: "env_crc_update (g\<lparr>env_data := m\<rparr>) = Some (g\<lparr>env_data := m, env_ptr_crc := c\<rparr>)"
    "crc32 0 0 (length m) m = Some c"
    using crc_update_valid [of "g\<lparr>env_data := m\<rparr>"] by auto
  show ?thesis
    using f d m c assms setenv_ethaddr_plain [OF assms(2)]
    by (simp add: do_setenv_raw_def argv_at_def env_inv_def ENV_SIZE_def del: if_split)
qed

lemma setenv_put:
  assumes inv: "env_inv g es" and name: "plain_name name" and vals: "vals \<noteq> []" "\<And>v. v \<in> set vals \<Longrightarrow> 0 \<notin> set v"
  defines "es' \<equiv> del_var name es @ [(name, join_sp vals)]"
  shows "if fits (ENV_SIZE g) es'
    then \<exists>g'. do_setenv_raw (cmd # Some name # map Some vals) g = Some (g', 0) \<and> env_inv g' es' \<and>
      ENV_SIZE g' = ENV_SIZE g \<and> crc32 0 0 (ENV_SIZE g') (env_data g') = Some (env_ptr_crc g')
    else \<exists>g'. do_setenv_raw (cmd # Some name # map Some vals) g = Some (g', 1) \<and>
      env_inv g' (del_var name es) \<and> env_ptr_crc g' = env_ptr_crc g"
proof -
  let ?argv = "cmd # Some name # map Some vals"
  obtain oldval env nxt m where f: "env_find (env_mem g) name 0 0 (-1) = Some (oldval, env, nxt)"
    and d: "(if oldval \<ge> 0 then setenv_existing name ?argv env nxt g else Some (Inl g)) = Some (Inl (g\<lparr>env_data := m\<rparr>))"
    and m: "env_ok m (del_var name es)" "length m = length (env_data g)"
    using setenv_remove [OF inv name] by blast
  have none: "map_of (del_var name es) name = None" by (simp add: map_of_del)
  have a: "if fits (length m) es'
    then \<exists>m'. env_append m (length m) name vals = Some (Some m') \<and> env_ok m' es' \<and> length m' = length m
    else env_append m (length m) name vals = Some None"
    using env_ok_append [OF m(1) none _ vals] name by (simp add: es'_def plain_name_def)
  have arg2: "argv_at ?argv 2 = Some (hd vals)" "\<not> length ?argv < 3"
    using vals(1) by (cases vals; simp add: argv_at_def)+
  have run: "do_setenv_raw ?argv g = do {
      r2 \<leftarrow> env_append m (length m) name vals;
      case r2 of
        None \<Rightarrow> Some (g\<lparr>env_data := m\<rparr>, 1)
      | Some m' \<Rightarrow> do { g3 \<leftarrow> env_crc_update (g\<lparr>env_data := m'\<rparr>); Some (g3, 0) } }"
    using f d arg2 inv setenv_ethaddr_plain [OF name] setenv_effects_plain [OF name] m(2)
    by (simp add: do_setenv_raw_def argv_at_def env_inv_def ENV_SIZE_def env_mem_valid set_env_mem_valid
        del: if_split cong: option.case_cong)
  show ?thesis
  proof (cases "fits (ENV_SIZE g) es'")
    case True
    then obtain m' where m': "env_append m (length m) name vals = Some (Some m')" "env_ok m' es'" "length m' = length m"
      using a m(2) by (auto simp: ENV_SIZE_def)
    obtain c where "env_crc_update (g\<lparr>env_data := m'\<rparr>) = Some (g\<lparr>env_data := m', env_ptr_crc := c\<rparr>)"
      "crc32 0 0 (length m') m' = Some c"
      using crc_update_valid [of "g\<lparr>env_data := m'\<rparr>"] by auto
    then show ?thesis using True m' m(2) run inv by (simp add: env_inv_def ENV_SIZE_def)
  next
    case False
    then show ?thesis using a m run inv by (simp add: env_inv_def ENV_SIZE_def)
  qed
qed

section \<open>A store of variables\<close>

text \<open>
  What a client of the environment relies on: after a successful \<open>put\<close> or \<open>del\<close> the lookups are those of
  an updated map, whatever else the state holds.
\<close>

locale env_store =
  fixes inv :: "'s \<Rightarrow> bool" and get :: "bytes \<Rightarrow> 's \<Rightarrow> bytes option"
    and put :: "bytes \<Rightarrow> bytes \<Rightarrow> 's \<Rightarrow> 's option" and del :: "bytes \<Rightarrow> 's \<Rightarrow> 's option"
    and key :: "bytes \<Rightarrow> bool" and val :: "bytes \<Rightarrow> bool"
  assumes put_get: "inv s \<Longrightarrow> key k \<Longrightarrow> val v \<Longrightarrow> put k v s = Some s' \<Longrightarrow>
      inv s' \<and> (\<forall>j. key j \<longrightarrow> get j s' = (if j = k then Some v else get j s))"
    and del_get: "inv s \<Longrightarrow> key k \<Longrightarrow> del k s = Some s' \<Longrightarrow>
      inv s' \<and> (\<forall>j. key j \<longrightarrow> get j s' = (if j = k then None else get j s))"
begin

text \<open>A history of updates: the last one of a name decides, deletions included.\<close>

fun run_updates :: "(bytes \<times> bytes option) list \<Rightarrow> 's \<Rightarrow> 's option" where
  "run_updates [] s = Some s"
| "run_updates ((k, x) # us) s = do {
     s1 \<leftarrow> (case x of Some v \<Rightarrow> put k v s | None \<Rightarrow> del k s); run_updates us s1 }"

lemma run_updates_get:
  "inv s \<Longrightarrow> \<forall>(k, x)\<in>set us. key k \<and> (\<forall>v. x = Some v \<longrightarrow> val v) \<Longrightarrow> run_updates us s = Some s' \<Longrightarrow>
   inv s' \<and> (\<forall>j. key j \<longrightarrow> get j s' = (case map_of (rev us) j of Some x \<Rightarrow> x | None \<Rightarrow> get j s))"
proof (induction us arbitrary: s)
  case (Cons u us)
  obtain k x where u: "u = (k, x)" by force
  obtain s1 where s1: "(case x of Some v \<Rightarrow> put k v s | None \<Rightarrow> del k s) = Some s1" "run_updates us s1 = Some s'"
    using Cons.prems(3) by (auto simp: u split: Option.bind_splits)
  have "inv s1 \<and> (\<forall>j. key j \<longrightarrow> get j s1 = (if j = k then x else get j s))"
    using put_get [of s k] del_get [of s k] Cons.prems(1,2) s1(1) by (cases x) (auto simp: u)
  then show ?case
    using Cons.IH [of s1] Cons.prems(2) s1(2) by (auto simp: u map_add_def split: option.splits)
qed simp

end

text \<open>The environment of the program as such a store.\<close>

definition env_lookup :: "bytes \<Rightarrow> gd \<Rightarrow> bytes option" where
  "env_lookup name g = (case getenv name g of
     Some (Some a) \<Rightarrow> map_option (slice (env_mem g) a) (strlen a (env_mem g))
   | _ \<Rightarrow> None)"

definition env_put :: "bytes \<Rightarrow> bytes \<Rightarrow> gd \<Rightarrow> gd option" where
  "env_put k v g = (case do_setenv [Some (bytes_of ''setenv''), Some k, Some v] g of
     Some (g', rc) \<Rightarrow> if rc = 0 then Some g' else None | None \<Rightarrow> None)"

definition env_del :: "bytes \<Rightarrow> gd \<Rightarrow> gd option" where
  "env_del k g = (case do_setenv [Some (bytes_of ''setenv''), Some k] g of
     Some (g', rc) \<Rightarrow> if rc = 0 then Some g' else None | None \<Rightarrow> None)"

definition env_good :: "gd \<Rightarrow> bool" where
  "env_good g \<longleftrightarrow> (\<exists>es. env_inv g es)"

lemma env_lookup_map:
  assumes "env_inv g es" "wf_name name"
  shows "env_lookup name g = map_of es name"
proof -
  have "env_ok (env_mem g) es" "env_valid g \<noteq> 0" using assms(1) by (auto simp: env_inv_def env_mem_valid)
  then have "case map_of es name of
      None \<Rightarrow> getenv name g = Some None
    | Some v \<Rightarrow> \<exists>a. getenv name g = Some (Some a) \<and> is_cstr (env_mem g) a v"
    using getenv_ok assms(2) by blast
  then show ?thesis
    by (cases "map_of es name") (auto simp: env_lookup_def strlen_cstr slice_cstr0 simp del: map_of_eq_None_iff)
qed

lemma env_put_get:
  assumes g: "env_inv g es" and k: "plain_name k" and v: "0 \<notin> set v" and put: "env_put k v g = Some g'"
  shows "env_inv g' (del_var k es @ [(k, v)])"
proof -
  have vs: "0 \<notin> set x" if "x \<in> set [v]" for x using that v by simp
  note p = setenv_put [where vals = "[v]", OF g k _ vs, where cmd = "Some (bytes_of ''setenv'')", simplified]
  obtain rc where "do_setenv_raw [Some (bytes_of ''setenv''), Some k, Some v] g = Some (g', rc)" "rc = 0"
    using put by (auto simp: env_put_def do_setenv_def simp del: bytes_of_Cons split: option.splits if_splits)
  then show ?thesis using p by (simp del: bytes_of_Cons split: if_splits)
qed

lemma env_del_get:
  assumes "env_inv g es" "plain_name k" "env_del k g = Some g'"
  shows "env_inv g' (del_var k es)"
  using setenv_delete_ok [OF assms(1,2), of "Some (bytes_of ''setenv'')"] assms(3)
  by (auto simp: env_del_def do_setenv_def simp del: bytes_of_Cons)

lemma plain_wf: "plain_name k \<Longrightarrow> wf_name k"
  by (simp only: plain_name_def)

lemma map_of_put: "map_of (del_var k es @ [(k, v)]) j = (if j = k then Some v else map_of es j)"
  by (auto simp: map_add_def map_of_del split: option.splits)

interpretation env: env_store env_good env_lookup env_put env_del plain_name "\<lambda>v. 0 \<notin> set v"
proof
  fix s s' k v
  assume "env_good s" and k: "plain_name k" and v: "0 \<notin> set v" and p: "env_put k v s = Some s'"
  then obtain es where es: "env_inv s es" by (auto simp: env_good_def)
  note es' = env_put_get [OF es k v p]
  then have "env_lookup j s' = (if j = k then Some v else env_lookup j s)" if "plain_name j" for j
    using env_lookup_map [OF es' plain_wf [OF that]] env_lookup_map [OF es plain_wf [OF that]]
    by (simp only: map_of_put)
  with es' show "env_good s' \<and> (\<forall>j. plain_name j \<longrightarrow> env_lookup j s' = (if j = k then Some v else env_lookup j s))"
    by (auto simp only: env_good_def)
next
  fix s s' k
  assume "env_good s" and k: "plain_name k" and p: "env_del k s = Some s'"
  then obtain es where es: "env_inv s es" by (auto simp: env_good_def)
  note es' = env_del_get [OF es k p]
  then have "env_lookup j s' = (if j = k then None else env_lookup j s)" if "plain_name j" for j
    using env_lookup_map [OF es' plain_wf [OF that]] env_lookup_map [OF es plain_wf [OF that]]
    by (simp only: map_of_del fun_upd_apply)
  with es' show "env_good s' \<and> (\<forall>j. plain_name j \<longrightarrow> env_lookup j s' = (if j = k then None else env_lookup j s))"
    by (auto simp only: env_good_def)
qed

section \<open>The copying lookup\<close>

lemma copy_out_cstr:
  "is_cstr m a s \<Longrightarrow> n \<le> len \<Longrightarrow> length buf = len \<Longrightarrow>
   copy_out m a len n n buf =
     (if n + length s < len then Some (n + length s + 1, n + length s + 1, blit buf n (s @ [0]))
      else Some (len + 1, len, blit buf n (take (len - n) s)))"
proof (induction s arbitrary: a n buf)
  case Nil
  then show ?case by (subst copy_out.simps) (auto simp: mem_simps)
next
  case (Cons c s)
  then show ?case
    using Cons.IH [of "Suc a" "Suc n" "buf[n := c]"]
    by (subst copy_out.simps) (auto simp: mem_simps take_Cons')
qed

lemma getenv_r_loop_getenv:
  "getenv_r_loop g name i buf len = do {
     r \<leftarrow> getenv_loop g name i;
     case r of
       None \<Rightarrow> Some (-1, buf)
     | Some a \<Rightarrow> do {
         (n, b, buf') \<leftarrow> copy_out (env_mem g) a len 0 0 buf;
         buf'' \<leftarrow> (if len = n then wr buf' b 0 else Some buf');
         Some (int n, buf'') } }"
proof (induction g name i rule: getenv_loop.induct)
  case (1 g name i)
  show ?case
    by (subst getenv_r_loop.simps, subst getenv_loop.simps)
      (auto simp: "1.IH" [simplified] split: Option.bind_splits option.splits)
qed

section \<open>Properties\<close>

text \<open>C21: \<^verbatim>\<open>getenv\<close> on a well-formed environment: NULL for a name that is not defined, and otherwise the
  address of its value, a string in the environment.\<close>

theorem getenv_refines:
  assumes "env_inv g es" "wf_name name"
  shows "case map_of es name of
      None \<Rightarrow> getenv name g = Some None
    | Some v \<Rightarrow> \<exists>a. getenv name g = Some (Some a) \<and> is_cstr (env_data g) a v"
proof -
  have "env_mem g = env_data g" using assms(1) by (simp add: env_inv_def env_mem_valid)
  then show ?thesis using getenv_ok [of g es name] assms unfolding env_inv_def by metis
qed

text \<open>An environment of 32 bytes with \<^verbatim>\<open>a=12\<close> and \<^verbatim>\<open>ethaddr=0\<close>.\<close>

definition sample_vars :: "var list" where
  "sample_vars = [([97], [49, 50]), (bytes_of ''ethaddr'', [48])]"

definition sample_gd :: gd where
  "sample_gd = \<lparr>env_data = enc sample_vars @ replicate 16 0, env_ptr_crc = 0, env_valid = 1,
     default_environment = [0, 0], gd_baudrate = 115200, bi_enetaddr = [], eth_devices = [],
     bi_ip_addr = 0, load_addr = 0, BootFile = replicate 128 0, devlist = [],
     stdio_devices = (\<lambda>_. None), con_input = []\<rparr>"

lemma sample_inv: "env_inv sample_gd sample_vars"
  by (auto simp: env_inv_def sample_gd_def env_ok_def sample_vars_def wf_var_def wf_name_def byte_of_def)

lemma sample_size: "ENV_SIZE sample_gd = 32"
  by (simp add: ENV_SIZE_def sample_gd_def enc_def sample_vars_def)

lemma plain_a: "plain_name [97]"
  by (simp add: plain_name_def wf_name_def)

lemma getenv_refines_witness: "\<exists>a. getenv [97] sample_gd = Some (Some a) \<and> is_cstr (env_data sample_gd) a [49, 50]"
  using getenv_refines [OF sample_inv, of "[97]"] by (simp add: wf_name_def sample_vars_def)

text \<open>C5: \<^verbatim>\<open>setenv\<close> of a plain name with values: if the new list of variables fits, the name's old definition
  is gone, the new one is the last entry with the values joined by spaces, and the stored CRC is that
  of the new data. If it does not fit, the result is 1, the old definition is deleted all the same and
  the CRC field is left as it was.\<close>

theorem setenv_refines:
  assumes "env_inv g es" "plain_name name" "vals \<noteq> []" "\<And>v. v \<in> set vals \<Longrightarrow> 0 \<notin> set v"
  shows "if fits (ENV_SIZE g) (del_var name es @ [(name, join_sp vals)])
    then \<exists>g'. do_setenv (cmd # Some name # map Some vals) g = Some (g', 0) \<and>
      env_inv g' (del_var name es @ [(name, join_sp vals)]) \<and> ENV_SIZE g' = ENV_SIZE g \<and>
      crc32 0 0 (ENV_SIZE g') (env_data g') = Some (env_ptr_crc g')
    else \<exists>g'. do_setenv (cmd # Some name # map Some vals) g = Some (g', 1) \<and>
      env_inv g' (del_var name es) \<and> env_ptr_crc g' = env_ptr_crc g"
  using setenv_put [OF assms, of cmd] by (simp add: do_setenv_def)

lemma setenv_refines_witness:
  "\<exists>g'. do_setenv [None, Some [97], Some [55], Some [56]] sample_gd = Some (g', 0) \<and>
     env_inv g' [(bytes_of ''ethaddr'', [48]), ([97], [55, 32, 56])]"
proof -
  have vs: "0 \<notin> set v" if "v \<in> set [[55], [56 :: u8]]" for v using that by auto
  show ?thesis
    using setenv_refines [where vals = "[[55], [56]]", OF sample_inv plain_a _ vs, where cmd = None]
    by (auto simp: sample_size fits_def del_var_def sample_vars_def)
qed

text \<open>\<^verbatim>\<open>setenv\<close> of a plain name without a value deletes exactly that variable and updates the CRC.\<close>

theorem setenv_deletes:
  assumes "env_inv g es" "plain_name name"
  shows "\<exists>g'. do_setenv [cmd, Some name] g = Some (g', 0) \<and> env_inv g' (del_var name es) \<and>
    ENV_SIZE g' = ENV_SIZE g \<and> crc32 0 0 (ENV_SIZE g') (env_data g') = Some (env_ptr_crc g')"
  using setenv_delete_ok [OF assms, of cmd] by (auto simp: do_setenv_def)

lemma setenv_deletes_witness:
  "\<exists>g'. do_setenv [None, Some [97]] sample_gd = Some (g', 0) \<and> env_inv g' [(bytes_of ''ethaddr'', [48])]"
  using setenv_deletes [OF sample_inv plain_a, of None] by (auto simp: del_var_def sample_vars_def)

text \<open>C30: Any history of successful \<^verbatim>\<open>setenv\<close> commands on plain names: a later lookup gives the value of
  the last command on that name, nothing if that was a deletion, and the old value if there was none.\<close>

theorem setenv_history:
  assumes "env_inv g es" "\<forall>(k, x)\<in>set us. plain_name k \<and> (\<forall>v. x = Some v \<longrightarrow> 0 \<notin> set v)"
    and "env.run_updates us g = Some g'" "plain_name j"
  shows "env_lookup j g' = (case map_of (rev us) j of Some x \<Rightarrow> x | None \<Rightarrow> map_of es j)"
proof -
  have "env_good g" using assms(1) by (auto simp: env_good_def)
  from env.run_updates_get [OF this assms(2,3)] show ?thesis
    using assms(4) env_lookup_map [OF assms(1) plain_wf [OF assms(4)]] by (auto split: option.splits)
qed

lemma setenv_history_witness:
  "\<exists>g'. env.run_updates [([97], Some [55]), ([97], None), ([97], Some [56])] sample_gd = Some g' \<and>
     env_lookup [97] g' = Some [56]"
proof -
  let ?e = "[(bytes_of ''ethaddr'', [48])] :: var list"
  obtain g1 where 1: "env_put [97] [55] sample_gd = Some g1" "env_inv g1 (?e @ [([97], [55])])" "ENV_SIZE g1 = 32"
    using setenv_put [where vals = "[[55]]", OF sample_inv plain_a, where cmd = "Some (bytes_of ''setenv'')"]
    by (auto simp: sample_size fits_def del_var_def sample_vars_def env_put_def do_setenv_def)
  obtain g2 where 2: "env_del [97] g1 = Some g2" "env_inv g2 ?e" "ENV_SIZE g2 = 32"
    using setenv_delete_ok [OF 1(2) plain_a, of "Some (bytes_of ''setenv'')"] 1(3)
    by (auto simp: del_var_def env_del_def do_setenv_def)
  obtain g3 where 3: "env_put [97] [56] g2 = Some g3"
    using setenv_put [where vals = "[[56]]", OF 2(2) plain_a, where cmd = "Some (bytes_of ''setenv'')"] 2(3)
    by (auto simp: fits_def del_var_def env_put_def do_setenv_def)
  have r: "env.run_updates [([97], Some [55]), ([97], None), ([97], Some [56])] sample_gd = Some g3"
    using 1(1) 2(1) 3 by simp
  show ?thesis
    using setenv_history [OF sample_inv _ r plain_a] r plain_a by simp
qed



text \<open>\<^verbatim>\<open>getenv_r\<close> with a buffer of \<open>len\<close> bytes: a value that leaves room for more than its NUL is copied
  and terminated; one that fits exactly makes it store a second NUL behind the buffer; a longer one is
  cut without a terminator, and the result is \<open>len + 1\<close>.\<close>

theorem getenv_r_edges:
  assumes "env_inv g es" "wf_name name" "map_of es name = Some v" "length buf = len"
  shows "(length v + 1 < len \<longrightarrow> (\<exists>buf'. getenv_r name buf len g = Some (int (length v) + 1, buf') \<and> is_cstr buf' 0 v)) \<and>
    (length v + 1 = len \<longrightarrow> getenv_r name buf len g = None) \<and>
    (len \<le> length v \<longrightarrow> getenv_r name buf len g = Some (int len + 1, take len v))"
proof -
  obtain a where a: "getenv name g = Some (Some a)" "is_cstr (env_mem g) a v"
    using getenv_ok [of g es name] assms(1-3) by (auto simp: env_inv_def env_mem_valid)
  have c: "copy_out (env_mem g) a len 0 0 buf =
     (if length v < len then Some (length v + 1, length v + 1, blit buf 0 (v @ [0]))
      else Some (len + 1, len, blit buf 0 (take len v)))"
    using copy_out_cstr [OF a(2), of 0 len buf] assms(4) by simp
  have "is_cstr (blit buf 0 (v @ [0])) 0 v" if "length v + 1 < len"
    using that assms(4) is_cstr_nul_free [OF a(2)] by (intro is_cstr_blit_same) auto
  moreover have "blit buf 0 (take len v) = take len v" if "len \<le> length v"
    using that assms(4) by (simp add: blit_splice min_def)
  ultimately show ?thesis
    using a(1) c assms(4)
    by (auto simp: getenv_r_def getenv_r_loop_getenv getenv_def wr_def)
qed

lemma getenv_r_edges_witness: "getenv_r [97] [0, 0, 0] 3 sample_gd = None"
  using getenv_r_edges [OF sample_inv, of "[97]" "[49, 50]" "[0, 0, 0]" 3]
  by (simp add: wf_name_def sample_vars_def)

text \<open>Deleting a defined \<^verbatim>\<open>baudrate\<close> passes the missing argument to \<^verbatim>\<open>simple_strtoul\<close>: a read through NULL.\<close>

theorem baudrate_delete_faults:
  assumes "env_inv g es" "map_of es (bytes_of ''baudrate'') = Some v"
  shows "do_setenv [cmd, Some (bytes_of ''baudrate'')] g = None"
proof -
  let ?n = "bytes_of ''baudrate''"
  have "wf_name ?n" by (auto simp: wf_name_def byte_of_def)
  then obtain v' env nxt where f: "env_find (env_mem g) ?n 0 0 (-1) = Some (v', env, nxt)" "0 \<le> v'"
    using env_ok_delete [OF _ assms(2), of "env_data g"] assms(1) by (auto simp: env_inv_def env_mem_valid)
  have "setenv_existing ?n [cmd, Some ?n] env nxt g = None"
    by (simp add: setenv_existing_def setenv_console_def setenv_baudrate_def argv_at_def byte_of_def)
  then show ?thesis
    using f by (simp add: do_setenv_def do_setenv_raw_def argv_at_def del: bytes_of_Cons)
qed

lemma baudrate_delete_faults_witness:
  "\<exists>g. do_setenv [None, Some (bytes_of ''baudrate'')] g = None"
proof -
  let ?es = "[(bytes_of ''baudrate'', [49])] :: var list"
  have "env_inv (sample_gd\<lparr>env_data := enc ?es\<rparr>) ?es"
    by (auto simp: env_inv_def sample_gd_def env_ok_def wf_var_def wf_name_def byte_of_def)
  from baudrate_delete_faults [OF this, of "[49]" None] show ?thesis by (auto simp del: bytes_of_Cons)
qed

end
