(* ===== verification/Circbuf.thy ===== *)
theory Circbuf
  imports Prelude
begin

text \<open>
  The circular buffer of \<^verbatim>\<open>common/circbuf.c\<close>. Pointers into the data block are indexes, \<^verbatim>\<open>end\<close> is the
  index \<^verbatim>\<open>totalsize\<close> one past it. The interface \<open>byte_fifo\<close> states what a user sees: a queue of bounded
  capacity that drops its oldest bytes when it is overfull.
\<close>

section \<open>The routines\<close>

record circbuf =
  cb_size :: nat
  totalsize :: nat
  top_ptr :: nat
  tail_ptr :: nat
  cb_data :: mem

text \<open>\<open>block\<close> is the block \<^verbatim>\<open>malloc\<close> returned for \<open>n\<close> bytes.\<close>

definition buf_init :: "mem \<Rightarrow> nat \<Rightarrow> (circbuf \<times> int) option" where
  "buf_init block n =
     (if length block = n
      then Some (\<lparr>cb_size = 0, totalsize = n, top_ptr = 0, tail_ptr = 0, cb_data = block\<rparr>, 1)
      else None)"

definition buf_free :: "circbuf \<Rightarrow> circbuf \<times> int" where
  "buf_free b = (\<lparr>cb_size = 0, totalsize = 0, top_ptr = 0, tail_ptr = 0, cb_data = []\<rparr>, 1)"

fun pop_loop :: "circbuf \<Rightarrow> nat \<Rightarrow> nat \<Rightarrow> nat \<Rightarrow> mem \<Rightarrow> (nat \<times> mem) option" where
  "pop_loop b p i 0 dest = Some (p, dest)"
| "pop_loop b p i (Suc n) dest = do {
     c \<leftarrow> rd (cb_data b) p;
     dest' \<leftarrow> wr dest i c;
     pop_loop b (if Suc p = totalsize b then 0 else Suc p) (Suc i) n dest' }"

definition buf_pop :: "circbuf \<Rightarrow> mem \<Rightarrow> nat \<Rightarrow> (circbuf \<times> mem \<times> nat) option" where
  "buf_pop b dest len0 =
     (let len = (if len0 > cb_size b then cb_size b else len0)
      in do {
        (p, dest') \<leftarrow> pop_loop b (top_ptr b) 0 len dest;
        Some (b\<lparr>top_ptr := p, cb_size := cb_size b - len\<rparr>, dest', len) })"

fun push_loop :: "circbuf \<Rightarrow> nat \<Rightarrow> bytes \<Rightarrow> (circbuf \<times> nat) option" where
  "push_loop b p [] = Some (b, p)"
| "push_loop b p (c # src) = do {
     d \<leftarrow> wr (cb_data b) p c;
     let p' = (if Suc p = totalsize b then 0 else Suc p);
     let b' = (if cb_size b < totalsize b then b\<lparr>cb_data := d, cb_size := cb_size b + 1\<rparr>
               else b\<lparr>cb_data := d, top_ptr := (if Suc (top_ptr b) = totalsize b then 0 else Suc (top_ptr b))\<rparr>);
     push_loop b' p' src }"

definition buf_push :: "circbuf \<Rightarrow> bytes \<Rightarrow> (circbuf \<times> nat) option" where
  "buf_push b src = do {
     (b', p) \<leftarrow> push_loop b (tail_ptr b) src;
     Some (b'\<lparr>tail_ptr := p\<rparr>, length src) }"

section \<open>Contents\<close>

definition buf_inv :: "circbuf \<Rightarrow> bool" where
  "buf_inv b \<longleftrightarrow> 0 < totalsize b \<and> length (cb_data b) = totalsize b \<and> cb_size b \<le> totalsize b \<and>
     top_ptr b < totalsize b \<and> tail_ptr b = (top_ptr b + cb_size b) mod totalsize b"

definition contents :: "circbuf \<Rightarrow> bytes" where
  "contents b = map (\<lambda>i. cb_data b ! ((top_ptr b + i) mod totalsize b)) [0..<cb_size b]"

text \<open>The newest \<open>n\<close> bytes of a list.\<close>

definition newest :: "nat \<Rightarrow> bytes \<Rightarrow> bytes" where
  "newest n xs = drop (length xs - n) xs"

lemma length_contents [simp]: "length (contents b) = cb_size b"
  by (simp add: contents_def)

lemma wrap_Suc: "(k :: nat) < n \<Longrightarrow> (if Suc k = n then 0 else Suc k) = Suc k mod n"
  by auto

lemma newest_newest: "newest n (newest n xs @ ys) = newest n (xs @ ys)"
  by (cases "length xs \<le> n") (auto simp: newest_def add.commute)

text \<open>One byte pushed at the tail.\<close>

definition push_byte :: "circbuf \<Rightarrow> u8 \<Rightarrow> circbuf" where
  "push_byte b c =
     (let b' = b\<lparr>cb_data := (cb_data b)[tail_ptr b := c], tail_ptr := Suc (tail_ptr b) mod totalsize b\<rparr>
      in if cb_size b < totalsize b then b'\<lparr>cb_size := cb_size b + 1\<rparr>
         else b'\<lparr>top_ptr := Suc (top_ptr b) mod totalsize b\<rparr>)"

lemma push_byte_inv: "buf_inv b \<Longrightarrow> buf_inv (push_byte b c)"
  using mod_add_self2 [of "Suc (top_ptr b)" "totalsize b"]
  by (auto simp: buf_inv_def push_byte_def Let_def mod_Suc_eq mod_add_left_eq)

lemma tail_outside:
  assumes "buf_inv b" "i < cb_size b" "cb_size b < totalsize b \<or> 0 < i"
  shows "(top_ptr b + i) mod totalsize b \<noteq> tail_ptr b"
  using assms by (auto simp: buf_inv_def mod_if split: if_splits)

lemma push_byte_contents:
  assumes "buf_inv b"
  shows "contents (push_byte b c) = newest (totalsize b) (contents b @ [c])"
proof (cases "cb_size b < totalsize b")
  case True
  have "contents (push_byte b c) = contents b @ [c]"
    using assms True tail_outside [OF assms]
    by (auto simp: push_byte_def contents_def Let_def intro!: nth_list_update_neq nth_list_update_eq)
       (auto simp: buf_inv_def)
  then show ?thesis using True by (simp add: newest_def)
next
  case False
  then have full: "cb_size b = totalsize b" "tail_ptr b = top_ptr b"
    using assms by (auto simp: buf_inv_def)
  have "contents (push_byte b c) = tl (contents b) @ [c]"
  proof (rule nth_equalityI)
    show "length (contents (push_byte b c)) = length (tl (contents b) @ [c])"
      using full assms by (simp add: push_byte_def Let_def buf_inv_def)
  next
    fix i
    assume "i < length (contents (push_byte b c))"
    then have i: "i < totalsize b" using full by (simp add: push_byte_def Let_def)
    have m: "(Suc (top_ptr b) mod totalsize b + i) mod totalsize b = (top_ptr b + Suc i) mod totalsize b"
      by (simp add: mod_simps)
    have l: "contents (push_byte b c) ! i =
        (cb_data b)[top_ptr b := c] ! ((top_ptr b + Suc i) mod totalsize b)"
      using i full by (simp add: contents_def push_byte_def Let_def m)
    show "contents (push_byte b c) ! i = (tl (contents b) @ [c]) ! i"
    proof (cases "Suc i < totalsize b")
      case True
      then have "(top_ptr b + Suc i) mod totalsize b \<noteq> top_ptr b"
        using tail_outside [OF assms, of "Suc i"] full by simp
      moreover have "i < totalsize b - Suc 0" using True by simp
      ultimately show ?thesis
        using True full unfolding l by (simp add: nth_append nth_tl contents_def)
    next
      case False
      then have "Suc i = totalsize b" using i by simp
      then have "(top_ptr b + Suc i) mod totalsize b = top_ptr b" using assms by (simp add: buf_inv_def)
      then show ?thesis
        using \<open>Suc i = totalsize b\<close> full assms unfolding l by (auto simp: nth_append buf_inv_def)
    qed
  qed
  then show ?thesis using full assms by (simp add: newest_def drop_Suc buf_inv_def Suc_diff_le)
qed

lemma push_loop_bytes:
  "buf_inv b \<Longrightarrow> push_loop (b\<lparr>tail_ptr := t\<rparr>) (tail_ptr b) src =
     Some ((foldl push_byte b src)\<lparr>tail_ptr := t\<rparr>, tail_ptr (foldl push_byte b src))"
proof (induction src arbitrary: b)
  case (Cons c src)
  have "tail_ptr b < totalsize b" "top_ptr b < totalsize b" "tail_ptr b < length (cb_data b)"
    using Cons.prems by (auto simp: buf_inv_def)
  then have "push_loop (b\<lparr>tail_ptr := t\<rparr>) (tail_ptr b) (c # src) =
      push_loop ((push_byte b c)\<lparr>tail_ptr := t\<rparr>) (tail_ptr (push_byte b c)) src"
    by (cases b) (simp add: mem_simps push_byte_def Let_def wrap_Suc)
  then show ?case using Cons.IH [OF push_byte_inv [OF Cons.prems]] by simp
qed simp

lemma buf_push_bytes: "buf_inv b \<Longrightarrow> buf_push b src = Some (foldl push_byte b src, length src)"
  using push_loop_bytes [of b "tail_ptr b" src] by (simp add: buf_push_def)

lemma foldl_push:
  "buf_inv b \<Longrightarrow> buf_inv (foldl push_byte b src) \<and> totalsize (foldl push_byte b src) = totalsize b \<and>
     contents (foldl push_byte b src) = newest (totalsize b) (contents b @ src)"
proof (induction src arbitrary: b)
  case Nil
  then show ?case by (simp add: newest_def buf_inv_def)
next
  case (Cons c src)
  have "totalsize (push_byte b c) = totalsize b" by (simp add: push_byte_def Let_def)
  moreover have "newest (totalsize b) (newest (totalsize b) (contents b @ [c]) @ src)
      = newest (totalsize b) (contents b @ c # src)"
    by (simp add: newest_newest)
  ultimately show ?case
    using Cons.IH [OF push_byte_inv [OF Cons.prems, of c]] push_byte_contents [OF Cons.prems, of c] by simp
qed

text \<open>Taking bytes from the top.\<close>

lemma pop_loop_bytes:
  "buf_inv b \<Longrightarrow> k + n \<le> cb_size b \<Longrightarrow> i + n \<le> length dest \<Longrightarrow>
   pop_loop b ((top_ptr b + k) mod totalsize b) i n dest =
     Some ((top_ptr b + k + n) mod totalsize b, blit dest i (slice (contents b) k n))"
proof (induction n arbitrary: k i dest)
  case (Suc n)
  let ?p = "(top_ptr b + k) mod totalsize b"
  have p: "?p < totalsize b" "?p < length (cb_data b)" using Suc.prems(1) by (auto simp: buf_inv_def)
  have c: "contents b ! k = cb_data b ! ?p" using Suc.prems(2) by (simp add: contents_def)
  have "(if Suc ?p = totalsize b then 0 else Suc ?p) = (top_ptr b + Suc k) mod totalsize b"
    using wrap_Suc [OF p(1)] by (simp add: mod_Suc_eq)
  then show ?case
    using Suc.IH [of "Suc k" "Suc i" "dest[i := cb_data b ! ?p]"] Suc.prems p c
    by (simp add: mem_simps slice_Suc)
qed simp

lemma buf_pop_bytes:
  assumes "buf_inv b" "min n (cb_size b) \<le> length dest"
  shows "\<exists>b'. buf_pop b dest n = Some (b', blit dest 0 (take n (contents b)), min n (cb_size b)) \<and>
    buf_inv b' \<and> totalsize b' = totalsize b \<and> contents b' = drop n (contents b)"
proof -
  let ?len = "min n (cb_size b)"
  let ?b = "b\<lparr>top_ptr := (top_ptr b + ?len) mod totalsize b, cb_size := cb_size b - ?len\<rparr>"
  have l: "(if n > cb_size b then cb_size b else n) = ?len" by simp
  have "slice (contents b) 0 ?len = take n (contents b)" by (simp add: slice_def min_def)
  then have "buf_pop b dest n = Some (?b, blit dest 0 (take n (contents b)), ?len)"
    using pop_loop_bytes [OF assms(1), of 0 ?len 0 dest] assms
    by (simp add: buf_pop_def l Let_def buf_inv_def del: min_less_iff_disj)
  moreover have "((top_ptr b + ?len) mod totalsize b + (cb_size b - ?len)) mod totalsize b
      = (top_ptr b + cb_size b) mod totalsize b"
    by (simp only: mod_add_left_eq add.assoc) simp
  then have "buf_inv ?b" using assms(1) by (simp only: buf_inv_def circbuf.simps) auto
  moreover have "contents ?b = drop n (contents b)"
    by (rule nth_equalityI) (auto simp: contents_def mod_simps ac_simps min_def)
  ultimately show ?thesis by (intro exI [of _ ?b]) simp
qed

section \<open>The queue interface\<close>

text \<open>A bounded queue of bytes: pushing appends and keeps the newest, popping takes the oldest.\<close>

locale byte_fifo =
  fixes inv :: "'q \<Rightarrow> bool" and items :: "'q \<Rightarrow> bytes" and cap :: "'q \<Rightarrow> nat"
    and push :: "'q \<Rightarrow> bytes \<Rightarrow> 'q option" and pop :: "'q \<Rightarrow> nat \<Rightarrow> ('q \<times> bytes) option"
  assumes push_items: "inv q \<Longrightarrow> \<exists>q'. push q xs = Some q' \<and> inv q' \<and> cap q' = cap q \<and>
      items q' = newest (cap q) (items q @ xs)"
    and pop_items: "inv q \<Longrightarrow> \<exists>q'. pop q n = Some (q', take n (items q)) \<and> inv q' \<and> cap q' = cap q \<and>
      items q' = drop n (items q)"
begin

text \<open>Bytes that fit come out in the order they went in.\<close>

lemma fifo:
  assumes "inv q" "length (items q @ xs) \<le> cap q"
  shows "\<exists>q1 q2. push q xs = Some q1 \<and> pop q1 (length (items q @ xs)) = Some (q2, items q @ xs) \<and>
    inv q2 \<and> items q2 = []"
proof -
  obtain q1 where 1: "push q xs = Some q1" "inv q1" "items q1 = items q @ xs"
    using push_items [OF assms(1), of xs] assms(2) by (auto simp: newest_def)
  then show ?thesis using pop_items [OF 1(2), of "length (items q @ xs)"] by auto
qed

text \<open>Pushing in pieces is pushing at once.\<close>

lemma push_twice:
  assumes "inv q"
  shows "\<exists>q1 q2 q3. push q xs = Some q1 \<and> push q1 ys = Some q2 \<and> push q (xs @ ys) = Some q3 \<and>
    items q2 = items q3"
proof -
  obtain q1 where 1: "push q xs = Some q1" "inv q1" "cap q1 = cap q" "items q1 = newest (cap q) (items q @ xs)"
    using push_items [OF assms] by blast
  obtain q2 where 2: "push q1 ys = Some q2" "items q2 = newest (cap q) (items q1 @ ys)"
    using push_items [OF 1(2), of ys] 1(3) by auto
  obtain q3 where 3: "push q (xs @ ys) = Some q3" "items q3 = newest (cap q) (items q @ xs @ ys)"
    using push_items [OF assms, of "xs @ ys"] by auto
  show ?thesis using 1 2 3 by (simp add: newest_newest)
qed

end

interpretation ring: byte_fifo buf_inv contents totalsize "\<lambda>b xs. map_option fst (buf_push b xs)"
  "\<lambda>b n. map_option (\<lambda>(b', d, k). (b', take k d)) (buf_pop b (replicate (cb_size b) 0) n)"
proof
  fix b xs n
  assume b: "buf_inv b"
  show "\<exists>b'. map_option fst (buf_push b xs) = Some b' \<and> buf_inv b' \<and> totalsize b' = totalsize b \<and>
      contents b' = newest (totalsize b) (contents b @ xs)"
    using buf_push_bytes [OF b] foldl_push [OF b] by simp
  show "\<exists>b'. map_option (\<lambda>(b', d, k). (b', take k d)) (buf_pop b (replicate (cb_size b) 0) n) =
        Some (b', take n (contents b)) \<and> buf_inv b' \<and> totalsize b' = totalsize b \<and> contents b' = drop n (contents b)"
    using buf_pop_bytes [OF b, of n "replicate (cb_size b) 0"]
    by (cases "n \<le> cb_size b") (auto simp: blit_splice)
qed

section \<open>Properties\<close>

text \<open>C33: \<^verbatim>\<open>buf_push\<close> keeps the invariant of the buffer and leaves the newest bytes of what was held and what
  was pushed, as many as the buffer has room for.\<close>

theorem buf_push_newest:
  assumes "buf_inv b"
  shows "\<exists>b'. buf_push b src = Some (b', length src) \<and> buf_inv b' \<and>
    contents b' = newest (totalsize b) (contents b @ src)"
  using buf_push_bytes [OF assms] foldl_push [OF assms] by simp

definition sample_ring :: circbuf where
  "sample_ring = \<lparr>cb_size = 2, totalsize = 3, top_ptr = 2, tail_ptr = 1, cb_data = [8, 0, 7]\<rparr>"

lemma sample_ring_inv: "buf_inv sample_ring" "contents sample_ring = [7, 8]"
  by (simp_all add: sample_ring_def buf_inv_def contents_def numeral_2_eq_2)

lemma buf_push_newest_witness:
  "\<exists>b'. buf_push sample_ring [1, 2] = Some (b', 2) \<and> contents b' = [8, 1, 2]"
  using buf_push_newest [OF sample_ring_inv(1), of "[1, 2]"]
  by (auto simp: sample_ring_inv(2) newest_def) (simp add: sample_ring_def)

text \<open>What was pushed into a buffer with room for it is popped in order, after what it held before.\<close>

theorem buf_fifo:
  assumes "buf_inv b" "length (contents b @ src) \<le> totalsize b" "length dest = length (contents b @ src)"
  shows "\<exists>b1 b2. buf_push b src = Some (b1, length src) \<and>
    buf_pop b1 dest (length dest) = Some (b2, contents b @ src, length dest) \<and> contents b2 = []"
proof -
  obtain b1 where b1: "buf_push b src = Some (b1, length src)" "buf_inv b1" "contents b1 = contents b @ src"
    using buf_push_bytes [OF assms(1)] foldl_push [OF assms(1), of src] assms(2) by (auto simp: newest_def)
  have "cb_size b1 = length dest" using arg_cong [OF b1(3), of length] assms(3) by simp
  then show ?thesis
    using buf_pop_bytes [OF b1(2), of "length dest" dest] b1 assms(3) by (auto simp: blit_splice)
qed

lemma buf_fifo_witness:
  "\<exists>b1 b2. buf_push sample_ring [1] = Some (b1, 1) \<and> buf_pop b1 [0, 0, 0] 3 = Some (b2, [7, 8, 1], 3)"
  using buf_fifo [OF sample_ring_inv(1), of "[1]" "[0, 0, 0]"] sample_ring_inv(2)
  by (auto simp: sample_ring_def numeral_3_eq_3)

end
