(* ===== verification/Command.thy ===== *)
theory Command
  imports CStringProps Env
begin

text \<open>
  The command table and the built-in commands of \<^verbatim>\<open>common/command.c\<close>: lookup with abbreviations, \<^verbatim>\<open>echo\<close>,
  \<^verbatim>\<open>test\<close>, \<^verbatim>\<open>exit\<close>, \<^verbatim>\<open>help\<close> with its bubble sort, and command completion. Strings that are only read are
  byte lists without their terminator; a pointer to a table entry is its index; what is printed is
  returned.
\<close>

section \<open>Strings as lists\<close>

text \<open>The value of the MIPS \<^verbatim>\<open>strcmp\<close> and \<^verbatim>\<open>strncmp\<close> on two strings.\<close>

definition str_cmp :: "bytes \<Rightarrow> bytes \<Rightarrow> int" where
  "str_cmp s t = lex_diff (\<lambda>a b. uint a - uint b) s t"

definition str_ncmp :: "bytes \<Rightarrow> bytes \<Rightarrow> nat \<Rightarrow> int" where
  "str_ncmp s t n = str_cmp (take n s) (take n t)"

text \<open>\<^verbatim>\<open>simple_strtol\<close> in base ten on a string.\<close>

definition str_tol :: "bytes \<Rightarrow> int option" where
  "str_tol s = map_option fst (simple_strtol 0 10 (s @ [0]))"

text \<open>The string at an address.\<close>

definition str_at :: "mem \<Rightarrow> addr \<Rightarrow> bytes option" where
  "str_at m p = do { n \<leftarrow> strlen p m; Some (slice m p n) }"

section \<open>The command table\<close>

datatype completer = Var_complete

record cmd_tbl =
  cmd_name :: bytes
  maxargs :: int
  repeatable :: int
  cmd :: nat                    \<comment> \<open>the address of the routine\<close>
  usage_text :: "bytes option"
  help_text :: "bytes option"
  complete :: "completer option"

definition CFG_CBSIZE :: nat where "CFG_CBSIZE = 512"
definition CFG_MAXARGS :: nat where "CFG_MAXARGS = 16"
definition CFG_PROMPT :: bytes where "CFG_PROMPT = bytes_of ''ar7240> ''"

text \<open>The part of a command that is looked up, up to the first dot.\<close>

definition cmd_len :: "bytes \<Rightarrow> nat" where
  "cmd_len c = length (takeWhile (\<lambda>x. x \<noteq> byte_of (CHR ''.'')) c)"

fun find_cmd_loop :: "bytes \<Rightarrow> nat \<Rightarrow> cmd_tbl list \<Rightarrow> nat \<Rightarrow> nat \<Rightarrow> nat \<Rightarrow> nat option" where
  "find_cmd_loop c len [] i cmdtp_temp n_found = (if n_found = 1 then Some cmdtp_temp else None)"
| "find_cmd_loop c len (t # ts) i cmdtp_temp n_found =
     (if str_ncmp c (cmd_name t) len = 0 then
        if len = length (cmd_name t) then Some i
        else find_cmd_loop c len ts (i + 1) i (n_found + 1)
      else find_cmd_loop c len ts (i + 1) cmdtp_temp n_found)"

definition find_cmd :: "cmd_tbl list \<Rightarrow> bytes \<Rightarrow> nat option" where
  "find_cmd tbl c = find_cmd_loop c (cmd_len c) tbl 0 0 0"

section \<open>Commands\<close>

definition do_version :: "bytes \<Rightarrow> bytes \<times> int" where
  "do_version version_string = ([10] @ version_string @ [10], 0)"

text \<open>One argument of \<^verbatim>\<open>echo\<close>: what is printed, and whether the newline is still wanted.\<close>

fun echo_arg :: "bytes \<Rightarrow> int \<Rightarrow> bytes \<times> int" where
  "echo_arg [] putnl = ([], putnl)"
| "echo_arg (c # p) putnl =
     (if c = byte_of (CHR 0x5C) \<and> p \<noteq> [] \<and> hd p = byte_of (CHR ''c'') then echo_arg (tl p) 0
      else let (out, nl) = echo_arg p putnl in (c # out, nl))"

fun echo_args :: "nat \<Rightarrow> bytes list \<Rightarrow> int \<Rightarrow> bytes \<times> int" where
  "echo_args i [] putnl = ([], putnl)"
| "echo_args i (p # ps) putnl =
     (let sp = (if i > 1 then [32] else []);
          (out, nl) = echo_arg p putnl;
          (out', nl') = echo_args (i + 1) ps nl
      in (sp @ out @ out', nl'))"

definition do_echo :: "bytes list \<Rightarrow> bytes \<times> int" where
  "do_echo argv = (let (out, putnl) = echo_args 1 (tl argv) 1 in (out @ (if putnl \<noteq> 0 then [10] else []), 0))"

text \<open>\<^verbatim>\<open>test\<close>: a binary operator, \<open>None\<close> where \<^verbatim>\<open>do_test\<close> knows no such operator; its fault is the outer option.\<close>

definition test_op :: "bytes \<Rightarrow> bytes \<Rightarrow> bytes \<Rightarrow> bool option option" where
  "test_op a opr b =
     (if str_cmp opr (bytes_of ''='') = 0 then Some (Some (str_cmp a b = 0))
      else if str_cmp opr (bytes_of ''!='') = 0 then Some (Some (str_cmp a b \<noteq> 0))
      else if str_cmp opr (bytes_of ''>'') = 0 then Some (Some (str_cmp a b > 0))
      else if str_cmp opr (bytes_of ''<'') = 0 then Some (Some (str_cmp a b < 0))
      else if str_cmp opr (bytes_of ''-eq'') = 0 then do { x \<leftarrow> str_tol a; y \<leftarrow> str_tol b; Some (Some (x = y)) }
      else if str_cmp opr (bytes_of ''-ne'') = 0 then do { x \<leftarrow> str_tol a; y \<leftarrow> str_tol b; Some (Some (x \<noteq> y)) }
      else if str_cmp opr (bytes_of ''-lt'') = 0 then do { x \<leftarrow> str_tol a; y \<leftarrow> str_tol b; Some (Some (x < y)) }
      else if str_cmp opr (bytes_of ''-le'') = 0 then do { x \<leftarrow> str_tol a; y \<leftarrow> str_tol b; Some (Some (x \<le> y)) }
      else if str_cmp opr (bytes_of ''-gt'') = 0 then do { x \<leftarrow> str_tol a; y \<leftarrow> str_tol b; Some (Some (x > y)) }
      else if str_cmp opr (bytes_of ''-ge'') = 0 then do { x \<leftarrow> str_tol a; y \<leftarrow> str_tol b; Some (Some (x \<ge> y)) }
      else Some None)"

text \<open>How a new value is joined with the last one.\<close>

definition test_join :: "int \<Rightarrow> int \<Rightarrow> int \<Rightarrow> int" where
  "test_join last_cmp last_expr expr =
     (if last_cmp = 0 then c_bool (last_expr \<noteq> 0 \<or> expr \<noteq> 0)
      else if last_cmp = 1 then c_bool (last_expr \<noteq> 0 \<and> expr \<noteq> 0)
      else expr)"

text \<open>The loop of \<^verbatim>\<open>do_test\<close>; \<open>ap\<close> holds the \<^verbatim>\<open>left\<close> remaining arguments.\<close>

fun test_loop :: "bytes list \<Rightarrow> int \<Rightarrow> int \<Rightarrow> int \<Rightarrow> int option" where
  "test_loop [] expr last_expr last_cmp = Some expr"
| "test_loop (a # ap) expr last_expr last_cmp =
     (if str_cmp a (bytes_of ''-o'') = 0 then test_loop ap expr expr 0
      else if str_cmp a (bytes_of ''-a'') = 0 then test_loop ap expr expr 1
      else if str_cmp a (bytes_of ''-z'') = 0 \<or> str_cmp a (bytes_of ''-n'') = 0 then
        (case ap of
           [] \<Rightarrow> Some 1
         | b # ap' \<Rightarrow>
             test_loop ap'
               (test_join last_cmp last_expr
                  (c_bool (if str_cmp a (bytes_of ''-z'') = 0 then length b = 0 else length b \<noteq> 0)))
               last_expr (-1))
      else
        (case ap of
           opr # b # ap' \<Rightarrow> do {
             r \<leftarrow> test_op a opr b;
             case r of
               None \<Rightarrow> Some 1
             | Some v \<Rightarrow> test_loop ap' (test_join last_cmp last_expr (c_bool v)) last_expr (-1) }
         | _ \<Rightarrow> Some 1))"

definition do_test :: "bytes list \<Rightarrow> int option" where
  "do_test argv =
     (if length argv < 3 then Some 1
      else let neg = str_cmp (argv ! 1) (bytes_of ''!'') = 0;
               ap = (if neg then drop 2 argv else drop 1 argv)
           in do {
             expr \<leftarrow> test_loop ap (-1) (-1) (-1);
             let expr' = (if neg then c_bool (expr = 0) else expr);
             Some (c_bool (expr' = 0)) })"

definition do_exit :: "bytes list \<Rightarrow> int option" where
  "do_exit argv = do {
     r \<leftarrow> (if length argv > 1 then map_option (\<lambda>(v, e). sint v) (str_toul (argv ! 1) 10) else Some 0);
     Some (sint (word_of_int (- r - 2) :: u32)) }"

section \<open>Help\<close>

text \<open>One pass of the bubble sort: \<open>k\<close> comparisons from \<open>j\<close> on, counting the swaps.\<close>

fun bubble_pass :: "nat \<Rightarrow> nat \<Rightarrow> cmd_tbl list \<Rightarrow> nat \<Rightarrow> cmd_tbl list \<times> nat" where
  "bubble_pass j 0 arr swaps = (arr, swaps)"
| "bubble_pass j (Suc k) arr swaps =
     (if str_cmp (cmd_name (arr ! j)) (cmd_name (arr ! (j + 1))) > 0
      then bubble_pass (j + 1) k (arr[j := arr ! (j + 1), j + 1 := arr ! j]) (swaps + 1)
      else bubble_pass (j + 1) k arr swaps)"

fun bubble_sort :: "nat \<Rightarrow> cmd_tbl list \<Rightarrow> cmd_tbl list" where
  "bubble_sort 0 arr = arr"
| "bubble_sort (Suc i) arr =
     (let (arr', swaps) = bubble_pass 0 (Suc i) arr 0
      in if swaps = 0 then arr' else bubble_sort i arr')"

fun help_usages :: "cmd_tbl list \<Rightarrow> nat \<Rightarrow> (nat \<Rightarrow> bool) \<Rightarrow> bytes \<Rightarrow> bytes \<times> int" where
  "help_usages [] k ctrlc con = (con, 0)"
| "help_usages (t # ts) k ctrlc con =
     (if ctrlc k then (con, 1)
      else case usage_text t of
        None \<Rightarrow> help_usages ts (k + 1) ctrlc con
      | Some u \<Rightarrow> help_usages ts (k + 1) ctrlc (con @ u))"

fun help_args :: "cmd_tbl list \<Rightarrow> bytes list \<Rightarrow> bytes \<Rightarrow> int \<Rightarrow> bytes \<times> int" where
  "help_args tbl [] con rcode = (con, rcode)"
| "help_args tbl (a # as) con rcode =
     (case find_cmd tbl a of
        Some i \<Rightarrow>
          (let t = tbl ! i in
           case help_text t of
             Some h \<Rightarrow> help_args tbl as (con @ cmd_name t @ [32] @ h @ [10]) rcode
           | None \<Rightarrow> help_args tbl as
               (con @ cmd_name t @ [32] @ bytes_of ''- No help available.'' @ [10] @ [10]) 1)
      | None \<Rightarrow> help_args tbl as
          (con @ bytes_of ''Unknown command '' @ [39] @ a @ [39] @ bytes_of '' - try '' @ [39] @ bytes_of ''help'' @ [39] @
           bytes_of '' without arguments for list of all known commands'' @ [10, 10]) 1)"

definition do_help :: "cmd_tbl list \<Rightarrow> (nat \<Rightarrow> bool) \<Rightarrow> bytes list \<Rightarrow> bytes \<times> int" where
  "do_help tbl ctrlc argv =
     (if length argv = 1 then help_usages (bubble_sort (length tbl - 1) tbl) 0 ctrlc []
      else help_args tbl (tl argv) [] 0)"

section \<open>Completion\<close>

definition is_space_char :: "u8 \<Rightarrow> bool" where
  "is_space_char c \<longleftrightarrow> c = 32 \<or> c = 9"

definition cand_str :: "mem \<Rightarrow> candidate \<Rightarrow> bytes option" where
  "cand_str buf c = (case c of Name p \<Rightarrow> str_at buf p | Dots \<Rightarrow> Some (bytes_of ''...''))"

fun cand_strs :: "mem \<Rightarrow> candidate list \<Rightarrow> bytes list option" where
  "cand_strs buf [] = Some []"
| "cand_strs buf (c # cs) = do { s \<leftarrow> cand_str buf c; ss \<leftarrow> cand_strs buf cs; Some (s # ss) }"

text \<open>\<^verbatim>\<open>var_complete\<close> with its static buffer of 512 bytes: the number of candidates and their strings.\<close>

definition var_complete :: "gd \<Rightarrow> mem \<Rightarrow> bytes list \<Rightarrow> u8 \<Rightarrow> int \<Rightarrow> (int \<times> bytes list) option" where
  "var_complete g tmp_buf argv last_char maxv =
     (let space = last_char = 0 \<or> is_space_char last_char;
          run = (\<lambda>var. do {
            (cs, buf) \<leftarrow> env_complete var maxv (int (length tmp_buf)) tmp_buf g;
            ss \<leftarrow> cand_strs buf cs;
            Some (int (length cs), ss) })
      in if space \<and> length argv = 1 then run []
         else if \<not> space \<and> length argv = 2 then run (argv ! 1)
         else Some (0, []))"

definition install_auto_complete_handler :: "bytes \<Rightarrow> completer \<Rightarrow> cmd_tbl list \<Rightarrow> cmd_tbl list" where
  "install_auto_complete_handler c f tbl =
     (case find_cmd tbl c of None \<Rightarrow> tbl | Some i \<Rightarrow> tbl[i := (tbl ! i)\<lparr>complete := Some f\<rparr>])"

definition install_auto_complete :: "cmd_tbl list \<Rightarrow> cmd_tbl list" where
  "install_auto_complete tbl =
     install_auto_complete_handler (bytes_of ''run'') Var_complete
       (install_auto_complete_handler (bytes_of ''setenv'') Var_complete
         (install_auto_complete_handler (bytes_of ''printenv'') Var_complete tbl))"

fun all_commands :: "cmd_tbl list \<Rightarrow> int \<Rightarrow> bytes list \<Rightarrow> bytes list" where
  "all_commands [] maxv cmdv = cmdv"
| "all_commands (t # ts) maxv cmdv =
     (if int (length cmdv) \<ge> maxv - 2 then cmdv @ [bytes_of ''...'']
      else all_commands ts maxv (cmdv @ [cmd_name t]))"

text \<open>The memory comparison reads \<open>len\<close> bytes of both strings, which the length test allows.\<close>

fun partial_matches :: "cmd_tbl list \<Rightarrow> bytes \<Rightarrow> nat \<Rightarrow> int \<Rightarrow> bytes list \<Rightarrow> bytes list" where
  "partial_matches [] c len maxv cmdv = cmdv"
| "partial_matches (t # ts) c len maxv cmdv =
     (if length (cmd_name t) < len then partial_matches ts c len maxv cmdv
      else if take len c \<noteq> take len (cmd_name t) then partial_matches ts c len maxv cmdv
      else if int (length cmdv) \<ge> maxv - 2 then cmdv @ [bytes_of ''...'']
      else partial_matches ts c len maxv (cmdv @ [cmd_name t]))"

definition complete_cmdv :: "cmd_tbl list \<Rightarrow> gd \<Rightarrow> mem \<Rightarrow> bytes list \<Rightarrow> u8 \<Rightarrow> int \<Rightarrow> (int \<times> bytes list) option" where
  "complete_cmdv tbl g vbuf argv last_char maxv =
     (if maxv < 2 then Some (-2, [])
      else if argv = [] then
        (let cmdv = all_commands tbl maxv [] in Some (int (length cmdv), cmdv))
      else if length argv > 1 \<or> last_char = 0 \<or> is_space_char last_char then
        (case find_cmd tbl (argv ! 0) of
           None \<Rightarrow> Some (0, [])
         | Some i \<Rightarrow> (case complete (tbl ! i) of
             None \<Rightarrow> Some (0, [])
           | Some Var_complete \<Rightarrow> var_complete g vbuf argv last_char maxv))
      else
        (let c = argv ! 0; cmdv = partial_matches tbl c (cmd_len c) maxv []
         in Some (int (length cmdv), cmdv)))"

text \<open>White space and words in memory.\<close>

function skip_white :: "mem \<Rightarrow> addr \<Rightarrow> addr option" where
  "skip_white m s = do { c \<leftarrow> rd m s; if is_space_char c then skip_white m (Suc s) else Some s }"
  by pat_completeness auto
termination by (relation "measure (\<lambda>(m, s). length m - s)") auto

function skip_word :: "mem \<Rightarrow> addr \<Rightarrow> addr option" where
  "skip_word m s = do { c \<leftarrow> rd m s; if c \<noteq> 0 \<and> \<not> is_space_char c then skip_word m (Suc s) else Some s }"
  by pat_completeness auto
termination by (relation "measure (\<lambda>(m, s). length m - s)") auto

declare skip_white.simps [simp del] skip_word.simps [simp del]

text \<open>The loop of \<^verbatim>\<open>make_argv\<close> for \<open>k\<close> more arguments: their addresses, and the memory with the words closed.\<close>

fun make_argv_loop :: "nat \<Rightarrow> mem \<Rightarrow> addr \<Rightarrow> (addr list \<times> mem) option" where
  "make_argv_loop 0 m s = Some ([], m)"
| "make_argv_loop (Suc k) m s = do {
     b \<leftarrow> skip_white m s;
     c \<leftarrow> rd m b;
     if c = 0 then Some ([], m)
     else do {
       e \<leftarrow> skip_word m b;
       d \<leftarrow> rd m e;
       if d = 0 then Some ([b], m)
       else do {
         m' \<leftarrow> wr m e 0;
         (ps, m'') \<leftarrow> make_argv_loop k m' (Suc e);
         Some (b # ps, m'') } } }"

definition make_argv :: "mem \<Rightarrow> addr \<Rightarrow> nat \<Rightarrow> (addr list \<times> mem) option" where
  "make_argv m s argvsz = make_argv_loop (argvsz - 1) m s"

fun print_argv_loop :: "bytes option \<Rightarrow> bytes option \<Rightarrow> int \<Rightarrow> int \<Rightarrow> bytes list \<Rightarrow> bytes" where
  "print_argv_loop leader sep linemax i [] = [10]"
| "print_argv_loop leader sep linemax i (a # as) =
     (let sl = (case sep of None \<Rightarrow> 0 | Some s \<Rightarrow> int (length s));
          ll = (case leader of None \<Rightarrow> 0 | Some l \<Rightarrow> int (length l));
          len = int (length a) + sl
      in if i + len \<ge> linemax
         then [10] @ (case leader of None \<Rightarrow> [] | Some l \<Rightarrow> l) @ a @ print_argv_loop leader sep linemax (ll - sl + len) as
         else (case sep of None \<Rightarrow> [] | Some s \<Rightarrow> s) @ a @ print_argv_loop leader sep linemax (i + len) as)"

definition print_argv :: "bytes option \<Rightarrow> bytes option \<Rightarrow> bytes option \<Rightarrow> int \<Rightarrow> bytes list \<Rightarrow> bytes" where
  "print_argv banner leader sep linemax argv =
     (case banner of None \<Rightarrow> [] | Some b \<Rightarrow> [10] @ b) @ print_argv_loop leader sep linemax linemax argv"

text \<open>\<open>common_len s t i len\<close> goes on from place \<open>i\<close> of the anchor \<open>s\<close> and the string \<open>t\<close> with its terminator.\<close>

fun common_len :: "bytes \<Rightarrow> bytes \<Rightarrow> nat \<Rightarrow> nat" where
  "common_len (x # s) (y # t) (Suc len) = (if y \<noteq> x then 0 else Suc (common_len s t len))"
| "common_len s t len = 0"

fun prefix_loop :: "bytes \<Rightarrow> bytes list \<Rightarrow> nat \<Rightarrow> nat" where
  "prefix_loop anchor [] len = len"
| "prefix_loop anchor (t # argv) len = prefix_loop anchor argv (common_len anchor (t @ [0]) len)"

definition find_common_prefix :: "bytes list \<Rightarrow> nat" where
  "find_common_prefix argv =
     (case argv of [] \<Rightarrow> 0 | anchor # rest \<Rightarrow> prefix_loop anchor rest (length anchor))"

record line_state =
  ls_buf :: mem
  ls_n :: int
  ls_col :: int

text \<open>The completion \<open>bs\<close> is put behind the \<open>cnt\<close> characters of the line, if it fits.\<close>

definition put_completion :: "line_state \<Rightarrow> nat \<Rightarrow> bytes \<Rightarrow> bool \<Rightarrow> (line_state \<times> bytes \<times> int) option" where
  "put_completion st cnt bs sep =
     (if ls_n st + int (length bs) \<ge> int CFG_CBSIZE - 2 then Some (st, [7], 1)
      else if cnt + length bs < length (ls_buf st)
        then Some (st\<lparr>ls_buf := blit (ls_buf st) cnt (bs @ [0]), ls_n := ls_n st + int (length bs),
                     ls_col := ls_col st + int (length bs)\<rparr>, bs @ (if sep then [] else [7]), 1)
        else None)"

text \<open>
  With one candidate the rest of its name is inserted; a word longer than the name (\<^verbatim>\<open>cp.b\<close> for \<^verbatim>\<open>cp\<close>) makes
  the code read behind the name. An empty line has no last word.
\<close>

definition cmd_auto_complete :: "cmd_tbl list \<Rightarrow> gd \<Rightarrow> mem \<Rightarrow> bytes \<Rightarrow> line_state
    \<Rightarrow> (line_state \<times> bytes \<times> int) option" where
  "cmd_auto_complete tbl g vbuf prompt st =
     (if str_cmp prompt CFG_PROMPT \<noteq> 0 then Some (st, [], 0)
      else do {
        buf \<leftarrow> str_at (ls_buf st) 0;
        let cnt = length buf;
        let last_char = (if cnt \<ge> 1 then buf ! (cnt - 1) else 0);
        (ps, tmp) \<leftarrow> make_argv (buf @ [0]) 0 (CFG_MAXARGS + 1);
        argv \<leftarrow> cand_strs tmp (map Name ps);
        (i, cmdv) \<leftarrow> complete_cmdv tbl g vbuf argv last_char 20;
        if i = 0 then (if length argv > 1 then Some (st, [], 0) else Some (st, [7], 1))
        else do {
          ins \<leftarrow>
            (if i = 1 then
               (if argv = [] then None
                else if length (cmdv ! 0) < length (last argv) then None
                else Some (Some (drop (length (last argv)) (cmdv ! 0) @ [32], True)))
             else if i > 1 \<and> find_common_prefix cmdv \<noteq> 0 then
               (if argv = [] then None
                else let k = length (last argv); j = int (find_common_prefix cmdv) - int k
                     in if j > 0 then Some (Some (take (nat j) (drop k (cmdv ! 0)), False)) else Some None)
             else Some None);
          (case ins of
             Some (bs, sep) \<Rightarrow> put_completion st cnt bs sep
           | None \<Rightarrow> Some (st, print_argv None (Some [32, 32]) (Some [32]) 78 cmdv @ prompt @ buf, 1)) } })"

end
