(* ===== verification/Parser.thy ===== *)
theory Parser
  imports Command
begin

text \<open>
  The command interpreter of \<^verbatim>\<open>common/main.c\<close>: line editing (\<^verbatim>\<open>readline\<close>), word splitting, macro expansion,
  \<^verbatim>\<open>run_command\<close>, \<^verbatim>\<open>run\<close>, the monitor loop, and the countdown before booting. The state the commands work on
  is \<open>sys\<close>, which the state of the commands extends; the routines of the command table are an argument \<open>call\<close>, which gives the new state and the
  exit code, or \<open>None\<close> where the routine faults.
\<close>

section \<open>State\<close>

record sys =
  sys_gd :: gd
  console :: bytes
  ctrlc_was_pressed :: bool

type_synonym 'x routine = "cmd_tbl \<Rightarrow> int \<Rightarrow> bytes list \<Rightarrow> 'x sys_scheme \<Rightarrow> ('x sys_scheme \<times> int) option"

definition puts :: "bytes \<Rightarrow> 'x sys_scheme \<Rightarrow> 'x sys_scheme" where
  "puts s st = st\<lparr>console := console st @ s\<rparr>"

text \<open>\<^verbatim>\<open>getenv\<close>, read as a string; the outer option is its fault.\<close>

definition env_value :: "gd \<Rightarrow> bytes \<Rightarrow> bytes option option" where
  "env_value g name = do {
     r \<leftarrow> getenv name g;
     case r of None \<Rightarrow> Some None | Some p \<Rightarrow> do { s \<leftarrow> str_at (env_mem g) p; Some (Some s) } }"

section \<open>Splitting a line\<close>

text \<open>
  The loop of \<^verbatim>\<open>parse_line\<close> for \<open>k\<close> more arguments gives the cells of \<^verbatim>\<open>argv\<close> it writes. The closing NULL
  is written when the line ends, not when the arguments are full.
\<close>

fun parse_line_loop :: "nat \<Rightarrow> mem \<Rightarrow> addr \<Rightarrow> (addr option list \<times> mem) option" where
  "parse_line_loop 0 m line = Some ([], m)"
| "parse_line_loop (Suc k) m line = do {
     b \<leftarrow> skip_white m line;
     c \<leftarrow> rd m b;
     if c = 0 then Some ([None], m)
     else do {
       e \<leftarrow> skip_word m b;
       d \<leftarrow> rd m e;
       if d = 0 then Some ([Some b, None], m)
       else do {
         m' \<leftarrow> wr m e 0;
         (cells, m'') \<leftarrow> parse_line_loop k m' (Suc e);
         Some (Some b # cells, m'') } } }"

definition too_many :: bytes where
  "too_many = bytes_of ''** Too many args (max. 16) **'' @ [10]"

text \<open>The arguments, the cells of \<^verbatim>\<open>argv\<close>, the memory, and what is printed.\<close>

definition parse_line :: "mem \<Rightarrow> addr \<Rightarrow> (addr list \<times> addr option list \<times> mem \<times> bytes) option" where
  "parse_line m line = do {
     (cells, m') \<leftarrow> parse_line_loop CFG_MAXARGS m line;
     Some (map the (filter (\<lambda>x. x \<noteq> None) cells), cells, m', if None \<in> set cells then [] else too_many) }"

section \<open>Macros\<close>

record macro_state =
  pm_state :: nat
  pm_name :: bytes        \<comment> \<open>the characters of the input since \<open>varname_start\<close>\<close>
  pm_out :: bytes
  pm_outputcnt :: nat

definition pm_put :: "u8 \<Rightarrow> macro_state \<Rightarrow> macro_state" where
  "pm_put c pm = pm\<lparr>pm_out := pm_out pm @ [c], pm_outputcnt := pm_outputcnt pm - 1\<rparr>"

text \<open>
  The \<^verbatim>\<open>switch\<close> on the state, for the character \<open>c\<close>; \<open>esc\<close> is the backslash that was removed before it, if
  any. \<open>genv\<close> is \<^verbatim>\<open>getenv\<close>.
\<close>

definition pm_step :: "(bytes \<Rightarrow> bytes option option) \<Rightarrow> bytes \<Rightarrow> u8 \<Rightarrow> u8 \<Rightarrow> macro_state \<Rightarrow> macro_state option" where
  "pm_step genv esc c prev pm =
     (if pm_state pm = 0 then
        (if c = byte_of (CHR 0x27) \<and> prev \<noteq> byte_of (CHR 0x5C) then Some (pm\<lparr>pm_state := 3\<rparr>)
         else if c = byte_of (CHR ''$'') \<and> prev \<noteq> byte_of (CHR 0x5C) then Some (pm\<lparr>pm_state := 1\<rparr>)
         else Some (pm_put c pm))
      else if pm_state pm = 1 then
        (if c = byte_of (CHR ''('') \<or> c = byte_of (CHR ''{'') then Some (pm\<lparr>pm_state := 2, pm_name := []\<rparr>)
         else let pm1 = pm_put (byte_of (CHR ''$'')) (pm\<lparr>pm_state := 0\<rparr>)
              in Some (if pm_outputcnt pm1 \<noteq> 0 then pm_put c pm1 else pm1))
      else if pm_state pm = 2 then
        (if c = byte_of (CHR '')'') \<or> c = byte_of (CHR ''}'') then do {
           v \<leftarrow> genv (pm_name pm @ esc);
           let copied = (case v of None \<Rightarrow> [] | Some s \<Rightarrow> take (pm_outputcnt pm) s);
           Some (pm\<lparr>pm_state := 0, pm_out := pm_out pm @ copied, pm_outputcnt := pm_outputcnt pm - length copied\<rparr>) }
         else Some (pm\<lparr>pm_name := pm_name pm @ esc @ [c]\<rparr>))
      else
        (if c = byte_of (CHR 0x27) \<and> prev \<noteq> byte_of (CHR 0x5C) then Some (pm\<lparr>pm_state := 0\<rparr>)
         else Some (pm_put c pm)))"

fun pm_loop :: "(bytes \<Rightarrow> bytes option option) \<Rightarrow> bytes \<Rightarrow> u8 \<Rightarrow> macro_state \<Rightarrow> macro_state option" where
  "pm_loop genv [] prev pm = Some pm"
| "pm_loop genv (c # input) prev pm =
     (if pm_outputcnt pm = 0 then Some pm
      else if pm_state pm \<noteq> 3 \<and> c = byte_of (CHR 0x5C) \<and> prev \<noteq> byte_of (CHR 0x5C) then
        (case input of
           [] \<Rightarrow> Some pm
         | d # input' \<Rightarrow> do { pm' \<leftarrow> pm_step genv [c] d c pm; pm_loop genv input' d pm' })
      else do { pm' \<leftarrow> pm_step genv [] c prev pm; pm_loop genv input c pm' })"

definition pm_init :: "nat \<Rightarrow> macro_state" where
  "pm_init n = \<lparr>pm_state = 0, pm_name = [], pm_out = [], pm_outputcnt = n\<rparr>"

text \<open>The bytes \<^verbatim>\<open>process_macros\<close> stores in a buffer of \<^verbatim>\<open>CFG_CBSIZE\<close>: a full one gets no terminator.\<close>

definition process_macros :: "(bytes \<Rightarrow> bytes option option) \<Rightarrow> bytes \<Rightarrow> mem option" where
  "process_macros genv input = do {
     pm \<leftarrow> pm_loop genv input 0 (pm_init CFG_CBSIZE);
     Some (pm_out pm @ (if pm_outputcnt pm \<noteq> 0 then [0] else [])) }"

section \<open>Running a command line\<close>

definition CMD_FLAG_REPEAT :: int where "CMD_FLAG_REPEAT = 1"
definition CMD_FLAG_BOOTD :: int where "CMD_FLAG_BOOTD = 2"

text \<open>
  The search for the separator. The test for an escape reads the character before \<^verbatim>\<open>sep\<close>; at the start of
  the buffer there is none.
\<close>

definition rd_before :: "mem \<Rightarrow> addr \<Rightarrow> u8 option" where
  "rd_before m p = (if p = 0 then None else rd m (p - 1))"

function find_sep :: "mem \<Rightarrow> addr \<Rightarrow> addr \<Rightarrow> bool \<Rightarrow> addr option" where
  "find_sep m str sep inquotes = do {
     c \<leftarrow> rd m sep;
     if c = 0 then Some sep
     else do {
       inq \<leftarrow> (if c = byte_of (CHR 0x27)
         then do { p \<leftarrow> rd_before m sep; Some (if p \<noteq> byte_of (CHR 0x5C) then \<not> inquotes else inquotes) }
         else Some inquotes);
       stop \<leftarrow> (if \<not> inq \<and> c = byte_of (CHR '';'') \<and> sep \<noteq> str
         then do { p \<leftarrow> rd_before m sep; Some (p \<noteq> byte_of (CHR 0x5C)) } else Some False);
       if stop then Some sep else find_sep m str (Suc sep) inq } }"
  by pat_completeness auto
termination by (relation "measure (\<lambda>(m, str, sep, inq). length m - sep)") auto

declare find_sep.simps [simp del]

text \<open>
  What is done with the words of one token: \<open>(s, flag, rc, rep)\<close> are the state and the variables \<^verbatim>\<open>flag\<close>,
  \<^verbatim>\<open>rc\<close> and \<^verbatim>\<open>repeatable\<close>; the last component tells that the user stopped the command.
\<close>

type_synonym 'x run_vars = "'x sys_scheme \<times> int \<times> int \<times> int"

definition usage_of :: "cmd_tbl \<Rightarrow> bytes" where
  "usage_of t = bytes_of ''Usage:'' @ [10] @ (case usage_text t of None \<Rightarrow> bytes_of ''<NULL>'' | Some u \<Rightarrow> u) @ [10]"

definition run_words :: "cmd_tbl list \<Rightarrow> nat \<Rightarrow> 'x routine \<Rightarrow> bytes list \<Rightarrow> 'x run_vars \<Rightarrow> ('x run_vars \<times> bool) option" where
  "run_words tbl do_bootd call argv v = (case v of (s, flag, rc, rep) \<Rightarrow>
     if argv = [] then Some ((s, flag, -1, rep), False)
     else case find_cmd tbl (argv ! 0) of
       None \<Rightarrow> Some ((puts (bytes_of ''Unknown command '' @ [39] @ argv ! 0 @ [39] @ bytes_of '' - try '' @ [39] @
                 bytes_of ''help'' @ [39, 10]) s, flag, -1, rep), False)
     | Some i \<Rightarrow>
         let t = tbl ! i in
         if int (length argv) > maxargs t then Some ((puts (usage_of t) s, flag, -1, rep), False)
         else if cmd t = do_bootd \<and> flag AND CMD_FLAG_BOOTD \<noteq> 0
         then Some ((puts ([39] @ bytes_of ''bootd'' @ [39] @ bytes_of '' recursion detected'' @ [10]) s, flag, -1, rep), False)
         else do {
           let flag' = (if cmd t = do_bootd then flag OR CMD_FLAG_BOOTD else flag);
           (s', r) \<leftarrow> call t flag' argv s;
           Some ((s', flag', if r \<noteq> 0 then -1 else rc, rep AND repeatable t), ctrlc_was_pressed s') })"

definition run_token :: "cmd_tbl list \<Rightarrow> nat \<Rightarrow> 'x routine \<Rightarrow> bytes \<Rightarrow> 'x run_vars \<Rightarrow> ('x run_vars \<times> bool) option" where
  "run_token tbl do_bootd call token v = (case v of (s, flag, rc, rep) \<Rightarrow> do {
     finaltoken \<leftarrow> process_macros (env_value (sys_gd s)) token;
     (ps, cells, m, msg) \<leftarrow> parse_line finaltoken 0;
     argv \<leftarrow> cand_strs m (map Name ps);
     run_words tbl do_bootd call argv (puts msg s, flag, rc, rep) })"

lemma find_sep_ge: "find_sep m str sep inq = Some e \<Longrightarrow> sep \<le> e \<and> e < length m"
proof (induction "length m - sep" arbitrary: sep inq rule: less_induct)
  case less
  have s: "sep < length m"
    using less.prems by (subst (asm) find_sep.simps) (auto split: Option.bind_splits)
  have "e = sep \<or> (\<exists>inq'. find_sep m str (Suc sep) inq' = Some e)"
    using less.prems by (subst (asm) find_sep.simps) (auto simp: Option.bind_eq_Some_conv split: if_splits)
  then show ?case
  proof (elim disjE exE)
    fix inq'
    assume "find_sep m str (Suc sep) inq' = Some e"
    then show ?thesis using less.hyps [of "Suc sep" inq'] s by fastforce
  qed (use s in simp)
qed

lemma find_sep_gt: "find_sep m str str False = Some e \<Longrightarrow> rd m str = Some c \<Longrightarrow> c \<noteq> 0 \<Longrightarrow> str < e"
  by (subst (asm) find_sep.simps) (auto split: Option.bind_splits if_splits dest!: find_sep_ge)

text \<open>The pass over the tokens of \<^verbatim>\<open>cmdbuf\<close>.\<close>

function run_loop :: "cmd_tbl list \<Rightarrow> nat \<Rightarrow> 'x routine \<Rightarrow> mem \<Rightarrow> addr \<Rightarrow> 'x run_vars \<Rightarrow> ('x sys_scheme \<times> int) option" where
  "run_loop tbl do_bootd call m str v = do {
     c \<leftarrow> rd m str;
     if c = 0 then (case v of (s, flag, rc, rep) \<Rightarrow> Some (s, if rc \<noteq> 0 then rc else rep))
     else do {
       sep \<leftarrow> find_sep m str str False;
       d \<leftarrow> rd m sep;
       let m' = (if d \<noteq> 0 then m[sep := 0] else m);
       let str' = (if d \<noteq> 0 then Suc sep else sep);
       token \<leftarrow> str_at m' str;
       (v', stopped) \<leftarrow> run_token tbl do_bootd call token v;
       if stopped then Some (fst v', 0)
       else run_loop tbl do_bootd call m' str' v' } }"
  by pat_completeness auto
termination
  by (relation "measure (\<lambda>(tbl, b, call, m, str, v). length m - str)")
     (auto dest: find_sep_gt find_sep_ge)

declare run_loop.simps [simp del]

definition run_command :: "cmd_tbl list \<Rightarrow> nat \<Rightarrow> 'x routine \<Rightarrow> bytes option \<Rightarrow> int \<Rightarrow> 'x sys_scheme \<Rightarrow> ('x sys_scheme \<times> int) option" where
  "run_command tbl do_bootd call c flag s =
     (let s0 = s\<lparr>ctrlc_was_pressed := False\<rparr> in
      case c of
        None \<Rightarrow> Some (s0, -1)
      | Some str \<Rightarrow>
          if str = [] then Some (s0, -1)
          else if length str \<ge> CFG_CBSIZE then Some (puts (bytes_of ''## Command too long!'' @ [10]) s0, -1)
          else run_loop tbl do_bootd call (str @ [0]) 0 (s0, flag, 0, 1))"

text \<open>\<^verbatim>\<open>do_run\<close>; \<open>run\<close> is \<^verbatim>\<open>run_command\<close>.\<close>

fun do_run_loop :: "(bytes option \<Rightarrow> int \<Rightarrow> 'x sys_scheme \<Rightarrow> ('x sys_scheme \<times> int) option) \<Rightarrow> int \<Rightarrow> bytes list \<Rightarrow> 'x sys_scheme
    \<Rightarrow> ('x sys_scheme \<times> int) option" where
  "do_run_loop run flag [] s = Some (s, 0)"
| "do_run_loop run flag (a # as) s = do {
     arg \<leftarrow> env_value (sys_gd s) a;
     case arg of
       None \<Rightarrow> Some (puts (bytes_of ''## Error: '' @ [34] @ a @ [34] @ bytes_of '' not defined'' @ [10]) s, 1)
     | Some c \<Rightarrow> do {
         (s', r) \<leftarrow> run (Some c) flag s;
         if r = -1 then Some (s', 1) else do_run_loop run flag as s' } }"

definition do_run :: "(bytes option \<Rightarrow> int \<Rightarrow> 'x sys_scheme \<Rightarrow> ('x sys_scheme \<times> int) option) \<Rightarrow> 'x routine" where
  "do_run run t flag argv s =
     (if length argv < 2
      then Some (puts (usage_of t) s, 1)
      else do_run_loop run flag (tl argv) s)"

text \<open>
  \<^verbatim>\<open>run\<close> calls \<^verbatim>\<open>run_command\<close>, which calls \<^verbatim>\<open>run\<close>: \<open>depth\<close> bounds how deep the calls may nest, as the stack
  does. \<open>run_addr\<close> is the address of \<^verbatim>\<open>do_run\<close>.
\<close>

fun run_nested :: "cmd_tbl list \<Rightarrow> nat \<Rightarrow> nat \<Rightarrow> 'x routine \<Rightarrow> nat \<Rightarrow> bytes option \<Rightarrow> int \<Rightarrow> 'x sys_scheme \<Rightarrow> ('x sys_scheme \<times> int) option" where
  "run_nested tbl do_bootd run_addr call 0 c flag s = None"
| "run_nested tbl do_bootd run_addr call (Suc depth) c flag s =
     run_command tbl do_bootd
       (\<lambda>t. if cmd t = run_addr then do_run (run_nested tbl do_bootd run_addr call depth) t else call t) c flag s"

text \<open>
  One round of the monitor loop, for what \<^verbatim>\<open>readline\<close> returned: the length and the line. The state is
  \<^verbatim>\<open>lastcommand\<close>, \<^verbatim>\<open>rc\<close> and the system.
\<close>

definition monitor_step :: "(bytes option \<Rightarrow> int \<Rightarrow> 'x sys_scheme \<Rightarrow> ('x sys_scheme \<times> int) option) \<Rightarrow> int \<Rightarrow> bytes
    \<Rightarrow> bytes \<times> int \<times> 'x sys_scheme \<Rightarrow> (bytes \<times> int \<times> 'x sys_scheme) option" where
  "monitor_step run len line st = (case st of (lastcommand, rc, s) \<Rightarrow> do {
     let lastcommand' = (if len > 0 then line else lastcommand);
     let flag = (if len = 0 then CMD_FLAG_REPEAT else 0);
     (s', rc') \<leftarrow> (if len = -1 then Some (puts (bytes_of ''<INTERRUPT>'' @ [10]) s, rc)
                   else run (Some lastcommand') flag s);
     Some (if rc' \<le> 0 then [] else lastcommand', rc', s') })"

section \<open>Reading a line\<close>

definition erase_seq :: bytes where "erase_seq = [8, 32, 8]"
definition tab_seq :: bytes where "tab_seq = replicate 8 32"

record rl =
  rl_buf :: mem
  rl_p :: nat
  rl_n :: int
  rl_col :: int
  rl_out :: bytes

definition rl_puts :: "bytes \<Rightarrow> rl \<Rightarrow> rl" where
  "rl_puts s r = r\<lparr>rl_out := rl_out r @ s\<rparr>"

text \<open>\<^verbatim>\<open>while (col > plen) { puts (erase_seq); --col; }\<close>.\<close>

function erase_to :: "int \<Rightarrow> rl \<Rightarrow> rl" where
  "erase_to plen r = (if rl_col r > plen then erase_to plen (rl_puts erase_seq (r\<lparr>rl_col := rl_col r - 1\<rparr>)) else r)"
  by pat_completeness auto
termination by (relation "measure (\<lambda>(plen, r). nat (rl_col r - plen))") (auto simp: rl_puts_def)

declare erase_to.simps [simp del]

text \<open>A tab goes to the next multiple of eight.\<close>

definition put_tab :: "rl \<Rightarrow> rl" where
  "put_tab r = (let k = rl_col r AND 7 in rl_puts (drop (nat k) tab_seq) (r\<lparr>rl_col := rl_col r + (8 - k)\<rparr>))"

fun retype :: "bytes \<Rightarrow> rl \<Rightarrow> rl" where
  "retype [] r = r"
| "retype (c # cs) r = retype cs (if c = 9 then put_tab r else rl_puts [c] (r\<lparr>rl_col := rl_col r + 1\<rparr>))"

definition delete_char :: "int \<Rightarrow> rl \<Rightarrow> rl option" where
  "delete_char plen r =
     (if rl_n r = 0 then Some r
      else if rl_p r = 0 then None
      else do {
        let p = rl_p r - 1;
        c \<leftarrow> rd (rl_buf r) p;
        let r1 = (if c = 9 then retype (take p (rl_buf r)) (erase_to plen r)
                  else rl_puts erase_seq (r\<lparr>rl_col := rl_col r - 1\<rparr>));
        Some (r1\<lparr>rl_n := rl_n r - 1, rl_p := p\<rparr>) })"

text \<open>\<^verbatim>\<open>while ((n > 0) && (*p != ' '))\<close> of \<^verbatim>\<open>^W\<close>.\<close>

lemma retype_n: "rl_n (retype cs r) = rl_n r"
  by (induction cs arbitrary: r) (auto simp: put_tab_def rl_puts_def Let_def)

function delete_word :: "int \<Rightarrow> rl \<Rightarrow> rl option" where
  "delete_word plen r =
     (if rl_n r > 0 then do {
        c \<leftarrow> rd (rl_buf r) (rl_p r);
        if c \<noteq> 32 then do { r' \<leftarrow> delete_char plen r; delete_word plen r' } else Some r }
      else Some r)"
  by pat_completeness auto
termination
  by (relation "measure (\<lambda>(plen, r). nat (rl_n r))")
     (auto simp: delete_char_def Let_def split: if_splits Option.bind_splits)

declare delete_word.simps [simp del]

datatype rl_result = More rl | Done rl int

text \<open>One character typed.\<close>

definition readline_key :: "int \<Rightarrow> u8 \<Rightarrow> rl \<Rightarrow> rl_result option" where
  "readline_key plen c r =
     (if c = 13 \<or> c = 10 then do {
        m \<leftarrow> wr (rl_buf r) (rl_p r) 0;
        Some (Done (rl_puts [13, 10] (r\<lparr>rl_buf := m\<rparr>)) (int (rl_p r))) }
      else if c = 0 then Some (More r)
      else if c = 3 then do { m \<leftarrow> wr (rl_buf r) 0 0; Some (Done (r\<lparr>rl_buf := m\<rparr>) (-1)) }
      else if c = 0x15 then Some (More ((erase_to plen r)\<lparr>rl_p := 0, rl_n := 0\<rparr>))
      else if c = 0x17 then do { r1 \<leftarrow> delete_char plen r; r2 \<leftarrow> delete_word plen r1; Some (More r2) }
      else if c = 8 \<or> c = 0x7F then do { r1 \<leftarrow> delete_char plen r; Some (More r1) }
      else if rl_n r < int CFG_CBSIZE - 2 then do {
        let r1 = (if c = 9 then put_tab r else rl_puts [c] (r\<lparr>rl_col := rl_col r + 1\<rparr>));
        m \<leftarrow> wr (rl_buf r1) (rl_p r1) c;
        Some (More (r1\<lparr>rl_buf := m, rl_p := rl_p r1 + 1, rl_n := rl_n r1 + 1\<rparr>)) }
      else Some (More (rl_puts [7] r)))"

text \<open>The characters typed one after the other; what has not been read yet is returned, too.\<close>

fun readline_loop :: "int \<Rightarrow> bytes \<Rightarrow> rl \<Rightarrow> (rl_result \<times> bytes) option" where
  "readline_loop plen [] r = Some (More r, [])"
| "readline_loop plen (c # keys) r = do {
     x \<leftarrow> readline_key plen c r;
     case x of More r' \<Rightarrow> readline_loop plen keys r' | Done r' n \<Rightarrow> Some (Done r' n, keys) }"

definition readline :: "bytes option \<Rightarrow> bytes \<Rightarrow> mem \<Rightarrow> (rl_result \<times> bytes) option" where
  "readline prompt keys console_buffer =
     (let plen = (case prompt of None \<Rightarrow> 0 | Some p \<Rightarrow> int (length p));
          out = (case prompt of None \<Rightarrow> [] | Some p \<Rightarrow> p)
      in readline_loop plen keys \<lparr>rl_buf = console_buffer, rl_p = 0, rl_n = 0, rl_col = plen, rl_out = out\<rparr>)"

end
