(* ===== verification/CommandProps.thy ===== *)
theory CommandProps
  imports Command "HOL-Library.Multiset" "HOL-Library.Sublist"
begin

text \<open>
  The command table: lookup against its specification by filtering, sorting, \<^verbatim>\<open>test\<close> against the value of an
  expression, word splitting, and command completion.
\<close>

section \<open>Comparison as an order\<close>

lemma str_cmp_code:
  "0 \<notin> set s \<Longrightarrow> 0 \<notin> set t \<Longrightarrow>
   mips_strcmp 0 (Suc (length s)) (s @ 0 # t @ [0]) = Some (str_cmp s t)"
  unfolding str_cmp_def by (rule mips_strcmp_cstr) (auto simp: is_cstr_iff slice_def)

lemma str_cmp_0 [simp]: "0 \<notin> set s \<Longrightarrow> 0 \<notin> set t \<Longrightarrow> str_cmp s t = 0 \<longleftrightarrow> s = t"
  unfolding str_cmp_def by (rule lex_diff_0) auto

lemma str_ncmp_code:
  "n \<le> length s \<Longrightarrow> 0 \<notin> set s \<Longrightarrow> 0 \<notin> set t \<Longrightarrow>
   mips_strncmp 0 (Suc (length s)) n (s @ 0 # t @ [0]) = Some (str_ncmp s t n)"
proof -
  have "n \<le> length u \<Longrightarrow> 0 \<notin> set u \<Longrightarrow> 0 \<notin> set v \<Longrightarrow>
    mips_strncmp (length p) (length p + length u + length q + 1) n (p @ u @ 0 # q @ v @ [0]) = Some (str_ncmp u v n)"
    for n p u q v
  proof (induction n arbitrary: p u q v)
    case 0
    then show ?case by (cases u) (auto simp: str_ncmp_def str_cmp_def rd_def nth_append)
  next
    case (Suc n)
    then obtain x u' where u: "u = x # u'" by (cases u) auto
    show ?case
    proof (cases v)
      case Nil
      then show ?thesis using Suc.prems u by (auto simp: str_ncmp_def str_cmp_def rd_def nth_append)
    next
      case (Cons y v')
      then show ?thesis
        using Suc.IH [of u' v' "p @ [x]" "q @ [y]"] Suc.prems u
        by (auto simp: str_ncmp_def str_cmp_def rd_def nth_append)
    qed
  qed
  from this [of n s t "[]" "[]"] show "n \<le> length s \<Longrightarrow> 0 \<notin> set s \<Longrightarrow> 0 \<notin> set t \<Longrightarrow>
      mips_strncmp 0 (Suc (length s)) n (s @ 0 # t @ [0]) = Some (str_ncmp s t n)"
    by simp
qed

definition str_le :: "bytes \<Rightarrow> bytes \<Rightarrow> bool" where
  "str_le s t \<longleftrightarrow> str_cmp s t \<le> 0"

lemma str_le_simps [simp]:
  "str_le [] t"
  "x \<noteq> 0 \<Longrightarrow> \<not> str_le (x # s) []"
  "str_le (x # s) (y # t) \<longleftrightarrow> uint x < uint y \<or> x = y \<and> str_le s t"
proof -
  have "uint (0 :: u8) \<le> uint y" for y :: u8 by simp
  then show "str_le [] t" by (cases t) (auto simp: str_le_def str_cmp_def)
  have "uint x \<noteq> 0" if "x \<noteq> 0" using that by (simp add: uint_0_iff)
  moreover have "0 \<le> uint x" by simp
  ultimately show "x \<noteq> 0 \<Longrightarrow> \<not> str_le (x # s) []" by (simp add: str_le_def str_cmp_def order.order_iff_strict)
  show "str_le (x # s) (y # t) \<longleftrightarrow> uint x < uint y \<or> x = y \<and> str_le s t"
    using uint_eq_u8 [of x y] by (auto simp: str_le_def str_cmp_def order.order_iff_strict)
qed

lemma str_le_trans: "0 \<notin> set t \<Longrightarrow> 0 \<notin> set u \<Longrightarrow> str_le s t \<Longrightarrow> str_le t u \<Longrightarrow> 0 \<notin> set s \<Longrightarrow> str_le s u"
proof (induction s arbitrary: t u)
  case (Cons x s)
  obtain y t' where t: "t = y # t'" using Cons.prems by (cases t) auto
  obtain z u' where u: "u = z # u'" using Cons.prems t by (cases u) auto
  show ?case using Cons.prems Cons.IH [of t' u'] by (simp add: t u) (metis order.strict_trans)
qed simp

lemma str_le_linear: "str_cmp s t > 0 \<Longrightarrow> str_le t s"
proof (induction s arbitrary: t)
  case Nil
  then show ?case using str_le_simps(1) [of t] by (simp add: str_le_def)
next
  case (Cons x s)
  then show ?case by (cases t) (auto simp: str_cmp_def split: if_splits)
qed

section \<open>Lookup\<close>

definition wf_tbl :: "cmd_tbl list \<Rightarrow> bool" where
  "wf_tbl tbl \<longleftrightarrow> (\<forall>t\<in>set tbl. 0 \<notin> set (cmd_name t))"

lemma wf_tbl_simps [simp]: "wf_tbl []" "wf_tbl (t # ts) \<longleftrightarrow> 0 \<notin> set (cmd_name t) \<and> wf_tbl ts"
  by (auto simp: wf_tbl_def)

text \<open>The part of a command up to its first dot, and the entries it abbreviates or names.\<close>

definition cmd_key :: "bytes \<Rightarrow> bytes" where
  "cmd_key c = takeWhile (\<lambda>x. x \<noteq> byte_of (CHR ''.'')) c"

definition candidates :: "(cmd_tbl \<Rightarrow> bool) \<Rightarrow> cmd_tbl list \<Rightarrow> nat list" where
  "candidates P tbl = filter (\<lambda>i. P (tbl ! i)) [0..<length tbl]"

lemma candidates_Cons:
  "candidates P (t # ts) = (if P t then [0] else []) @ map Suc (candidates P ts)"
  by (simp add: candidates_def upt_conv_Cons map_Suc_upt [symmetric] filter_map comp_def del: upt_Suc map_Suc_upt)

lemma candidates_Nil [simp]: "candidates P [] = []"
  by (simp add: candidates_def)

definition lookup_spec :: "cmd_tbl list \<Rightarrow> bytes \<Rightarrow> nat option" where
  "lookup_spec tbl key =
     (case candidates (\<lambda>t. cmd_name t = key) tbl of
        i # _ \<Rightarrow> Some i
      | [] \<Rightarrow> (case candidates (\<lambda>t. prefix key (cmd_name t)) tbl of [i] \<Rightarrow> Some i | _ \<Rightarrow> None))"

lemma str_ncmp_key:
  "0 \<notin> set c \<Longrightarrow> 0 \<notin> set n \<Longrightarrow> str_ncmp c n (cmd_len c) = 0 \<longleftrightarrow> prefix (cmd_key c) n"
proof -
  assume c: "0 \<notin> set c" and n: "0 \<notin> set n"
  have k: "take (cmd_len c) c = cmd_key c" by (simp add: cmd_len_def cmd_key_def takeWhile_eq_take [symmetric])
  have l: "length (cmd_key c) = cmd_len c" by (simp add: cmd_len_def cmd_key_def)
  have "0 \<notin> set (cmd_key c)" using c by (auto simp: cmd_key_def dest: set_takeWhileD)
  moreover have "0 \<notin> set (take (cmd_len c) n)" using n by (auto dest: in_set_takeD)
  ultimately have "str_ncmp c n (cmd_len c) = 0 \<longleftrightarrow> cmd_key c = take (cmd_len c) n"
    by (simp add: str_ncmp_def k)
  then show ?thesis by (metis append_take_drop_id l prefix_def append_eq_conv_conj prefixI)
qed

lemma find_cmd_loop_spec:
  assumes "wf_tbl ts" "0 \<notin> set c"
  shows "find_cmd_loop c (cmd_len c) ts i temp n =
    (case candidates (\<lambda>t. cmd_name t = cmd_key c) ts of
       k # _ \<Rightarrow> Some (i + k)
     | [] \<Rightarrow>
        (let ks = candidates (\<lambda>t. prefix (cmd_key c) (cmd_name t)) ts
         in if n + length ks = 1 then Some (if ks = [] then temp else i + hd ks) else None))"
  using assms(1)
proof (induction ts arbitrary: i temp n)
  case (Cons t ts)
  have l: "length (cmd_key c) = cmd_len c" by (simp add: cmd_len_def cmd_key_def)
  have p: "str_ncmp c (cmd_name t) (cmd_len c) = 0 \<longleftrightarrow> prefix (cmd_key c) (cmd_name t)"
    using str_ncmp_key [OF assms(2)] Cons.prems by simp
  have e: "prefix (cmd_key c) (cmd_name t) \<and> cmd_len c = length (cmd_name t) \<longleftrightarrow> cmd_name t = cmd_key c"
    using l by (auto simp: prefix_def)
  show ?case
    using Cons.IH [of "i + 1"] Cons.prems p e
    by (auto simp: candidates_Cons Let_def hd_map split: list.splits)
qed simp

lemma find_cmd_lookup: "wf_tbl tbl \<Longrightarrow> 0 \<notin> set c \<Longrightarrow> find_cmd tbl c = lookup_spec tbl (cmd_key c)"
  by (auto simp: find_cmd_def find_cmd_loop_spec lookup_spec_def Let_def length_Suc_conv split: list.splits)

section \<open>Sorting\<close>

abbreviation cmd_le :: "cmd_tbl \<Rightarrow> cmd_tbl \<Rightarrow> bool" where
  "cmd_le a b \<equiv> str_le (cmd_name a) (cmd_name b)"

lemma cmd_le_trans:
  "wf_tbl xs \<Longrightarrow> a \<in> set xs \<Longrightarrow> b \<in> set xs \<Longrightarrow> c \<in> set xs \<Longrightarrow> cmd_le a b \<Longrightarrow> cmd_le b c \<Longrightarrow> cmd_le a c"
  by (auto simp: wf_tbl_def intro: str_le_trans)

lemma str_le_refl [simp]: "str_le s s"
proof -
  have "str_cmp s s = 0" by (induction s) (auto simp: str_cmp_def)
  then show ?thesis by (simp add: str_le_def)
qed

text \<open>A pass moves the greatest of the entries \<open>j\<close> to \<open>j + k\<close> to place \<open>j + k\<close>; without swaps they were sorted.\<close>

lemma bubble_pass_spec:
  "j + k < length xs \<Longrightarrow> wf_tbl xs \<Longrightarrow> bubble_pass j k xs n = (ys, n') \<Longrightarrow>
   mset ys = mset xs \<and> n \<le> n' \<and> drop (Suc (j + k)) ys = drop (Suc (j + k)) xs \<and>
   (\<forall>i. j \<le> i \<and> i \<le> j + k \<longrightarrow> cmd_le (xs ! i) (ys ! (j + k))) \<and>
   (n' = n \<longrightarrow> ys = xs \<and> (\<forall>i. j \<le> i \<and> i < j + k \<longrightarrow> cmd_le (xs ! i) (xs ! Suc i)))"
proof (induction k arbitrary: j xs n ys n')
  case (Suc k)
  note len = Suc.prems(1)
  have in_xs: "ys ! (j + Suc k) \<in> set xs" if "mset ys = mset xs"
    using that len by (metis mset_eq_length mset_eq_setD nth_mem)
  show ?case
  proof (cases "str_cmp (cmd_name (xs ! j)) (cmd_name (xs ! (j + 1))) > 0")
    case True
    let ?xs = "xs[j := xs ! (j + 1), j + 1 := xs ! j]"
    have p: "bubble_pass (j + 1) k ?xs (n + 1) = (ys, n')" using Suc.prems(3) True by simp
    have m: "mset ?xs = mset xs" using len by (simp add: mset_swap)
    then have w: "wf_tbl ?xs" using Suc.prems(2) unfolding wf_tbl_def by (metis set_mset_mset)
    have ih: "mset ys = mset xs" "n + 1 \<le> n'" "drop (Suc (j + Suc k)) ys = drop (Suc (j + Suc k)) ?xs"
      "\<And>i. j + 1 \<le> i \<Longrightarrow> i \<le> j + Suc k \<Longrightarrow> cmd_le (?xs ! i) (ys ! (j + Suc k))"
      using Suc.IH [OF _ w p] len m by simp_all
    have max: "cmd_le (xs ! j) (ys ! (j + Suc k))" using ih(4) [of "j + 1"] len by simp
    have "cmd_le (xs ! (j + 1)) (ys ! (j + Suc k))"
      using cmd_le_trans [OF Suc.prems(2) _ _ in_xs [OF ih(1)] str_le_linear [OF True] max] len by simp
    then have "cmd_le (xs ! i) (ys ! (j + Suc k))" if "j \<le> i" "i \<le> j + Suc k" for i
      using ih(4) [of i] max that len by (cases "i = j \<or> i = j + 1") auto
    then show ?thesis using ih by simp
  next
    case False
    then have p: "bubble_pass (j + 1) k xs n = (ys, n')" and le: "cmd_le (xs ! j) (xs ! (j + 1))"
      using Suc.prems(3) by (simp_all add: str_le_def)
    have ih: "mset ys = mset xs" "n \<le> n'" "drop (Suc (j + Suc k)) ys = drop (Suc (j + Suc k)) xs"
      "\<And>i. j + 1 \<le> i \<Longrightarrow> i \<le> j + Suc k \<Longrightarrow> cmd_le (xs ! i) (ys ! (j + Suc k))"
      "n' = n \<Longrightarrow> ys = xs \<and> (\<forall>i. j + 1 \<le> i \<and> i < j + Suc k \<longrightarrow> cmd_le (xs ! i) (xs ! Suc i))"
      using Suc.IH [OF _ Suc.prems(2) p] len by simp_all
    have "cmd_le (xs ! j) (ys ! (j + Suc k))"
      using cmd_le_trans [OF Suc.prems(2) _ _ in_xs [OF ih(1)] le ih(4) [of "j + 1"]] len by simp
    then have a: "cmd_le (xs ! i) (ys ! (j + Suc k))" if "j \<le> i" "i \<le> j + Suc k" for i
      using ih(4) [of i] that by (cases "i = j") auto
    have "cmd_le (xs ! i) (xs ! Suc i)" if "n' = n" "j \<le> i" "i < j + Suc k" for i
      using ih(5) le that by (cases "i = j") auto
    then show ?thesis using ih a by simp
  qed
qed auto

lemma sorted_wrt_adjacent:
  assumes "wf_tbl xs" "\<And>i. Suc i < length xs \<Longrightarrow> cmd_le (xs ! i) (xs ! Suc i)"
  shows "sorted_wrt cmd_le xs"
  using assms
proof (induction xs)
  case (Cons x xs)
  have s: "sorted_wrt cmd_le xs" using Cons.IH Cons.prems(1) Cons.prems(2) [of "Suc _"] by simp
  show ?case
  proof (cases xs)
    case (Cons y ys)
    then have xy: "cmd_le x y" using \<open>\<And>i. Suc i < length (x # xs) \<Longrightarrow> _ i\<close> [of 0] by simp
    have "cmd_le x z" if "z \<in> set ys" for z
      using s cmd_le_trans [OF \<open>wf_tbl (x # xs)\<close> _ _ _ xy, of z] that Cons by simp
    then show ?thesis using s xy Cons by simp
  qed simp
qed simp

lemma bubble_sort_spec:
  assumes "i < length xs" "wf_tbl xs" "sorted_wrt cmd_le (drop (Suc i) xs)"
    and "\<forall>a\<in>set (take (Suc i) xs). \<forall>b\<in>set (drop (Suc i) xs). cmd_le a b"
  shows "mset (bubble_sort i xs) = mset xs \<and> sorted_wrt cmd_le (bubble_sort i xs)"
  using assms
proof (induction i arbitrary: xs)
  case 0
  then show ?case by (cases xs) auto
next
  case (Suc i)
  obtain ys n where p: "bubble_pass 0 (Suc i) xs 0 = (ys, n)" by fastforce
  have s: "mset ys = mset xs" "drop (Suc (Suc i)) ys = drop (Suc (Suc i)) xs"
    "\<And>k. k \<le> Suc i \<Longrightarrow> cmd_le (xs ! k) (ys ! Suc i)"
    "n = 0 \<Longrightarrow> ys = xs \<and> (\<forall>k. k < Suc i \<longrightarrow> cmd_le (xs ! k) (xs ! Suc k))"
    using bubble_pass_spec [OF _ Suc.prems(2) p] Suc.prems(1) by simp_all
  have len: "length ys = length xs" using s(1) by (rule mset_eq_length)
  have w: "wf_tbl ys" using Suc.prems(2) s(1) unfolding wf_tbl_def by (metis set_mset_mset)
  have t: "mset (take (Suc (Suc i)) ys) = mset (take (Suc (Suc i)) xs)"
    using s(1,2) by (metis add_right_cancel append_take_drop_id mset_append)
  show ?case
  proof (cases "n = 0")
    case True
    have "cmd_le (xs ! k) (xs ! Suc k)" if "Suc k < length xs" for k
    proof -
      consider "k < Suc i" | "k = Suc i" | "Suc i < k" by linarith
      then show ?thesis
      proof cases
        case 2
        have "take (Suc (Suc i)) xs ! Suc i \<in> set (take (Suc (Suc i)) xs)"
          "drop (Suc (Suc i)) xs ! 0 \<in> set (drop (Suc (Suc i)) xs)"
          using that 2 by (intro nth_mem; simp)+
        then show ?thesis using Suc.prems(4) that 2 by simp
      next
        case 3
        then obtain d where "k = Suc (Suc i) + d" using 3 le_Suc_ex [of "Suc (Suc i)" k] by auto
        then show ?thesis
          using sorted_wrt_nth_less [OF Suc.prems(3), of d "Suc d"] that by simp
      qed (use s(4) True in simp)
    qed
    then show ?thesis using s True p sorted_wrt_adjacent [OF Suc.prems(2)] by simp
  next
    case False
    have st: "set (take (Suc (Suc i)) ys) = set (take (Suc (Suc i)) xs)" using t by (metis set_mset_mset)
    then have le: "cmd_le a (ys ! Suc i)" if "a \<in> set (take (Suc (Suc i)) ys)" for a
      using s(3) that by (auto simp: in_set_conv_nth)
    have d: "drop (Suc i) ys = ys ! Suc i # drop (Suc (Suc i)) xs"
      using s(2) len Suc.prems(1) by (simp add: Cons_nth_drop_Suc [symmetric])
    have tk: "take (Suc (Suc i)) ys = take (Suc i) ys @ [ys ! Suc i]"
      using len Suc.prems(1) by (simp add: take_Suc_conv_app_nth)
    have up: "cmd_le a b" if "a \<in> set (take (Suc (Suc i)) ys)" "b \<in> set (drop (Suc (Suc i)) xs)" for a b
      using Suc.prems(4) that st by simp
    have "mset (bubble_sort i ys) = mset ys \<and> sorted_wrt cmd_le (bubble_sort i ys)"
    proof (rule Suc.IH [OF _ w])
      show "i < length ys" using len Suc.prems(1) by simp
      show "sorted_wrt cmd_le (drop (Suc i) ys)" unfolding d using Suc.prems(3) up tk by simp
      show "\<forall>a\<in>set (take (Suc i) ys). \<forall>b\<in>set (drop (Suc i) ys). cmd_le a b"
        unfolding d using le up tk by simp
    qed
    then show ?thesis using s(1) p False by simp
  qed
qed

lemma bytes_of_eq_Nil: "bytes_of s = [] \<longleftrightarrow> s = []"
  by (simp add: bytes_of_def)

section \<open>The value of a test\<close>

text \<open>The conditions \<^verbatim>\<open>test\<close> knows, and their connectives.\<close>

datatype test_cond = Empty bytes | Nonempty bytes | Binary bytes bytes bytes

datatype connective = Or | And

fun cond_args :: "test_cond \<Rightarrow> bytes list" where
  "cond_args (Empty s) = [bytes_of ''-z'', s]"
| "cond_args (Nonempty s) = [bytes_of ''-n'', s]"
| "cond_args (Binary a opr b) = [a, opr, b]"

fun conn_arg :: "connective \<Rightarrow> bytes" where
  "conn_arg Or = bytes_of ''-o''"
| "conn_arg And = bytes_of ''-a''"

fun cond_val :: "test_cond \<Rightarrow> bool" where
  "cond_val (Empty s) = (s = [])"
| "cond_val (Nonempty s) = (s \<noteq> [])"
| "cond_val (Binary a opr b) = (test_op a opr b = Some (Some True))"

text \<open>A first operand that is itself one of the four option words would be taken for it.\<close>

definition option_words :: "bytes set" where
  "option_words = {bytes_of ''-o'', bytes_of ''-a'', bytes_of ''-z'', bytes_of ''-n''}"

fun wf_cond :: "test_cond \<Rightarrow> bool" where
  "wf_cond (Binary a opr b) \<longleftrightarrow> 0 \<notin> set a \<and> a \<notin> option_words \<and> (\<exists>v. test_op a opr b = Some (Some v))"
| "wf_cond c \<longleftrightarrow> True"

definition chain_args :: "test_cond \<Rightarrow> (connective \<times> test_cond) list \<Rightarrow> bytes list" where
  "chain_args c cs = cond_args c @ concat (map (\<lambda>(k, d). conn_arg k # cond_args d) cs)"

text \<open>Connectives are applied from the left, without precedence.\<close>

definition chain_val :: "test_cond \<Rightarrow> (connective \<times> test_cond) list \<Rightarrow> bool" where
  "chain_val c cs = foldl (\<lambda>v (k, d). case k of Or \<Rightarrow> v \<or> cond_val d | And \<Rightarrow> v \<and> cond_val d) (cond_val c) cs"

lemma option_words_nul_free: "w \<in> option_words \<Longrightarrow> 0 \<notin> set w"
  by (auto simp: option_words_def)

lemma str_cmp_same [simp]: "str_cmp s s = 0"
  by (induction s) (auto simp: str_cmp_def)

lemma str_cmp_words [simp]:
  "str_cmp (bytes_of ''-z'') (bytes_of ''-o'') \<noteq> 0" "str_cmp (bytes_of ''-z'') (bytes_of ''-a'') \<noteq> 0"
  "str_cmp (bytes_of ''-n'') (bytes_of ''-o'') \<noteq> 0" "str_cmp (bytes_of ''-n'') (bytes_of ''-a'') \<noteq> 0"
  "str_cmp (bytes_of ''-n'') (bytes_of ''-z'') \<noteq> 0" "str_cmp (bytes_of ''-a'') (bytes_of ''-o'') \<noteq> 0"
  by simp_all

lemma str_cmp_option_word:
  "0 \<notin> set a \<Longrightarrow> a \<notin> option_words \<Longrightarrow> w \<in> option_words \<Longrightarrow> str_cmp a w \<noteq> 0"
  using option_words_nul_free by (metis str_cmp_0)

lemma test_loop_cond:
  assumes "wf_cond c"
  shows "test_loop (cond_args c @ ap) e l k = test_loop ap (test_join k l (c_bool (cond_val c))) l (-1)"
proof (cases c)
  case (Binary a opr b)
  have "str_cmp a w \<noteq> 0" if "w \<in> option_words" for w
    using assms Binary str_cmp_option_word that by auto
  then have "str_cmp a (bytes_of ''-o'') \<noteq> 0" "str_cmp a (bytes_of ''-a'') \<noteq> 0"
    "str_cmp a (bytes_of ''-z'') \<noteq> 0" "str_cmp a (bytes_of ''-n'') \<noteq> 0"
    by (simp_all only: option_words_def insert_iff simp_thms)
  then show ?thesis using assms Binary by (auto simp del: bytes_of_Cons)
qed (simp_all del: bytes_of_Cons)

lemma test_loop_chain:
  "wf_cond c \<Longrightarrow> list_all (\<lambda>(k, d). wf_cond d) cs \<Longrightarrow>
   test_loop (concat (map (\<lambda>(k, d). conn_arg k # cond_args d) cs)) (c_bool v) l (-1) =
     Some (c_bool (foldl (\<lambda>v (k, d). case k of Or \<Rightarrow> v \<or> cond_val d | And \<Rightarrow> v \<and> cond_val d) v cs))"
proof (induction cs arbitrary: v l)
  case (Cons kd cs)
  obtain k d where kd: "kd = (k, d)" by fastforce
  have "test_join (case k of Or \<Rightarrow> 0 | And \<Rightarrow> 1) (c_bool v) (c_bool (cond_val d)) =
      c_bool (case k of Or \<Rightarrow> v \<or> cond_val d | And \<Rightarrow> v \<and> cond_val d)"
    by (cases k) (simp_all add: test_join_def)
  then show ?case
    using Cons.IH Cons.prems test_loop_cond [of d] by (cases k) (simp_all add: kd del: bytes_of_Cons)
qed simp

section \<open>Common prefixes\<close>

lemma common_len_le: "common_len s t len \<le> len"
  by (induction s t len rule: common_len.induct) auto

lemma common_len_prefix:
  "len \<le> length s \<Longrightarrow> 0 \<notin> set s \<Longrightarrow>
   prefix ps (take (common_len s (t @ [0]) len) s) \<longleftrightarrow> prefix ps (take len s) \<and> prefix ps t"
proof (induction len arbitrary: s t ps)
  case (Suc len)
  then obtain x s' where s: "s = x # s'" by (cases s) auto
  show ?case using Suc.IH [of s'] Suc.prems s by (cases t; cases ps) auto
qed auto

lemma prefix_loop_prefix:
  "len \<le> length s \<Longrightarrow> 0 \<notin> set s \<Longrightarrow> prefix_loop s argv len \<le> len \<and>
   (prefix ps (take (prefix_loop s argv len) s) \<longleftrightarrow> prefix ps (take len s) \<and> (\<forall>t\<in>set argv. prefix ps t))"
proof (induction argv arbitrary: len)
  case (Cons t argv)
  let ?n = "common_len s (t @ [0]) len"
  have n: "?n \<le> len" by (rule common_len_le)
  then have "prefix_loop s argv ?n \<le> len" using Cons.IH [of ?n] Cons.prems by fastforce
  then show ?case using Cons.IH [of ?n] Cons.prems n common_len_prefix [of len s ps t] by auto
qed simp

section \<open>Words\<close>

text \<open>The words of a line.\<close>

lemma words_shorter:
  "dropWhile is_space_char s \<noteq> [] \<Longrightarrow>
   length (dropWhile (\<lambda>c. \<not> is_space_char c) (dropWhile is_space_char s)) < length s"
proof -
  assume "dropWhile is_space_char s \<noteq> []"
  then obtain c r where "dropWhile is_space_char s = c # r" "\<not> is_space_char c"
    by (metis hd_dropWhile list.collapse)
  moreover have "length (dropWhile is_space_char s) \<le> length s" by (rule length_dropWhile_le)
  moreover have "length (dropWhile (\<lambda>c. \<not> is_space_char c) r) \<le> length r" by (rule length_dropWhile_le)
  ultimately show ?thesis by simp
qed

function words :: "bytes \<Rightarrow> bytes list" where
  "words s = (let s' = dropWhile is_space_char s in
     if s' = [] then []
     else takeWhile (\<lambda>c. \<not> is_space_char c) s' # words (dropWhile (\<lambda>c. \<not> is_space_char c) s'))"
  by pat_completeness auto
termination by (relation "measure length") (use words_shorter in auto)

declare words.simps [simp del]

lemma words_space [simp]: "is_space_char c \<Longrightarrow> words (c # s) = words s"
  by (subst (1 2) words.simps) simp

lemma words_empty [simp]: "words [] = []"
  by (subst words.simps) simp

lemma is_cstr_mid: "0 \<notin> set w \<Longrightarrow> is_cstr (q @ w @ 0 # r) (length q) w"
  by (auto simp: is_cstr_iff slice_def)

lemma not_space_0 [simp]: "\<not> is_space_char 0"
  by (simp add: is_space_char_def)

lemma skip_white_str:
  "0 \<notin> set s \<Longrightarrow> skip_white (pre @ s @ 0 # post) (length pre) =
     Some (length pre + length (takeWhile is_space_char s))"
proof (induction s arbitrary: pre)
  case (Cons c s)
  then show ?case using Cons.IH [of "pre @ [c]"] by (subst skip_white.simps) (simp add: rd_def)
qed (subst skip_white.simps, simp add: rd_def)

lemma skip_word_str:
  "0 \<notin> set s \<Longrightarrow> skip_word (pre @ s @ 0 # post) (length pre) =
     Some (length pre + length (takeWhile (\<lambda>c. \<not> is_space_char c) s))"
proof (induction s arbitrary: pre)
  case (Cons c s)
  then show ?case using Cons.IH [of "pre @ [c]"] by (subst skip_word.simps) (simp add: rd_def)
qed (subst skip_word.simps, simp add: rd_def)

text \<open>A line split at its first word.\<close>

lemma first_word:
  assumes "words s = w # ws"
  obtains a b where "s = a @ w @ b" "\<forall>c\<in>set a. is_space_char c" "\<forall>c\<in>set w. \<not> is_space_char c" "w \<noteq> []"
    "words b = ws" "takeWhile is_space_char s = a" "takeWhile (\<lambda>c. \<not> is_space_char c) (w @ b) = w"
    "b \<noteq> [] \<Longrightarrow> is_space_char (hd b)"
proof -
  let ?s = "dropWhile is_space_char s"
  have n: "?s \<noteq> []" and w: "w = takeWhile (\<lambda>c. \<not> is_space_char c) ?s"
    and ws: "ws = words (dropWhile (\<lambda>c. \<not> is_space_char c) ?s)"
    using assms by (subst (asm) words.simps, auto simp: Let_def split: if_splits)+
  have "w \<noteq> []" using n w hd_dropWhile [OF n] by (cases ?s) auto
  moreover have "s = takeWhile is_space_char s @ w @ dropWhile (\<lambda>c. \<not> is_space_char c) ?s"
    unfolding w by simp
  moreover have "?s = w @ dropWhile (\<lambda>c. \<not> is_space_char c) ?s" unfolding w by simp
  ultimately show ?thesis
    using that [of "takeWhile is_space_char s" "dropWhile (\<lambda>c. \<not> is_space_char c) ?s"] w ws
    by (metis hd_dropWhile set_takeWhileD)
qed

lemma words_Nil: "words s = [] \<longleftrightarrow> takeWhile is_space_char s = s"
  by (subst words.simps) (auto simp: Let_def dropWhile_eq_Nil_conv takeWhile_eq_all_conv)

lemma make_argv_loop_words:
  "0 \<notin> set s \<Longrightarrow> \<exists>ps z. make_argv_loop k (pre @ s @ 0 # post) (length pre) = Some (ps, pre @ z @ post) \<and>
     length z = Suc (length s) \<and> list_all2 (is_cstr (pre @ z @ post)) ps (take k (words s))"
proof (induction k arbitrary: pre s)
  case 0
  show ?case by (intro exI [of _ "[]"] exI [of _ "s @ [0]"]) simp
next
  case (Suc k)
  show ?case
  proof (cases "words s")
    case Nil
    then have t: "takeWhile is_space_char s = s" using words_Nil by blast
    have "skip_white (pre @ s @ 0 # post) (length pre) = Some (length pre + length s)"
      using skip_white_str [OF Suc.prems, of pre post] unfolding t .
    then show ?thesis
      using Nil by (intro exI [of _ "[]"] exI [of _ "s @ [0]"]) (simp add: rd_def nth_append)
  next
    case (Cons w ws)
    then obtain a b where ab: "s = a @ w @ b" "w \<noteq> []" "words b = ws" "takeWhile is_space_char s = a"
      "takeWhile (\<lambda>c. \<not> is_space_char c) (w @ b) = w" "b \<noteq> [] \<Longrightarrow> is_space_char (hd b)"
      by (rule first_word) blast
    let ?m = "pre @ s @ 0 # post" and ?q = "pre @ a"
    have m: "?m = ?q @ (w @ b) @ 0 # post" using ab(1) by simp
    have nw: "0 \<notin> set (w @ b)" using Suc.prems ab(1) by simp
    have 1: "skip_white ?m (length pre) = Some (length ?q)" using skip_white_str [OF Suc.prems, of pre post] ab(4) by simp
    have 2: "rd ?m (length ?q) = Some (hd w)" using ab(2) unfolding m by (cases w) (simp_all add: rd_def nth_append)
    have 3: "hd w \<noteq> 0" using nw ab(2) by (cases w) auto
    have 4: "skip_word ?m (length ?q) = Some (length (?q @ w))"
      using skip_word_str [OF nw, of ?q post] ab(5) unfolding m by simp
    show ?thesis
    proof (cases b)
      case Nil
      then have "words b = []" by (simp add: words.simps)
      moreover have "rd ?m (length (?q @ w)) = Some 0" using Nil unfolding m by (simp add: rd_def nth_append)
      moreover have "is_cstr ?m (length ?q) w" using is_cstr_mid [of w ?q post] nw Nil unfolding m by simp
      ultimately show ?thesis
        using 1 2 3 4 ab(3) Cons by (intro exI [of _ "[length ?q]"] exI [of _ "s @ [0]"]) (simp del: rd_eq_Some)
    next
      case (Cons c b')
      have c: "is_space_char c" "c \<noteq> 0" using ab(6) nw Cons by auto
      have wb: "words b' = ws" using ab(3) words_space [OF c(1)] Cons by simp
      let ?p = "?q @ w @ [0]"
      have 5: "rd ?m (length (?q @ w)) = Some c" using Cons unfolding m by (simp add: rd_def nth_append)
      have 6: "wr ?m (length (?q @ w)) 0 = Some (?p @ b' @ 0 # post)"
        using Cons unfolding m by (simp add: wr_def list_update_append)
      obtain ps z where ih: "make_argv_loop k (?p @ b' @ 0 # post) (length ?p) = Some (ps, ?p @ z @ post)"
        "length z = Suc (length b')" "list_all2 (is_cstr (?p @ z @ post)) ps (take k (words b'))"
        using Suc.IH [of b' ?p] nw Cons by auto
      have "is_cstr (?p @ z @ post) (length ?q) w" using is_cstr_mid [of w ?q "z @ post"] nw by simp
      then show ?thesis
        using 1 2 3 4 5 6 c ih wb \<open>words s = w # ws\<close> ab(1) Cons
        by (intro exI [of _ "length ?q # ps"] exI [of _ "a @ w @ 0 # z"]) (simp del: rd_eq_Some wr_eq_Some)
    qed
  qed
qed

lemma str_at_cstr: "is_cstr m p s \<Longrightarrow> str_at m p = Some s"
  by (simp add: str_at_def strlen_cstr slice_cstr0)

lemma cand_strs_Name: "list_all2 (is_cstr m) ps ws \<Longrightarrow> cand_strs m (map Name ps) = Some ws"
  by (induction rule: list_all2_induct) (simp_all add: cand_str_def str_at_cstr)

section \<open>Completion\<close>

text \<open>The state of the line editor holds the line \<open>s\<close>.\<close>

definition line_ok :: "bytes \<Rightarrow> line_state \<Rightarrow> bool" where
  "line_ok s st \<longleftrightarrow> is_cstr (ls_buf st) 0 s \<and> ls_n st = int (length s) \<and> length (ls_buf st) = CFG_CBSIZE"

lemma put_completion_cases:
  "put_completion st cnt bs sep = Some (st', out, r) \<Longrightarrow>
   st' = st \<or> (ls_buf st' = blit (ls_buf st) cnt (bs @ [0]) \<and> ls_n st' = ls_n st + int (length bs) \<and>
     ls_n st + int (length bs) < int CFG_CBSIZE - 2)"
  by (auto simp: put_completion_def split: if_splits)

lemma cmd_auto_complete_cases:
  assumes "line_ok s st" "cmd_auto_complete tbl g vbuf prompt st = Some (st', out, r)"
  shows "st' = st \<or> (\<exists>bs. ls_buf st' = blit (ls_buf st) (length s) (bs @ [0]) \<and>
     ls_n st' = ls_n st + int (length bs) \<and> ls_n st + int (length bs) < int CFG_CBSIZE - 2)"
proof -
  have "str_at (ls_buf st) 0 = Some s" using assms(1) by (simp add: line_ok_def str_at_cstr)
  then show ?thesis
    using assms(2) unfolding cmd_auto_complete_def
    by (auto simp: Let_def split: if_splits option.splits Option.bind_splits prod.splits dest!: put_completion_cases)
qed

section \<open>Properties\<close>

text \<open>C20: \<^verbatim>\<open>find_cmd\<close> finds the first entry whose name is the command up to its first dot; if there is none, the
  one entry it abbreviates, and nothing if it abbreviates several or none.\<close>

theorem find_cmd_refines:
  assumes "wf_tbl tbl" "0 \<notin> set c"
  shows "find_cmd tbl c = lookup_spec tbl (cmd_key c)"
  using assms by (rule find_cmd_lookup)

definition sample_cmd :: "string \<Rightarrow> nat \<Rightarrow> cmd_tbl" where
  "sample_cmd n a = \<lparr>cmd_name = bytes_of n, maxargs = 16, repeatable = 1, cmd = a,
     usage_text = Some (bytes_of n @ [10]), help_text = None, complete = None\<rparr>"

definition sample_tbl :: "cmd_tbl list" where
  "sample_tbl = [sample_cmd ''run'' 1, sample_cmd ''cp'' 2, sample_cmd ''crc32'' 3, sample_cmd ''cpx'' 4]"

lemma sample_tbl_wf: "wf_tbl sample_tbl"
  by (simp add: sample_tbl_def sample_cmd_def)

lemma find_cmd_refines_witness:
  "find_cmd sample_tbl (bytes_of ''cp.b'') = Some 1 \<and> find_cmd sample_tbl (bytes_of ''ru'') = Some 0 \<and>
   find_cmd sample_tbl (bytes_of ''c'') = None"
  using find_cmd_refines [OF sample_tbl_wf, of "bytes_of ''cp.b''"] find_cmd_refines [OF sample_tbl_wf, of "bytes_of ''ru''"]
    find_cmd_refines [OF sample_tbl_wf, of "bytes_of ''c''"]
  by (simp add: cmd_key_def lookup_spec_def candidates_Cons sample_tbl_def sample_cmd_def)

text \<open>\<^verbatim>\<open>help\<close> sorts: the result is a permutation of the table, in the order of \<^verbatim>\<open>strcmp\<close> on the names.\<close>

theorem help_sorts:
  assumes "wf_tbl tbl"
  shows "mset (bubble_sort (length tbl - 1) tbl) = mset tbl \<and>
    sorted_wrt (\<lambda>a b. str_cmp (cmd_name a) (cmd_name b) \<le> 0) (bubble_sort (length tbl - 1) tbl)"
proof (cases tbl)
  case (Cons t ts)
  then have "mset (bubble_sort (length tbl - 1) tbl) = mset tbl \<and> sorted_wrt cmd_le (bubble_sort (length tbl - 1) tbl)"
    using bubble_sort_spec [of "length tbl - 1" tbl] assms by simp
  then show ?thesis by (simp add: str_le_def)
qed simp

lemma help_sorts_witness:
  "sorted_wrt (\<lambda>a b. str_cmp (cmd_name a) (cmd_name b) \<le> 0) (bubble_sort 3 sample_tbl) \<and>
   map cmd (bubble_sort 3 sample_tbl) = [2, 4, 3, 1]"
proof -
  have "length sample_tbl - 1 = 3" by (simp add: sample_tbl_def)
  then have "sorted_wrt (\<lambda>a b. str_cmp (cmd_name a) (cmd_name b) \<le> 0) (bubble_sort 3 sample_tbl)"
    using help_sorts [OF sample_tbl_wf] by metis
  moreover have "map cmd (bubble_sort 3 sample_tbl) = [2, 4, 3, 1]" by code_simp
  ultimately show ?thesis by blast
qed

text \<open>C29: \<^verbatim>\<open>test\<close> on a chain of conditions applies the connectives from the left, whatever they are, and a
  leading \<^verbatim>\<open>!\<close> negates the whole chain; the exit code is zero for true.\<close>

theorem do_test_value:
  assumes "wf_cond c" "list_all (\<lambda>(k, d). wf_cond d) cs" "neg \<or> str_cmp (hd (cond_args c)) (bytes_of ''!'') \<noteq> 0"
  shows "do_test (bytes_of ''test'' # (if neg then [bytes_of ''!''] else []) @ chain_args c cs)
    = Some (c_bool (chain_val c cs = neg))"
proof -
  obtain x y zs where xs: "chain_args c cs = x # y # zs" "x = hd (cond_args c)"
    unfolding chain_args_def by (cases c) auto
  have "test_loop (chain_args c cs) (-1) (-1) (-1) = Some (c_bool (chain_val c cs))"
    using test_loop_cond [OF assms(1)] test_loop_chain [OF assms(1,2)]
    by (simp add: chain_args_def chain_val_def test_join_def)
  then show ?thesis
    using assms(3) xs unfolding do_test_def by (cases neg) (auto simp: Let_def simp del: bytes_of_Cons)
qed

lemma do_test_value_witness:
  "do_test (map bytes_of [''test'', ''!'', ''a'', ''='', ''b'', ''-o'', ''-n'', ''x'', ''-a'', ''-z'', ''y'']) = Some 0"
proof -
  let ?c = "Binary (bytes_of ''a'') (bytes_of ''='') (bytes_of ''b'')"
  let ?cs = "[(Or, Nonempty (bytes_of ''x'')), (And, Empty (bytes_of ''y''))]"
  have "wf_cond ?c" by (simp add: option_words_def test_op_def) (rule exI [of _ False], simp)
  then show ?thesis
    using do_test_value [of ?c ?cs True] by (simp add: chain_args_def chain_val_def bytes_of_eq_Nil del: bytes_of_Cons)
qed

text \<open>\<^verbatim>\<open>find_common_prefix\<close> is the length of the longest common prefix of its arguments.\<close>

theorem find_common_prefix_longest:
  assumes "0 \<notin> set a"
  shows "take (find_common_prefix (a # as)) a = Longest_common_prefix (set (a # as)) \<and>
    find_common_prefix (a # as) = length (Longest_common_prefix (set (a # as)))"
proof -
  let ?n = "find_common_prefix (a # as)"
  have p: "prefix ps (take ?n a) \<longleftrightarrow> (\<forall>t\<in>set (a # as). prefix ps t)" "?n \<le> length a" for ps
    using prefix_loop_prefix [of "length a" a as ps] assms by (simp_all add: find_common_prefix_def)
  have "length qs \<le> length (take ?n a)" if "\<forall>t\<in>set (a # as). prefix qs t" for qs
  proof (rule prefix_length_le)
    show "prefix qs (take ?n a)" using that p(1) [of qs] by blast
  qed
  then have "Longest_common_prefix (set (a # as)) = take ?n a"
    using p(1) [of "take ?n a"] by (intro Longest_common_prefix_eq) auto
  then show ?thesis using p(2) by simp
qed

lemma find_common_prefix_longest_witness:
  "find_common_prefix [[1, 2, 3], [1, 2, 4], [1, 2]] = length (Longest_common_prefix {[1, 2, 3 :: u8], [1, 2, 4], [1, 2]})"
  using find_common_prefix_longest [of "[1, 2, 3]" "[[1, 2, 4], [1, 2]]"] by simp

text \<open>\<^verbatim>\<open>make_argv\<close> finds the words of the line, as many as fit, each closed by a NUL.\<close>

theorem make_argv_words:
  assumes "0 \<notin> set s"
  shows "\<exists>ps m. make_argv (s @ [0]) 0 n = Some (ps, m) \<and> length m = Suc (length s) \<and>
    list_all2 (is_cstr m) ps (take (n - 1) (words s))"
  using make_argv_loop_words [OF assms, of "n - 1" "[]" "[]"] by (auto simp: make_argv_def)

lemma make_argv_words_witness: "\<exists>ps m. make_argv [97, 32, 98, 99, 0] 0 17 = Some (ps, m) \<and> length ps = 2"
proof -
  have "words [97, 32, 98, 99] = [[97], [98, 99]]"
    by (simp add: words.simps [of "_ # _"] is_space_char_def Let_def)
  then show ?thesis
    using make_argv_words [of "[97, 32, 98, 99]" 17] by (auto dest!: list_all2_lengthD)
qed

text \<open>C34: Completion only appends to the line, keeps the count of the editor right and the line shorter than
  \<^verbatim>\<open>CFG_CBSIZE - 2\<close>.\<close>

theorem cmd_auto_complete_bounds:
  assumes "line_ok s st" "length s < CFG_CBSIZE - 2" "cmd_auto_complete tbl g vbuf prompt st = Some (st', out, r)"
  shows "\<exists>m. ls_n st' = int (length s + m) \<and> length s + m < CFG_CBSIZE - 2 \<and>
    length (ls_buf st') = CFG_CBSIZE \<and> take (length s) (ls_buf st') = s \<and> ls_buf st' ! (length s + m) = 0"
proof -
  have s: "ls_n st = int (length s)" "length (ls_buf st) = CFG_CBSIZE" "ls_buf st ! length s = 0"
    "take (length s) (ls_buf st) = s"
    using assms(1) is_cstr_end [of "ls_buf st" 0 s] slice_cstr0 [of "ls_buf st" 0 s]
    by (simp_all add: line_ok_def slice_def)
  consider "st' = st" | bs where "ls_buf st' = blit (ls_buf st) (length s) (bs @ [0])"
    "ls_n st' = ls_n st + int (length bs)" "ls_n st + int (length bs) < int CFG_CBSIZE - 2"
    using cmd_auto_complete_cases [OF assms(1,3)] by blast
  then show ?thesis
  proof cases
    case 1
    then show ?thesis using s assms(2) by (intro exI [of _ 0]) simp
  next
    case 2
    then have "length s + length bs < CFG_CBSIZE - 2" using s(1) by simp
    then show ?thesis
      using 2 s by (intro exI [of _ "length bs"]) (simp add: blit_splice nth_append CFG_CBSIZE_def)
  qed
qed

definition sample_line :: line_state where
  "sample_line = \<lparr>ls_buf = bytes_of ''pri'' @ replicate 509 0, ls_n = 3, ls_col = 11\<rparr>"

definition print_tbl :: "cmd_tbl list" where
  "print_tbl = [sample_cmd ''cp'' 1, sample_cmd ''printenv'' 2]"

lemma cmd_auto_complete_bounds_witness:
  "\<exists>st' out m. cmd_auto_complete print_tbl undefined [] CFG_PROMPT sample_line = Some (st', out, 1) \<and>
     take 9 (ls_buf st') = bytes_of ''printenv '' \<and> ls_n st' = int (3 + m) \<and> 3 + m < CFG_CBSIZE - 2"
proof -
  have ok: "line_ok (bytes_of ''pri'') sample_line"
    by (simp add: line_ok_def sample_line_def CFG_CBSIZE_def rd_def)
  have "map_option (\<lambda>(st, out, r). (take 9 (ls_buf st), r)) (cmd_auto_complete print_tbl undefined [] CFG_PROMPT sample_line) =
      Some (bytes_of ''printenv '', 1)"
    by code_simp
  then obtain st' out where e: "cmd_auto_complete print_tbl undefined [] CFG_PROMPT sample_line = Some (st', out, 1)"
    "take 9 (ls_buf st') = bytes_of ''printenv ''"
    by auto
  show ?thesis
    using cmd_auto_complete_bounds [OF ok _ e(1)] e by (auto simp: CFG_CBSIZE_def)
qed

text \<open>A word with a length modifier that abbreviates or names exactly one command but is longer than its name
  makes the completion read behind the name.\<close>

theorem completion_past_name:
  assumes "line_ok s st" "words s = [w]" "s \<noteq> []" "\<not> is_space_char (last s)"
    and "partial_matches tbl w (cmd_len w) 20 [] = [n]" "length n < length w"
  shows "cmd_auto_complete tbl g vbuf CFG_PROMPT st = None"
proof -
  have s: "str_at (ls_buf st) 0 = Some s" "0 \<notin> set s"
    using assms(1) by (auto simp: line_ok_def str_at_cstr dest: is_cstr_nul_free)
  obtain ps m where a: "make_argv (s @ [0]) 0 (CFG_MAXARGS + 1) = Some (ps, m)" "cand_strs m (map Name ps) = Some [w]"
    using make_argv_loop_words [OF s(2), of 16 "[]" "[]"] assms(2) cand_strs_Name
    by (auto simp: make_argv_def CFG_MAXARGS_def)
  have l: "s ! (length s - 1) = last s" "last s \<noteq> 0" using assms(3) s(2) last_in_set [of s] by (simp add: last_conv_nth, metis)
  have "complete_cmdv tbl g vbuf [w] (last s) 20 = Some (1, [n])"
    using assms(4,5) l by (simp add: complete_cmdv_def)
  then show ?thesis
    using s a l assms(3,6) by (simp add: cmd_auto_complete_def Let_def Suc_le_eq)
qed

lemma completion_past_name_witness:
  "cmd_auto_complete print_tbl undefined [] CFG_PROMPT
     \<lparr>ls_buf = bytes_of ''cp.b'' @ replicate 508 0, ls_n = 4, ls_col = 12\<rparr> = None"
proof (rule completion_past_name [where s = "bytes_of ''cp.b''" and w = "bytes_of ''cp.b''" and n = "bytes_of ''cp''"])
  show "line_ok (bytes_of ''cp.b'') \<lparr>ls_buf = bytes_of ''cp.b'' @ replicate 508 0, ls_n = 4, ls_col = 12\<rparr>"
    by (simp add: line_ok_def CFG_CBSIZE_def rd_def)
  show "words (bytes_of ''cp.b'') = [bytes_of ''cp.b'']"
    by (simp add: words.simps [of "_ # _"] is_space_char_def Let_def) (simp add: byte_of_def)
  show "partial_matches print_tbl (bytes_of ''cp.b'') (cmd_len (bytes_of ''cp.b'')) 20 [] = [bytes_of ''cp'']"
    by code_simp
qed (simp_all, simp add: byte_of_def is_space_char_def)

end
