(* ===== verification/ParserProps.thy ===== *)
theory ParserProps
  imports Parser CommandProps EnvProps
begin

text \<open>
  The command interpreter: words, macro expansion against the environment, the execution of a line as a
  script, nested \<^verbatim>\<open>run\<close>, and the line editor as an editor of lists.
\<close>

section \<open>Splitting\<close>

lemma parse_line_loop_argv:
  "make_argv_loop k m s = Some (ps, m') \<Longrightarrow>
   \<exists>cells. parse_line_loop k m s = Some (cells, m') \<and>
     (cells = map Some ps @ [None] \<or> cells = map Some ps \<and> length ps = k)"
proof (induction k arbitrary: m s ps)
  case (Suc k)
  obtain b c where b: "skip_white m s = Some b" "rd m b = Some c"
    using Suc.prems by (auto split: Option.bind_splits)
  show ?case
  proof (cases "c = 0")
    case True
    then show ?thesis using Suc.prems b by (simp del: rd_eq_Some)
  next
    case False
    obtain e d where e: "skip_word m b = Some e" "rd m e = Some d"
      using Suc.prems b False by (auto split: Option.bind_splits simp del: rd_eq_Some)
    show ?thesis
    proof (cases "d = 0")
      case True
      then show ?thesis using Suc.prems b e False by (auto simp del: rd_eq_Some)
    next
      case nz: False
      obtain m1 qs where m1: "wr m e 0 = Some m1" "make_argv_loop k m1 (Suc e) = Some (qs, m')" "ps = b # qs"
        using Suc.prems b e False nz by (auto split: Option.bind_splits simp del: rd_eq_Some wr_eq_Some)
      obtain cells where "parse_line_loop k m1 (Suc e) = Some (cells, m')"
        "cells = map Some qs @ [None] \<or> cells = map Some qs \<and> length qs = k"
        using Suc.IH [OF m1(2)] by blast
      then show ?thesis using b e False nz m1 by (auto simp del: rd_eq_Some wr_eq_Some)
    qed
  qed
qed simp

lemma filter_map_Some [simp]: "filter (\<lambda>x. x \<noteq> None) (map Some ps) = map Some ps"
  by (induction ps) auto

lemma parse_line_ok:
  assumes "0 \<notin> set s"
  obtains ps cells m msg where "parse_line (s @ [0]) 0 = Some (ps, cells, m, msg)"
    "list_all2 (is_cstr m) ps (take CFG_MAXARGS (words s))" "make_argv (s @ [0]) 0 (CFG_MAXARGS + 1) = Some (ps, m)"
    "cells = map Some ps @ [None] \<and> msg = [] \<or> cells = map Some ps \<and> length ps = CFG_MAXARGS \<and> msg = too_many"
proof -
  obtain ps m where m: "make_argv_loop CFG_MAXARGS (s @ [0]) 0 = Some (ps, m)"
    "list_all2 (is_cstr m) ps (take CFG_MAXARGS (words s))"
    using make_argv_loop_words [OF assms, of CFG_MAXARGS "[]" "[]"] by auto
  obtain cells where c: "parse_line_loop CFG_MAXARGS (s @ [0]) 0 = Some (cells, m)"
    "cells = map Some ps @ [None] \<or> cells = map Some ps \<and> length ps = CFG_MAXARGS"
    using parse_line_loop_argv [OF m(1)] by blast
  show ?thesis
    by (rule that [of ps cells m "if None \<in> set cells then [] else too_many"])
       (use m c in \<open>auto simp: parse_line_def make_argv_def comp_def\<close>)
qed

lemma parse_line_overflow:
  "0 \<notin> set s \<Longrightarrow> k < length (words s) \<Longrightarrow> parse_line_loop k (pre @ s @ 0 # post) (length pre) = Some (cells, m) \<Longrightarrow>
   None \<notin> set cells"
proof (induction k arbitrary: pre s cells)
  case (Suc k)
  then obtain w ws where w: "words s = w # ws" by (cases "words s") auto
  then obtain a b where ab: "s = a @ w @ b" "w \<noteq> []" "words b = ws" "takeWhile is_space_char s = a"
    "takeWhile (\<lambda>c. \<not> is_space_char c) (w @ b) = w" "b \<noteq> [] \<Longrightarrow> is_space_char (hd b)"
    by (rule first_word) blast
  have "b \<noteq> []" using ab(3) Suc.prems(2) w by auto
  then obtain c b' where b: "b = c # b'" by (cases b) auto
  let ?m = "pre @ s @ 0 # post" and ?q = "pre @ a"
  have m: "?m = ?q @ (w @ b) @ 0 # post" using ab(1) by simp
  have nw: "0 \<notin> set (w @ b)" using Suc.prems(1) ab(1) by simp
  have c: "is_space_char c" "c \<noteq> 0" using ab(6) nw b by auto
  have 1: "skip_white ?m (length pre) = Some (length ?q)" using skip_white_str [OF Suc.prems(1), of pre post] ab(4) by simp
  have 2: "rd ?m (length ?q) = Some (hd w)" "hd w \<noteq> 0"
    using ab(2) nw unfolding m by (cases w; simp add: rd_def nth_append)+
  have 3: "skip_word ?m (length ?q) = Some (length (?q @ w))"
    using skip_word_str [OF nw, of ?q post] ab(5) unfolding m by simp
  let ?p = "?q @ w @ [0]"
  have 4: "rd ?m (length (?q @ w)) = Some c" using b unfolding m by (simp add: rd_def nth_append)
  have 5: "wr ?m (length (?q @ w)) 0 = Some (?p @ b' @ 0 # post)"
    using b unfolding m by (simp add: wr_def list_update_append)
  obtain cs where cs: "parse_line_loop k (?p @ b' @ 0 # post) (length ?p) = Some (cs, m)" "cells = Some (length ?q) # cs"
    using Suc.prems(3) 1 2 3 4 5 c by (auto split: Option.bind_splits simp del: rd_eq_Some wr_eq_Some)
  have "k < length (words b')" using Suc.prems(2) w ab(3) b words_space [OF c(1)] by simp
  then show ?case using Suc.IH [of b' ?p cs] nw b cs by auto
qed auto

section \<open>Macros\<close>

text \<open>More room for the output only makes it longer.\<close>

definition narrowed :: "nat \<Rightarrow> macro_state \<Rightarrow> macro_state \<Rightarrow> bool" where
  "narrowed n pm pn \<longleftrightarrow> pm_state pn = pm_state pm \<and> pm_name pn = pm_name pm \<and> pm_out pn = take n (pm_out pm) \<and>
     pm_outputcnt pn = n - length (pm_out pm) \<and> length (pm_out pm) + pm_outputcnt pm \<ge> n"

lemma pm_step_grows: "pm_step genv esc c prev pm = Some q \<Longrightarrow> prefix (pm_out pm) (pm_out q)"
  by (auto simp: pm_step_def pm_put_def Let_def prefix_def split: if_splits Option.bind_splits option.splits)

text \<open>The loop, one character at a time.\<close>

lemma pm_loop_cases:
  assumes "pm_loop genv (c # input) prev pm = Some q" "pm_outputcnt pm \<noteq> 0"
  obtains "input = []" "q = pm" "pm_state pm \<noteq> 3" "c = byte_of (CHR 0x5C)" "prev \<noteq> byte_of (CHR 0x5C)"
  | d input' pm' where "input = d # input'" "pm_step genv [c] d c pm = Some pm'" "pm_loop genv input' d pm' = Some q"
      "pm_state pm \<noteq> 3" "c = byte_of (CHR 0x5C)" "prev \<noteq> byte_of (CHR 0x5C)"
  | pm' where "pm_step genv [] c prev pm = Some pm'" "pm_loop genv input c pm' = Some q"
      "\<not> (pm_state pm \<noteq> 3 \<and> c = byte_of (CHR 0x5C) \<and> prev \<noteq> byte_of (CHR 0x5C))"
  using assms by (auto split: if_splits list.splits Option.bind_splits)

lemma pm_loop_grows: "pm_loop genv input prev pm = Some q \<Longrightarrow> prefix (pm_out pm) (pm_out q)"
proof (induction "length input" arbitrary: input prev pm rule: less_induct)
  case less
  show ?case
  proof (cases input)
    case (Cons c input')
    show ?thesis
    proof (cases "pm_outputcnt pm = 0")
      case False
      from less.prems [unfolded Cons] False show ?thesis
      proof (cases rule: pm_loop_cases)
        case (2 d input'' pm')
        then show ?thesis
          using less.hyps [of input'' d pm'] pm_step_grows [OF 2(2)] Cons by (auto intro: prefix_order.trans)
      next
        case (3 pm')
        then show ?thesis
          using less.hyps [of input' c pm'] pm_step_grows [OF 3(1)] Cons by (auto intro: prefix_order.trans)
      qed simp
    qed (use less.prems Cons in simp)
  qed (use less.prems in simp)
qed

lemma pm_step_narrowed:
  assumes "narrowed n pm pn" "0 < pm_outputcnt pn" "pm_step genv esc c prev pm = Some q"
  shows "\<exists>qn. pm_step genv esc c prev pn = Some qn \<and> narrowed n q qn"
proof -
  have cnt: "length (pm_out pm) < n" "n - length (pm_out pm) \<le> pm_outputcnt pm"
    using assms(1,2) by (auto simp: narrowed_def)
  have pn: "pn = pm\<lparr>pm_outputcnt := n - length (pm_out pm)\<rparr>"
    using assms(1) cnt by (auto simp: narrowed_def)
  consider "pm_state pm = 0" | "pm_state pm = 1" | "pm_state pm = 2" | "2 < pm_state pm" by linarith
  then show ?thesis
  proof cases
    case 1
    then show ?thesis
      using assms(3) cnt unfolding pn pm_step_def by (simp add: narrowed_def pm_put_def split: if_splits) auto
  next
    case 2
    then show ?thesis
      using assms(3) cnt unfolding pn pm_step_def
      by (simp add: narrowed_def pm_put_def Let_def split: if_splits) (auto simp: take_Cons')
  next
    case 3
    then show ?thesis
      using assms(3) cnt unfolding pn pm_step_def
      by (cases "genv (pm_name pm @ esc)")
         (auto simp: narrowed_def Let_def min_def split: if_splits option.splits)
  next
    case 4
    then show ?thesis
      using assms(3) cnt unfolding pn pm_step_def by (simp add: narrowed_def pm_put_def split: if_splits) auto
  qed
qed

lemma pm_loop_narrowed:
  "narrowed n pm pn \<Longrightarrow> pm_loop genv input prev pm = Some q \<Longrightarrow>
   \<exists>qn. pm_loop genv input prev pn = Some qn \<and> pm_out qn = take n (pm_out q) \<and>
     pm_outputcnt qn = n - length (pm_out q)"
proof (induction "length input" arbitrary: input prev pm pn rule: less_induct)
  case less
  note nar = less.prems(1)
  show ?case
  proof (cases input)
    case Nil
    then show ?thesis using less.prems by (simp add: narrowed_def)
  next
    case (Cons c input')
    show ?thesis
    proof (cases "pm_outputcnt pn = 0")
      case True
      then have "n \<le> length (pm_out pm)" using nar by (simp add: narrowed_def)
      moreover obtain r where "pm_out q = pm_out pm @ r" using pm_loop_grows [OF less.prems(2)] by (auto simp: prefix_def)
      ultimately show ?thesis using True nar Cons by (simp add: narrowed_def)
    next
      case False
      then have pc: "pm_outputcnt pm \<noteq> 0" using nar by (auto simp: narrowed_def)
      have st: "pm_state pn = pm_state pm" using nar by (simp add: narrowed_def)
      from less.prems(2) [unfolded Cons] pc show ?thesis
      proof (cases rule: pm_loop_cases)
        case 1
        then show ?thesis using Cons False nar st by (auto simp: narrowed_def)
      next
        case (2 d input'' pm')
        obtain pn' where "pm_step genv [c] d c pn = Some pn'" "narrowed n pm' pn'"
          using pm_step_narrowed [OF nar _ 2(2)] False by blast
        then show ?thesis using less.hyps [OF _ _ 2(3), of pn'] 2 Cons False st by simp
      next
        case (3 pm')
        obtain pn' where "pm_step genv [] c prev pn = Some pn'" "narrowed n pm' pn'"
          using pm_step_narrowed [OF nar _ 3(1)] False by blast
        then show ?thesis using less.hyps [OF _ _ 3(2), of pn'] 3 Cons False st by auto
      qed
    qed
  qed
qed

text \<open>Text without the characters the macros know, \<open>special\<close>, is copied.\<close>

definition special :: "bytes" where
  "special = [byte_of (CHR 0x5C), byte_of (CHR 0x27), byte_of (CHR ''$'')]"

lemma pm_loop_plain:
  "set s \<inter> set special = {} \<Longrightarrow> prev \<noteq> byte_of (CHR 0x5C) \<Longrightarrow> pm_state pm = 0 \<Longrightarrow> length s < pm_outputcnt pm \<Longrightarrow>
   pm_loop genv (s @ input) prev pm =
     pm_loop genv input (last (prev # s)) (pm\<lparr>pm_out := pm_out pm @ s, pm_outputcnt := pm_outputcnt pm - length s\<rparr>)"
proof (induction s arbitrary: prev pm)
  case (Cons c s)
  have "pm_step genv [] c prev pm = Some (pm_put c pm)"
    using Cons.prems by (auto simp: pm_step_def special_def)
  then show ?case
    using Cons.prems Cons.IH [of c "pm_put c pm"] by (auto simp: special_def pm_put_def)
qed simp

lemma pm_loop_name:
  "set nm \<inter> set (special @ bytes_of '')}'') = {} \<Longrightarrow> prev \<noteq> byte_of (CHR 0x5C) \<Longrightarrow> pm_state pm = 2 \<Longrightarrow>
   0 < pm_outputcnt pm \<Longrightarrow>
   pm_loop genv (nm @ input) prev pm = pm_loop genv input (last (prev # nm)) (pm\<lparr>pm_name := pm_name pm @ nm\<rparr>)"
proof (induction nm arbitrary: prev pm)
  case (Cons c nm)
  have "pm_step genv [] c prev pm = Some (pm\<lparr>pm_name := pm_name pm @ [c]\<rparr>)"
    using Cons.prems by (auto simp: pm_step_def special_def)
  then show ?case
    using Cons.prems Cons.IH [of c "pm\<lparr>pm_name := pm_name pm @ [c]\<rparr>"] by (auto simp: special_def)
qed simp

lemma last_not_special: "set s \<inter> set special = {} \<Longrightarrow> x \<notin> set special \<Longrightarrow> last (x # s) \<notin> set special"
  by (cases "s = []") (use last_in_set [of s] in \<open>auto simp del: last_in_set\<close>)

lemma pm_init_simps [simp]: "pm_state (pm_init n) = 0" "pm_out (pm_init n) = []" "pm_outputcnt (pm_init n) = n"
  by (simp_all add: pm_init_def)

lemma process_macros_narrowed:
  assumes "pm_loop genv input 0 (pm_init n) = Some q" "CFG_CBSIZE \<le> n"
  shows "process_macros genv input =
    Some (take CFG_CBSIZE (pm_out q) @ (if length (pm_out q) < CFG_CBSIZE then [0] else []))"
proof -
  have "narrowed CFG_CBSIZE (pm_init n) (pm_init CFG_CBSIZE)" using assms(2) by (simp add: narrowed_def pm_init_def)
  then show ?thesis using pm_loop_narrowed [OF _ assms(1)] by (fastforce simp: process_macros_def)
qed

lemma process_macros_plain:
  "set s \<inter> set special = {} \<Longrightarrow> length s < CFG_CBSIZE \<Longrightarrow> process_macros genv s = Some (s @ [0])"
  using pm_loop_plain [of s 0 "pm_init CFG_CBSIZE" genv "[]"] by (simp add: process_macros_def)

text \<open>One macro in plain text, with room for everything.\<close>

lemma process_macros_one:
  assumes "set pre \<inter> set special = {}" "set nm \<inter> set (special @ bytes_of '')}'') = {}" "set post \<inter> set special = {}"
    and "genv nm = Some v" "length (pre @ case_option [] id v @ post) < CFG_CBSIZE"
  shows "process_macros genv (pre @ bytes_of ''${'' @ nm @ bytes_of ''}'' @ post) = Some (pre @ case_option [] id v @ post @ [0])"
proof -
  let ?b = "byte_of (CHR 0x5C)"
  let ?n = "CFG_CBSIZE - length pre"
  have n: "0 < ?n" "length (case_option [] id v) + length post < ?n" using assms(5) by (auto split: option.splits)
  define pm0 where "pm0 = (pm_init CFG_CBSIZE)\<lparr>pm_out := pre, pm_outputcnt := ?n\<rparr>"
  define pm2 where "pm2 = pm0\<lparr>pm_state := 2, pm_name := []\<rparr>"
  define pm3 where "pm3 = pm2\<lparr>pm_name := nm\<rparr>"
  define pm4 where "pm4 = pm3\<lparr>pm_state := 0, pm_out := pre @ case_option [] id v, pm_outputcnt := ?n - length (case_option [] id v)\<rparr>"
  let ?i2 = "nm @ bytes_of ''}'' @ post" and ?i4 = "post @ []"
  have l: "last (0 # pre) \<noteq> ?b" using last_not_special [OF assms(1), of 0] by (auto simp: special_def)
  have "pm_loop genv (pre @ bytes_of ''${'' @ ?i2) 0 (pm_init CFG_CBSIZE) =
      pm_loop genv (bytes_of ''${'' @ ?i2) (last (0 # pre)) pm0"
    using pm_loop_plain [OF assms(1), of 0 "pm_init CFG_CBSIZE"] assms(5) by (simp add: pm0_def)
  also have "\<dots> = pm_loop genv ?i2 (byte_of (CHR ''{'')) pm2"
    using l n by (simp add: pm_step_def pm0_def pm2_def)
  also have "\<dots> = pm_loop genv (bytes_of ''}'' @ post) (last (byte_of (CHR ''{'') # nm)) pm3"
    using pm_loop_name [OF assms(2), of "byte_of (CHR ''{'')" pm2 genv] n by (simp add: pm2_def pm0_def pm3_def)
  also have "\<dots> = pm_loop genv ?i4 (byte_of (CHR ''}'')) pm4"
    using n assms(4) by (simp add: pm_step_def pm3_def pm2_def pm0_def pm4_def Let_def split: option.splits)
  also have "\<dots> = Some (pm4\<lparr>pm_out := pm_out pm4 @ post, pm_outputcnt := pm_outputcnt pm4 - length post\<rparr>)"
    using pm_loop_plain [OF assms(3), of "byte_of (CHR ''}'')" pm4 genv "[]"] n
    by (simp add: pm4_def pm3_def pm2_def pm0_def)
  finally show ?thesis using n by (simp add: process_macros_def pm4_def)
qed

text \<open>The environment supplies the values.\<close>

lemma env_value_ok:
  assumes "env_ok (env_mem g) es" "wf_name name" "env_valid g \<noteq> 0"
  shows "env_value g name = Some (map_of es name)"
proof (cases "map_of es name")
  case None
  then show ?thesis using getenv_ok [OF assms] by (simp add: env_value_def)
next
  case (Some v)
  then obtain a where "getenv name g = Some (Some a)" "is_cstr (env_mem g) a v" using getenv_ok [OF assms] by auto
  then show ?thesis using Some by (simp add: env_value_def str_at_cstr)
qed

section \<open>A line as a script\<close>

text \<open>Characters that neither separate nor quote commands.\<close>

definition plain :: "bytes \<Rightarrow> bool" where
  "plain s \<longleftrightarrow> 0 \<notin> set s \<and> byte_of (CHR '';'') \<notin> set s \<and> set s \<inter> set special = {}"

lemma find_sep_plain:
  assumes "plain s" "m = pre @ s @ c # post" "c = 0 \<or> c = byte_of (CHR '';'')" "length str \<le> length pre" "c = 0 \<or> length str < length pre + length s"
    and "s = [] \<Longrightarrow> c = 0 \<or> (pre \<noteq> [] \<and> last pre \<noteq> byte_of (CHR 0x5C))"
  shows "find_sep m (length str) (length pre) False = Some (length pre + length s)"
  using assms
proof (induction s arbitrary: pre)
  case Nil
  then show ?case
    by (subst find_sep.simps) (auto simp: rd_before_def rd_def nth_append last_conv_nth)
next
  case (Cons x s)
  have x: "x \<noteq> 0" "x \<noteq> byte_of (CHR '';'')" "x \<noteq> byte_of (CHR 0x27)" "x \<noteq> byte_of (CHR 0x5C)" "plain s"
    using Cons.prems(1) by (auto simp: plain_def special_def)
  have "find_sep m (length str) (length (pre @ [x])) False = Some (length (pre @ [x]) + length s)"
    using Cons.prems x by (intro Cons.IH) auto
  then show ?case
    using x Cons.prems(2) by (subst find_sep.simps) (simp add: rd_def nth_append)
qed

text \<open>The tokens of a line, joined by separators, and what their execution in turn gives.\<close>

fun join :: "bytes list \<Rightarrow> bytes" where
  "join [] = []"
| "join [t] = t"
| "join (t # ts) = t @ byte_of (CHR '';'') # join ts"

fun run_tokens :: "cmd_tbl list \<Rightarrow> nat \<Rightarrow> 'x routine \<Rightarrow> bytes list \<Rightarrow> 'x run_vars \<Rightarrow> ('x sys_scheme \<times> int) option" where
  "run_tokens tbl b call [] (s, flag, rc, rep) = Some (s, if rc \<noteq> 0 then rc else rep)"
| "run_tokens tbl b call (t # ts) v = do {
     (v', stopped) \<leftarrow> run_token tbl b call t v;
     if stopped then Some (fst v', 0) else run_tokens tbl b call ts v' }"

lemma run_loop_tokens:
  "\<forall>t\<in>set ts. plain t \<and> t \<noteq> [] \<Longrightarrow>
   run_loop tbl b call (pre @ join ts @ [0]) (length pre) v = run_tokens tbl b call ts v"
proof (induction ts arbitrary: pre v)
  case Nil
  then show ?case by (subst run_loop.simps) (cases v, simp add: rd_def)
next
  case (Cons t ts)
  have t: "plain t" "t \<noteq> []" "0 \<notin> set t" using Cons.prems by (auto simp: plain_def)
  then obtain x t' where x: "t = x # t'" "x \<noteq> 0" by (cases t) auto
  show ?case
  proof (cases ts)
    case Nil
    have "find_sep (pre @ t @ [0]) (length pre) (length pre) False = Some (length pre + length t)"
      using find_sep_plain [OF t(1), of _ pre 0 "[]" pre] t(2) by simp
    moreover have "str_at (pre @ t @ [0]) (length pre) = Some t" using is_cstr_mid [OF t(3), of pre "[]"] by (simp add: str_at_cstr)
    moreover have "run_loop tbl b call (pre @ t @ [0]) (length pre + length t) w = run_tokens tbl b call [] w" for w
      by (subst run_loop.simps) (cases w, simp add: rd_def)
    ultimately show ?thesis
      using Nil x by (subst run_loop.simps) (simp add: rd_def nth_append Let_def cong: if_cong)
  next
    case (Cons u us)
    let ?r = "join ts @ [0]" and ?sc = "byte_of (CHR '';'')"
    have j: "join (t # ts) = t @ ?sc # join ts" using Cons by simp
    have "find_sep (pre @ t @ ?sc # ?r) (length pre) (length pre) False = Some (length pre + length t)"
      using find_sep_plain [OF t(1), of _ pre ?sc ?r pre] t(2) by simp
    moreover have "(pre @ t @ ?sc # ?r)[length pre + length t := 0] = pre @ t @ 0 # ?r"
      by (simp add: list_update_append)
    moreover have "str_at (pre @ t @ 0 # ?r) (length pre) = Some t"
      using is_cstr_mid [OF t(3), of pre ?r] by (simp add: str_at_cstr)
    moreover have "run_loop tbl b call (pre @ t @ 0 # ?r) (Suc (length pre + length t)) w = run_tokens tbl b call ts w" for w
      using Cons.IH [of "pre @ t @ [0]"] Cons.prems by simp
    ultimately show ?thesis
      using x unfolding j by (subst run_loop.simps) (simp add: rd_def nth_append Let_def cong: if_cong)
  qed
qed

text \<open>The same on word lists: a script.\<close>

fun run_script :: "cmd_tbl list \<Rightarrow> nat \<Rightarrow> 'x routine \<Rightarrow> bytes list list \<Rightarrow> 'x run_vars \<Rightarrow> ('x sys_scheme \<times> int) option" where
  "run_script tbl b call [] (s, flag, rc, rep) = Some (s, if rc \<noteq> 0 then rc else rep)"
| "run_script tbl b call (ws # wss) v = do {
     (v', stopped) \<leftarrow> run_words tbl b call ws v;
     if stopped then Some (fst v', 0) else run_script tbl b call wss v' }"

lemma puts_Nil [simp]: "puts [] s = s"
  by (simp add: puts_def)

lemma words_parse:
  assumes "0 \<notin> set t" "length (words t) < CFG_MAXARGS"
  obtains ps cells m where "parse_line (t @ [0]) 0 = Some (ps, cells, m, [])" "cand_strs m (map Name ps) = Some (words t)"
proof -
  obtain ps cells m msg where p: "parse_line (t @ [0]) 0 = Some (ps, cells, m, msg)"
    "list_all2 (is_cstr m) ps (take CFG_MAXARGS (words t))"
    "cells = map Some ps @ [None] \<and> msg = [] \<or> cells = map Some ps \<and> length ps = CFG_MAXARGS \<and> msg = too_many"
    using parse_line_ok [OF assms(1)] by metis
  have w: "take CFG_MAXARGS (words t) = words t" using assms(2) by simp
  then have "length ps < CFG_MAXARGS" using p(2) assms(2) by (auto dest: list_all2_lengthD)
  then show ?thesis using that [of ps cells m] p w cand_strs_Name by auto
qed

lemma run_token_plain:
  assumes "plain t" "length t < CFG_CBSIZE" "length (words t) < CFG_MAXARGS"
  shows "run_token tbl b call t v = run_words tbl b call (words t) v"
proof -
  obtain ps cells m where "parse_line (t @ [0]) 0 = Some (ps, cells, m, [])" "cand_strs m (map Name ps) = Some (words t)"
    using words_parse [of t] assms by (auto simp: plain_def)
  then show ?thesis
    using process_macros_plain [of t] assms by (cases v) (simp add: run_token_def plain_def)
qed

definition plain_token :: "bytes \<Rightarrow> bool" where
  "plain_token t \<longleftrightarrow> plain t \<and> t \<noteq> [] \<and> length (words t) < CFG_MAXARGS"

lemma run_tokens_script:
  "\<forall>t\<in>set ts. plain_token t \<and> length t < CFG_CBSIZE \<Longrightarrow>
   run_tokens tbl b call ts v = run_script tbl b call (map words ts) v"
proof (induction ts arbitrary: v)
  case Nil
  then show ?case by (cases v) simp
next
  case (Cons t ts)
  then show ?case by (simp add: run_token_plain plain_token_def cong: if_cong)
qed

lemma length_join: "t \<in> set ts \<Longrightarrow> length t \<le> length (join ts)"
  by (induction ts rule: join.induct) auto

lemma run_command_script:
  assumes "ts \<noteq> []" "\<forall>t\<in>set ts. plain_token t" "length (join ts) < CFG_CBSIZE"
  shows "run_command tbl b call (Some (join ts)) flag s =
    run_script tbl b call (map words ts) (s\<lparr>ctrlc_was_pressed := False\<rparr>, flag, 0, 1)"
proof -
  have "join ts \<noteq> []" using assms(1,2) by (cases ts rule: join.cases) (auto simp: plain_token_def)
  moreover have "\<forall>t\<in>set ts. plain_token t \<and> length t < CFG_CBSIZE"
    using assms length_join by (meson le_less_trans)
  moreover have "\<forall>t\<in>set ts. plain t \<and> t \<noteq> []" using assms(2) by (simp add: plain_token_def)
  ultimately show ?thesis
    using run_loop_tokens [of ts tbl b call "[]"] assms(3)
    by (simp add: run_command_def run_tokens_script)
qed

section \<open>A variable that runs itself\<close>

lemma plain_run: "plain a \<Longrightarrow> plain (bytes_of ''run '' @ a)"
  by (auto simp: plain_def special_def)

lemma takeWhile_all: "\<forall>c\<in>set s. P c \<Longrightarrow> takeWhile P s = s"
  by (induction s) auto

lemma dropWhile_all: "\<forall>c\<in>set s. P c \<Longrightarrow> dropWhile P s = []"
  by (induction s) auto

lemma words_run:
  assumes "a \<noteq> []" "\<forall>c\<in>set a. \<not> is_space_char c"
  shows "words (bytes_of ''run '' @ a) = [bytes_of ''run'', a]"
proof -
  have w: "words a = [a]"
    using assms by (cases a) (simp_all add: words.simps [of "_ # _"] Let_def takeWhile_all dropWhile_all)
  have s: "is_space_char 32" "\<not> is_space_char (byte_of (CHR ''r''))" "\<not> is_space_char (byte_of (CHR ''u''))"
    "\<not> is_space_char (byte_of (CHR ''n''))" "byte_of (CHR '' '') = 32"
    by (simp_all add: is_space_char_def byte_of_def)
  have "words (bytes_of ''run '' @ a) = bytes_of ''run'' # words (32 # a)"
    by (subst words.simps) (simp add: s Let_def)
  then show ?thesis using w s(1) by simp
qed

lemma run_nested_forever:
  assumes a: "plain_token (bytes_of ''run '' @ a)" "words (bytes_of ''run '' @ a) = [bytes_of ''run'', a]"
    "length (bytes_of ''run '' @ a) < CFG_CBSIZE"
    and t: "find_cmd tbl (bytes_of ''run'') = Some i" "cmd (tbl ! i) = run_addr" "2 \<le> maxargs (tbl ! i)" "run_addr \<noteq> b"
  shows "env_value (sys_gd s) a = Some (Some (bytes_of ''run '' @ a)) \<Longrightarrow>
    run_nested tbl b run_addr call depth (Some (bytes_of ''run '' @ a)) flag s = None"
proof (induction depth arbitrary: s flag)
  case (Suc depth)
  let ?c = "bytes_of ''run '' @ a" and ?s = "s\<lparr>ctrlc_was_pressed := False\<rparr>"
  have "run_nested tbl b run_addr call depth (Some ?c) flag ?s = None"
    using Suc.IH [of ?s flag] Suc.prems by simp
  then show ?case
    using run_command_script [of "[?c]" tbl b _ flag s] a t Suc.prems
    by (simp add: run_words_def do_run_def del: bytes_of_Cons)
qed simp

section \<open>The line editor\<close>

text \<open>The column after printing a text from column \<open>col\<close> on.\<close>

fun width :: "int \<Rightarrow> bytes \<Rightarrow> int" where
  "width col [] = col"
| "width col (c # cs) = width (if c = 9 then col + (8 - (col AND 7)) else col + 1) cs"

lemma width_append: "width col (s @ t) = width (width col s) t"
  by (induction s arbitrary: col) auto

lemma and_7: "(col :: int) AND 7 = col mod 8"
  using take_bit_eq_mask [of 3 col] by (simp add: take_bit_eq_mod mask_eq_exp_minus_1)

lemma width_ge: "col + int (length s) \<le> width col s"
proof (induction s arbitrary: col)
  case (Cons c cs)
  let ?w = "if c = 9 then col + (8 - (col AND 7)) else col + 1"
  have "col AND 7 \<le> 7" unfolding and_7 using pos_mod_bound [of 8 col] by linarith
  then have "col + 1 \<le> ?w" by auto
  moreover have "width col (c # cs) = width ?w cs" by simp
  ultimately show ?case using Cons.IH [of ?w] by (simp only: list.size)
qed simp

text \<open>The editor holds the line \<open>s\<close>.\<close>

definition rl_ok :: "int \<Rightarrow> bytes \<Rightarrow> rl \<Rightarrow> bool" where
  "rl_ok plen s r \<longleftrightarrow> length (rl_buf r) = CFG_CBSIZE \<and> rl_p r = length s \<and> rl_n r = int (length s) \<and>
     rl_col r = width plen s \<and> take (length s) (rl_buf r) = s \<and> length s \<le> CFG_CBSIZE - 2 \<and> 0 \<notin> set s"

text \<open>What the keys do to the line.\<close>

definition cut_word :: "bytes \<Rightarrow> bytes" where
  "cut_word s = butlast (rev (dropWhile (\<lambda>c. c \<noteq> 32) (rev s)))"

definition edit_line :: "u8 \<Rightarrow> bytes \<Rightarrow> bytes" where
  "edit_line c s =
     (if c = 0 then s
      else if c = 0x15 then []
      else if c = 0x17 then cut_word s
      else if c = 8 \<or> c = 0x7F then butlast s
      else if length s < CFG_CBSIZE - 2 then s @ [c] else s)"

lemma rl_puts_simps [simp]:
  "rl_buf (rl_puts t r) = rl_buf r" "rl_p (rl_puts t r) = rl_p r" "rl_n (rl_puts t r) = rl_n r" "rl_col (rl_puts t r) = rl_col r"
  by (simp_all add: rl_puts_def)

lemma put_tab_simps [simp]:
  "rl_buf (put_tab r) = rl_buf r" "rl_p (put_tab r) = rl_p r" "rl_n (put_tab r) = rl_n r"
  "rl_col (put_tab r) = rl_col r + (8 - (rl_col r AND 7))"
  by (simp_all add: put_tab_def Let_def)

lemma retype_simps [simp]:
  "rl_buf (retype s r) = rl_buf r" "rl_p (retype s r) = rl_p r" "rl_n (retype s r) = rl_n r"
  "rl_col (retype s r) = width (rl_col r) s"
  by (induction s arbitrary: r) simp_all

lemma erase_to_simps [simp]:
  "rl_buf (erase_to plen r) = rl_buf r" "rl_p (erase_to plen r) = rl_p r" "rl_n (erase_to plen r) = rl_n r"
  "rl_col (erase_to plen r) = min plen (rl_col r)"
proof (induction plen r rule: erase_to.induct)
  case (1 plen r)
  {
    case 1
    then show ?case using "1.IH"(1) by (subst erase_to.simps) simp
  next
    case 2
    then show ?case using "1.IH"(2) by (subst erase_to.simps) simp
  next
    case 3
    then show ?case using "1.IH"(3) by (subst erase_to.simps) simp
  next
    case 4
    then show ?case using "1.IH"(4) by (subst erase_to.simps) simp
  }
qed

lemma delete_char_ok:
  "rl_ok plen s r \<Longrightarrow> \<exists>r'. delete_char plen r = Some r' \<and> rl_ok plen (butlast s) r' \<and> rl_buf r' = rl_buf r"
proof (cases s rule: rev_cases)
  case Nil
  then show "rl_ok plen s r \<Longrightarrow> ?thesis" by (simp add: delete_char_def rl_ok_def)
next
  case (snoc t c)
  assume ok: "rl_ok plen s r"
  have t: "take (length t) (rl_buf r) = t" "rl_buf r ! length t = c" "length t < length (rl_buf r)"
    using ok snoc unfolding rl_ok_def
    by (auto simp: take_Suc_conv_app_nth CFG_CBSIZE_def)
  have "plen \<le> width plen (t @ [c])" using width_ge [of plen "t @ [c]"] by simp
  then show ?thesis
    using ok snoc t unfolding rl_ok_def delete_char_def
    by (auto simp: width_append Let_def rd_in)
qed

lemma cut_word_snoc [simp]: "cut_word (s @ [c]) = (if c = 32 then s else cut_word s)"
  by (simp add: cut_word_def)

lemma cut_word_Nil [simp]: "cut_word [] = []"
  by (simp add: cut_word_def)

lemma delete_word_ok:
  "rl_ok plen s r \<Longrightarrow>
   \<exists>r'. delete_word plen r = Some r' \<and> rl_ok plen (if rl_buf r ! length s = 32 then s else cut_word s) r'"
proof (induction s arbitrary: r rule: rev_induct)
  case Nil
  then show ?case by (subst delete_word.simps) (simp add: rl_ok_def)
next
  case (snoc c s)
  let ?d = "rl_buf r ! length (s @ [c])"
  have n: "rl_n r > 0" "rl_p r = length (s @ [c])" "length (s @ [c]) < length (rl_buf r)" "rl_buf r ! length s = c"
    using snoc.prems by (auto simp: rl_ok_def CFG_CBSIZE_def take_Suc_conv_app_nth)
  obtain r1 where r1: "delete_char plen r = Some r1" "rl_ok plen s r1" "rl_buf r1 = rl_buf r"
    using delete_char_ok [OF snoc.prems] by auto
  show ?case
  proof (cases "?d = 32")
    case True
    then show ?thesis using n snoc.prems by (subst delete_word.simps) (simp add: rd_in)
  next
    case False
    then have "delete_word plen r = delete_word plen r1"
      using n r1 by (subst delete_word.simps) (simp add: rd_in)
    then show ?thesis using snoc.IH [OF r1(2)] r1(3) n False by simp
  qed
qed

lemma cut_word_delete:
  assumes "rl_ok plen s r" "delete_char plen r = Some r1" "rl_ok plen (butlast s) r1" "rl_buf r1 = rl_buf r"
  shows "\<exists>r'. delete_word plen r1 = Some r' \<and> rl_ok plen (cut_word s) r'"
proof (cases s rule: rev_cases)
  case Nil
  then show ?thesis
    using assms(3) by (subst delete_word.simps) (simp add: rl_ok_def)
next
  case (snoc t c)
  have "rl_buf r1 ! length t = c"
    using assms(1,4) snoc by (auto simp: rl_ok_def CFG_CBSIZE_def take_Suc_conv_app_nth)
  then show ?thesis using delete_word_ok [OF assms(3)] snoc by auto
qed

lemma append_key_ok:
  assumes "rl_ok plen s r" "length s < CFG_CBSIZE - 2" "c \<noteq> 0"
    and "rl_buf r1 = rl_buf r" "rl_p r1 = rl_p r" "rl_n r1 = rl_n r" "rl_col r1 = width (rl_col r) [c]"
  shows "\<exists>m. wr (rl_buf r1) (rl_p r1) c = Some m \<and>
    rl_ok plen (s @ [c]) (r1\<lparr>rl_buf := m, rl_p := rl_p r1 + 1, rl_n := rl_n r1 + 1\<rparr>)"
proof -
  have l: "length s < length (rl_buf r)" using assms(1,2) by (simp add: rl_ok_def)
  have "take (Suc (length s)) ((rl_buf r)[length s := c]) = take (length s) (rl_buf r) @ [c]"
    using l by (simp add: take_Suc_conv_app_nth)
  then show ?thesis
    using assms l unfolding rl_ok_def by (simp add: width_append)
qed

lemma readline_key_ok:
  assumes "rl_ok plen s r" "c \<noteq> 13" "c \<noteq> 10" "c \<noteq> 3"
  shows "\<exists>r'. readline_key plen c r = Some (More r') \<and> rl_ok plen (edit_line c s) r'"
proof -
  obtain r1 where r1: "delete_char plen r = Some r1" "rl_ok plen (butlast s) r1" "rl_buf r1 = rl_buf r"
    using delete_char_ok [OF assms(1)] by blast
  consider "c = 0" | "c = 0x15" | "c = 0x17" | "c = 8 \<or> c = 0x7F" | "c \<notin> {0, 0x15, 0x17, 8, 0x7F}" by blast
  then show ?thesis
  proof cases
    case 1
    then show ?thesis using assms(1) by (simp add: readline_key_def edit_line_def)
  next
    case 2
    have "plen \<le> width plen s" using width_ge [of plen s] by simp
    then show ?thesis using 2 assms(1) by (simp add: readline_key_def edit_line_def rl_ok_def)
  next
    case 3
    then show ?thesis
      using r1 cut_word_delete [OF assms(1) r1] by (auto simp: readline_key_def edit_line_def)
  next
    case 4
    then show ?thesis using r1 by (auto simp: readline_key_def edit_line_def)
  next
    case 5
    have n: "rl_n r < int CFG_CBSIZE - 2 \<longleftrightarrow> length s < CFG_CBSIZE - 2"
      using assms(1) by (auto simp: rl_ok_def CFG_CBSIZE_def)
    define r1 where "r1 = (if c = 9 then put_tab r else rl_puts [c] (r\<lparr>rl_col := rl_col r + 1\<rparr>))"
    have same: "rl_buf r1 = rl_buf r" "rl_p r1 = rl_p r" "rl_n r1 = rl_n r" "rl_col r1 = width (rl_col r) [c]"
      by (simp_all add: r1_def)
    show ?thesis
    proof (cases "length s < CFG_CBSIZE - 2")
      case True
      obtain m where "wr (rl_buf r1) (rl_p r1) c = Some m"
        "rl_ok plen (s @ [c]) (r1\<lparr>rl_buf := m, rl_p := rl_p r1 + 1, rl_n := rl_n r1 + 1\<rparr>)"
        using append_key_ok [OF assms(1) True _ same] 5 by blast
      then show ?thesis
        using True 5 assms(2-4) n by (simp add: readline_key_def edit_line_def Let_def r1_def [symmetric] del: wr_eq_Some)
    next
      case False
      have "rl_ok plen s (rl_puts [7] r)" using assms(1) by (simp add: rl_ok_def)
      then show ?thesis
        using False 5 assms(2-4) n by (simp add: readline_key_def edit_line_def)
    qed
  qed
qed

lemma readline_loop_ok:
  "rl_ok plen s r \<Longrightarrow> \<forall>c\<in>set ks. c \<noteq> 13 \<and> c \<noteq> 10 \<and> c \<noteq> 3 \<Longrightarrow>
   \<exists>r'. readline_loop plen (ks @ rest) r = readline_loop plen rest r' \<and>
     rl_ok plen (foldl (\<lambda>s c. edit_line c s) s ks) r'"
proof (induction ks arbitrary: s r)
  case (Cons c ks)
  obtain r1 where r1: "readline_key plen c r = Some (More r1)" "rl_ok plen (edit_line c s) r1"
    using readline_key_ok [OF Cons.prems(1)] Cons.prems(2) by auto
  then show ?case using Cons.IH [OF r1(2)] Cons.prems(2) by simp
qed auto

definition rl_init :: "int \<Rightarrow> bytes \<Rightarrow> mem \<Rightarrow> rl" where
  "rl_init plen out buf = \<lparr>rl_buf = buf, rl_p = 0, rl_n = 0, rl_col = plen, rl_out = out\<rparr>"

lemma rl_init_ok: "length buf = CFG_CBSIZE \<Longrightarrow> rl_ok plen [] (rl_init plen out buf)"
  by (simp add: rl_ok_def rl_init_def)

text \<open>The states of the editor, as a transition system.\<close>

inductive rl_reach :: "int \<Rightarrow> rl \<Rightarrow> bool" for plen where
  start: "length buf = CFG_CBSIZE \<Longrightarrow> rl_reach plen (rl_init plen out buf)"
| key: "rl_reach plen r \<Longrightarrow> readline_key plen c r = Some (More r') \<Longrightarrow> rl_reach plen r'"

lemma More_key: "readline_key plen c r = Some (More r') \<Longrightarrow> c \<noteq> 13 \<and> c \<noteq> 10 \<and> c \<noteq> 3"
  by (auto simp: readline_key_def split: Option.bind_splits)

lemma rl_reach_ok: "rl_reach plen r \<Longrightarrow> \<exists>s. rl_ok plen s r"
proof (induction rule: rl_reach.induct)
  case (key r c r')
  then obtain s where s: "rl_ok plen s r" by blast
  have "c \<noteq> 13" "c \<noteq> 10" "c \<noteq> 3" using More_key [OF key.hyps(2)] by simp_all
  then show ?case using readline_key_ok [OF s, of c] key.hyps(2) by auto
qed (use rl_init_ok in blast)

section \<open>Properties\<close>


definition echo_call :: "'x routine" where
  "echo_call t flag argv s = Some (puts (concat argv) s, if argv ! 0 = bytes_of ''cp'' then 1 else 0)"

definition sys_of :: "gd \<Rightarrow> sys" where
  "sys_of g = \<lparr>sys_gd = g, console = [], ctrlc_was_pressed = True\<rparr>"

lemma bytes_plain: 
  "plain_token (bytes_of ''cp x'')" "plain_token (bytes_of ''run y'')"
  "words (bytes_of ''cp x'') = [bytes_of ''cp'', bytes_of ''x'']" "words (bytes_of ''run y'') = [bytes_of ''run'', bytes_of ''y'']"
proof -
  show w: "words (bytes_of ''cp x'') = [bytes_of ''cp'', bytes_of ''x'']"
    "words (bytes_of ''run y'') = [bytes_of ''run'', bytes_of ''y'']"
    by (code_simp)+
  show "plain_token (bytes_of ''cp x'')" "plain_token (bytes_of ''run y'')"
    using w by (simp_all add: plain_token_def plain_def special_def CFG_MAXARGS_def)
qed


text \<open>\<^verbatim>\<open>process_macros\<close> stores the first \<^verbatim>\<open>CFG_CBSIZE\<close> bytes of what any larger buffer would get, and a
  terminator only if something of the buffer is left.\<close>

theorem process_macros_truncates:
  assumes "pm_loop genv input 0 (pm_init n) = Some q" "CFG_CBSIZE \<le> n"
  shows "process_macros genv input =
    Some (take CFG_CBSIZE (pm_out q) @ (if length (pm_out q) < CFG_CBSIZE then [0] else []))"
  using assms by (rule process_macros_narrowed)

lemma process_macros_truncates_witness:
  "process_macros (env_value sample_gd) (replicate 600 120) = Some (replicate 512 120)"
proof -
  have "set (replicate 600 120) \<inter> set special = {}" by (simp add: special_def byte_of_def)
  then have "pm_loop (env_value sample_gd) (replicate 600 120) 0 (pm_init 700) =
      Some ((pm_init 700)\<lparr>pm_out := replicate 600 120, pm_outputcnt := 100\<rparr>)"
    using pm_loop_plain [of "replicate 600 120" 0 "pm_init 700" "env_value sample_gd" "[]"] by (simp add: byte_of_def)
  from process_macros_truncates [OF this] show ?thesis by (simp add: CFG_CBSIZE_def)
qed

text \<open>C26: A macro in plain text is replaced by the value the environment holds for its name, or by nothing.\<close>

theorem macro_value:
  assumes "env_ok (env_mem g) es" "wf_name nm" "env_valid g \<noteq> 0"
    and "set pre \<inter> set special = {}" "set nm \<inter> set (special @ bytes_of '')}'') = {}" "set post \<inter> set special = {}"
    and "length (pre @ case_option [] id (map_of es nm) @ post) < CFG_CBSIZE"
  shows "process_macros (env_value g) (pre @ bytes_of ''${'' @ nm @ bytes_of ''}'' @ post) =
    Some (pre @ case_option [] id (map_of es nm) @ post @ [0])"
  using assms(4-6) env_value_ok [OF assms(1-3)] assms(7) by (rule process_macros_one)

lemma macro_value_witness:
  "process_macros (env_value sample_gd) (bytes_of ''x='' @ bytes_of ''${'' @ [97] @ bytes_of ''}'' @ bytes_of ''!'') =
     Some (bytes_of ''x=12!'' @ [0])"
proof -
  have e: "env_ok (env_mem sample_gd) sample_vars" "env_valid sample_gd \<noteq> 0"
    using sample_inv by (simp_all add: env_inv_def env_mem_def)
  have "process_macros (env_value sample_gd) (bytes_of ''x='' @ bytes_of ''${'' @ [97] @ bytes_of ''}'' @ bytes_of ''!'') =
      Some (bytes_of ''x='' @ case_option [] id (map_of sample_vars [97]) @ bytes_of ''!'' @ [0])"
    by (rule macro_value [OF e(1) _ e(2)])
       (simp_all add: wf_name_def special_def sample_vars_def CFG_CBSIZE_def byte_of_def)
  then show ?thesis by (simp add: sample_vars_def) (simp add: byte_of_def)
qed

text \<open>A variable whose value is the command to run it nests \<^verbatim>\<open>run\<close> and \<^verbatim>\<open>run_command\<close> without end: no
  depth of the stack is enough for it to return.\<close>

theorem run_self_never_returns:
  assumes "env_ok (env_mem (sys_gd s)) es" "wf_name a" "env_valid (sys_gd s) \<noteq> 0"
    and "map_of es a = Some (bytes_of ''run '' @ a)" "plain_token (bytes_of ''run '' @ a)"
    and "a \<noteq> []" "\<forall>c\<in>set a. \<not> is_space_char c" "length a < CFG_CBSIZE - 4"
    and "find_cmd tbl (bytes_of ''run'') = Some i" "cmd (tbl ! i) = run_addr" "2 \<le> maxargs (tbl ! i)" "run_addr \<noteq> b"
  shows "run_nested tbl b run_addr call depth (Some (bytes_of ''run '' @ a)) flag s = None"
  using run_nested_forever [OF assms(5) words_run [OF assms(6,7)] _ assms(9-12)] env_value_ok [OF assms(1-3)] assms(4,8)
  by (simp add: CFG_CBSIZE_def)

definition loop_gd :: gd where
  "loop_gd = sample_gd\<lparr>env_data := enc [([97], bytes_of ''run a'')] @ replicate 16 0\<rparr>"

lemma run_self_never_returns_witness:
  "run_nested sample_tbl 9 1 echo_call 1000 (Some (bytes_of ''run a'')) 0 (sys_of loop_gd) = None"
proof -
  let ?es = "[([97], bytes_of ''run a'')]"
  have a: "bytes_of ''run '' @ [97] = bytes_of ''run a''" by (simp add: byte_of_def)
  have "env_mem loop_gd = enc ?es @ replicate 16 0" "env_valid loop_gd \<noteq> 0"
    by (simp_all add: loop_gd_def sample_gd_def env_mem_def)
  moreover have "env_ok (enc ?es @ replicate 16 0) ?es"
    by (auto simp: env_ok_def wf_var_def wf_name_def)
  moreover have "plain_token (bytes_of ''run a'')"
    by (simp add: plain_token_def plain_def special_def CFG_MAXARGS_def) code_simp
  moreover have "find_cmd sample_tbl (bytes_of ''run'') = Some 0" by code_simp
  ultimately show ?thesis
    using run_self_never_returns [of "sys_of loop_gd" ?es "[97]" sample_tbl 0 1 9 echo_call 1000 0] a
    by (simp add: sys_of_def wf_name_def is_space_char_def CFG_CBSIZE_def sample_tbl_def sample_cmd_def del: bytes_of_Cons)
qed

text \<open>A command line that starts with a quote makes \<^verbatim>\<open>run_command\<close> look at the byte before its buffer.\<close>

theorem leading_quote_faults:
  assumes "length line < CFG_CBSIZE" "line \<noteq> []" "hd line = byte_of (CHR 0x27)"
  shows "run_command tbl b call (Some line) flag s = None"
proof -
  obtain rest where l: "line = byte_of (CHR 0x27) # rest" using assms(2,3) by (cases line) auto
  have "find_sep (line @ [0]) 0 0 False = None"
    by (subst find_sep.simps) (simp add: l rd_def rd_before_def)
  then show ?thesis
    using assms(1,2) l by (simp add: run_command_def run_loop.simps rd_def)
qed

lemma leading_quote_faults_witness:
  "run_command sample_tbl 9 echo_call (Some (byte_of (CHR 0x27) # bytes_of ''a'' @ [byte_of (CHR 0x27)])) 0 (sys_of sample_gd) = None"
  by (rule leading_quote_faults) (simp_all add: CFG_CBSIZE_def)

text \<open>\<^verbatim>\<open>parse_line\<close> finds the words \<^verbatim>\<open>make_argv\<close> finds; with more words than \<^verbatim>\<open>CFG_MAXARGS\<close> it reports them but
  returns the first sixteen as if they were all, and leaves \<^verbatim>\<open>argv\<close> without its closing NULL.\<close>

theorem parse_line_words:
  assumes "0 \<notin> set s"
  shows "\<exists>ps cells m msg. parse_line (s @ [0]) 0 = Some (ps, cells, m, msg) \<and>
    make_argv (s @ [0]) 0 (CFG_MAXARGS + 1) = Some (ps, m) \<and>
    list_all2 (is_cstr m) ps (take CFG_MAXARGS (words s)) \<and>
    (length (words s) < CFG_MAXARGS \<longrightarrow> cells = map Some ps @ [None] \<and> msg = []) \<and>
    (CFG_MAXARGS < length (words s) \<longrightarrow> cells = map Some ps \<and> msg = too_many)"
proof -
  obtain ps cells m msg where p: "parse_line (s @ [0]) 0 = Some (ps, cells, m, msg)"
    "list_all2 (is_cstr m) ps (take CFG_MAXARGS (words s))" "make_argv (s @ [0]) 0 (CFG_MAXARGS + 1) = Some (ps, m)"
    "cells = map Some ps @ [None] \<and> msg = [] \<or> cells = map Some ps \<and> length ps = CFG_MAXARGS \<and> msg = too_many"
    using parse_line_ok [OF assms] .
  have "length ps = min (length (words s)) CFG_MAXARGS" using p(2) by (auto dest: list_all2_lengthD)
  moreover have "None \<notin> set cells" if "CFG_MAXARGS < length (words s)"
    using parse_line_overflow [OF assms that, of "[]" "[]"] p(1)
    by (auto simp: parse_line_def split: Option.bind_splits)
  ultimately show ?thesis using p by auto
qed

lemma parse_line_words_witness:
  "\<exists>ps cells m msg. parse_line (concat (replicate 17 [120, 32]) @ [0]) 0 = Some (ps, cells, m, msg) \<and>
     cells = map Some ps \<and> msg = too_many"
proof -
  have "words (concat (replicate 17 [120, 32])) = replicate 17 [120]" by code_simp
  then show ?thesis
    using parse_line_words [of "concat (replicate 17 [120, 32])"] by (auto simp: CFG_MAXARGS_def)
qed

text \<open>C12: \<^verbatim>\<open>readline\<close> refines an editor of lists: after any keys but Enter and Ctrl-C, Enter returns the length of
  the edited line, which the console buffer then holds.\<close>

theorem readline_refines:
  assumes "length buf = CFG_CBSIZE" "\<forall>c\<in>set ks. c \<noteq> 13 \<and> c \<noteq> 10 \<and> c \<noteq> 3" "e = 13 \<or> e = 10"
  shows "\<exists>r. readline prompt (ks @ e # rest) buf = Some (Done r (int (length (foldl (\<lambda>s c. edit_line c s) [] ks))), rest) \<and>
    is_cstr (rl_buf r) 0 (foldl (\<lambda>s c. edit_line c s) [] ks)"
proof -
  let ?s = "foldl (\<lambda>s c. edit_line c s) [] ks"
  obtain plen out where p: "readline prompt keys buf = readline_loop plen keys (rl_init plen out buf)" for keys
    by (simp add: readline_def rl_init_def Let_def)
  obtain r where r: "readline_loop plen (ks @ e # rest) (rl_init plen out buf) = readline_loop plen (e # rest) r" "rl_ok plen ?s r"
    using readline_loop_ok [OF rl_init_ok [OF assms(1)] assms(2)] by blast
  have l: "length ?s < length (rl_buf r)" "0 \<notin> set ?s" "take (length ?s) (rl_buf r) = ?s" "rl_p r = length ?s"
    using r(2) by (auto simp: rl_ok_def CFG_CBSIZE_def)
  have "is_cstr ((rl_buf r)[length ?s := 0]) 0 ?s"
    using l by (simp add: is_cstr_iff slice_def take_Suc_conv_app_nth)
  then show ?thesis
    using assms(3) l r(1) p by (auto simp: readline_key_def wr_in)
qed

lemma readline_refines_witness:
  "\<exists>r. readline (Some CFG_PROMPT) ([97, 98, 32, 99, 100, 0x17, 8, 101] @ 13 # []) (replicate 512 0) = Some (Done r 2, []) \<and>
     is_cstr (rl_buf r) 0 [97, 101]"
  using readline_refines [of "replicate 512 0" "[97, 98, 32, 99, 100, 0x17, 8, 101]" 13 "Some CFG_PROMPT" "[]"]
  by (simp add: CFG_CBSIZE_def edit_line_def cut_word_def)

text \<open>C27: In every state the line editor can reach, its pointer and its count agree and leave room for the
  terminator, the column is that of the line as displayed, and no key makes it leave its buffer.\<close>

theorem readline_safe:
  assumes "rl_reach plen r"
  shows "readline_key plen c r \<noteq> None \<and> rl_n r = int (rl_p r) \<and> rl_p r \<le> CFG_CBSIZE - 2 \<and>
    rl_col r = width plen (take (rl_p r) (rl_buf r))"
proof -
  obtain s where s: "rl_ok plen s r" using rl_reach_ok [OF assms] by blast
  have "readline_key plen c r \<noteq> None"
  proof (cases "c = 13 \<or> c = 10 \<or> c = 3")
    case True
    then show ?thesis using s by (auto simp: readline_key_def rl_ok_def CFG_CBSIZE_def wr_in)
  next
    case False
    then show ?thesis using readline_key_ok [OF s, of c] by auto
  qed
  then show ?thesis using s by (simp add: rl_ok_def)
qed

lemma readline_safe_witness: "readline_key 8 8 (rl_init 8 [] (replicate 512 0)) \<noteq> None"
  using readline_safe [OF rl_reach.start [of "replicate 512 0" 8 "[]"], of 8] by (simp add: CFG_CBSIZE_def)

end
