(* ===== verification/ListsC.thy ===== *)
theory ListsC
  imports CString "HOL-Library.Signed_Division"
begin

text \<open>
  The resizable lists of \<^verbatim>\<open>common/lists.c\<close>. A list is the structure a handle points to: its counters and the
  bytes of \<^verbatim>\<open>itemList\<close>, which the handle's size limits. \<open>ok\<close> tells whether an allocation succeeds; addresses
  of items are offsets into \<^verbatim>\<open>itemList\<close>; accesses outside it are \<open>None\<close>. Products of counts and sizes are
  taken to fit 32 bits.
\<close>

section \<open>The structure\<close>

record lst =
  percentIncrease :: int
  minNumItemsIncrease :: int
  listSize :: int
  itemSize :: int
  numItems :: int
  itemList :: mem

definition LIST_START :: int where "LIST_START = -1"
definition LIST_END :: int where "LIST_END = 0"

text \<open>\<^verbatim>\<open>sizeof (ListStruct)\<close>: six integers, and one byte of \<^verbatim>\<open>itemList\<close> padded to four.\<close>

definition sizeof_ListStruct :: int where "sizeof_ListStruct = 28"
definition list_offset :: int where "list_offset = 24"

definition kDefaultAllocationPercentIncrease :: int where "kDefaultAllocationPercentIncrease = 10"
definition kDefaultAllocationminNumItemsIncrease :: int where "kDefaultAllocationminNumItemsIncrease = 4"

definition NUMITEMSPERALLOC :: "lst \<Rightarrow> int" where
  "NUMITEMSPERALLOC l = max ((listSize l * (percentIncrease l + 100)) sdiv 100) (minNumItemsIncrease l)"

definition ITEMPTR :: "lst \<Rightarrow> int \<Rightarrow> int" where
  "ITEMPTR l item = itemSize l * item"

text \<open>Blocks at offsets that may be negative; an empty block touches nothing.\<close>

definition get_block :: "mem \<Rightarrow> int \<Rightarrow> int \<Rightarrow> bytes option" where
  "get_block m off n =
     (if n = 0 then Some []
      else if 0 \<le> off \<and> 0 < n \<and> off + n \<le> int (length m) then Some (slice m (nat off) (nat n)) else None)"

definition put_block :: "mem \<Rightarrow> int \<Rightarrow> bytes \<Rightarrow> mem option" where
  "put_block m off bs =
     (if bs = [] then Some m
      else if 0 \<le> off \<and> off + int (length bs) \<le> int (length m) then Some (blit m (nat off) bs) else None)"

text \<open>The first \<open>n\<close> bytes a caller's pointer leads to.\<close>

definition src_block :: "bytes \<Rightarrow> int \<Rightarrow> bytes option" where
  "src_block p n = (if 0 \<le> n \<and> n \<le> int (length p) then Some (take (nat n) p) else None)"

section \<open>Allocation\<close>

text \<open>
  \<^verbatim>\<open>SetHandleSize\<close> on the handle of a list; a size that wraps around, or that the allocator does not have,
  fails. What is new is zero.
\<close>

definition handle_size :: "lst \<Rightarrow> int" where
  "handle_size l = list_offset + int (length (itemList l))"

definition SetHandleSize :: "bool \<Rightarrow> int \<Rightarrow> lst \<Rightarrow> lst \<times> int" where
  "SetHandleSize ok newSize l =
     (if handle_size l = newSize then (l, 1)
      else if ok \<and> list_offset \<le> newSize
        then (let n = nat (newSize - list_offset); old = length (itemList l)
              in (l\<lparr>itemList := take n (itemList l) @ replicate (n - old) 0\<rparr>, 1))
        else (l, 0))"

definition ExpandListSpace :: "bool \<Rightarrow> lst \<Rightarrow> int \<Rightarrow> lst \<times> int" where
  "ExpandListSpace ok l numNewItems =
     (let n = (if numNewItems = 0 then NUMITEMSPERALLOC l
               else if numNewItems < 0 then - numNewItems + NUMITEMSPERALLOC l
               else numNewItems);
          (l', r) = SetHandleSize ok (sizeof_ListStruct + (listSize l + n) * itemSize l) l
      in if r \<noteq> 0 then (l'\<lparr>listSize := listSize l' + n\<rparr>, 1) else (l', 0))"

definition ListCompact :: "bool \<Rightarrow> lst \<Rightarrow> lst" where
  "ListCompact ok l =
     (let (l', r) = SetHandleSize ok (sizeof_ListStruct + numItems l * itemSize l) l
      in if r = 0 then l' else l'\<lparr>listSize := numItems l'\<rparr>)"

text \<open>\<open>block\<close> holds the four bytes of \<^verbatim>\<open>itemList\<close> in the new structure, which are not initialised.\<close>

definition ListCreate :: "mem option \<Rightarrow> int \<Rightarrow> lst option" where
  "ListCreate block elementSize = (case block of
     None \<Rightarrow> None
   | Some m \<Rightarrow> Some \<lparr>percentIncrease = kDefaultAllocationPercentIncrease,
       minNumItemsIncrease = kDefaultAllocationminNumItemsIncrease,
       listSize = 0, itemSize = elementSize, numItems = 0, itemList = take 4 m\<rparr>)"

definition ListSetAllocationPolicy :: "lst \<Rightarrow> int \<Rightarrow> int \<Rightarrow> lst" where
  "ListSetAllocationPolicy l minItemsPerAlloc percentIncreasePerAlloc =
     l\<lparr>percentIncrease := percentIncreasePerAlloc, minNumItemsIncrease := minItemsPerAlloc\<rparr>"

definition ListPreAllocate :: "bool \<Rightarrow> lst \<Rightarrow> int \<Rightarrow> lst \<times> int" where
  "ListPreAllocate ok l n =
     (if listSize l - numItems l < n then ExpandListSpace ok l (n - (listSize l - numItems l)) else (l, 1))"

definition ListClear :: "lst option \<Rightarrow> lst option" where
  "ListClear l = map_option (\<lambda>x. x\<lparr>numItems := 0\<rparr>) l"

section \<open>Access\<close>

definition ListGetItemSize :: "lst \<Rightarrow> int" where "ListGetItemSize l = itemSize l"
definition ListNumItems :: "lst \<Rightarrow> int" where "ListNumItems l = numItems l"
definition ListGetDataPtr :: "lst \<Rightarrow> int" where "ListGetDataPtr l = 0"

text \<open>A position with the two symbolic ones resolved.\<close>

definition position :: "lst \<Rightarrow> int \<Rightarrow> int" where
  "position l p = (if p = LIST_START then 1 else if p = LIST_END then numItems l else p)"

definition ListGetPtrToItem :: "lst \<Rightarrow> int \<Rightarrow> int" where
  "ListGetPtrToItem l itemPosition = ITEMPTR l (position l itemPosition - 1)"

definition ListGetItems :: "lst \<Rightarrow> int \<Rightarrow> int \<Rightarrow> bytes option" where
  "ListGetItems l firstItemPosition numItemsToGet =
     get_block (itemList l) (ITEMPTR l (position l firstItemPosition - 1)) (itemSize l * numItemsToGet)"

definition ListGetItem :: "lst \<Rightarrow> int \<Rightarrow> bytes option" where
  "ListGetItem l itemPosition = ListGetItems l itemPosition 1"

definition ListReplaceItems :: "lst \<Rightarrow> bytes \<Rightarrow> int \<Rightarrow> int \<Rightarrow> lst option" where
  "ListReplaceItems l ptrToItems firstItemPosition numItemsToReplace = do {
     d \<leftarrow> src_block ptrToItems (itemSize l * numItemsToReplace);
     m \<leftarrow> put_block (itemList l) (ITEMPTR l (position l firstItemPosition - 1)) d;
     Some (l\<lparr>itemList := m\<rparr>) }"

definition ListReplaceItem :: "lst \<Rightarrow> bytes \<Rightarrow> int \<Rightarrow> lst option" where
  "ListReplaceItem l ptrToItem itemPosition = ListReplaceItems l ptrToItem itemPosition 1"

section \<open>Insertion and removal\<close>

text \<open>What is stored: the caller's items, or zeros for a null pointer.\<close>

definition new_items :: "bytes option \<Rightarrow> int \<Rightarrow> bytes option" where
  "new_items ptrToItems n = (case ptrToItems of
     Some p \<Rightarrow> src_block p n | None \<Rightarrow> if 0 \<le> n then Some (replicate (nat n) 0) else None)"

definition ListInsertItems :: "bool \<Rightarrow> lst \<Rightarrow> bytes option \<Rightarrow> int \<Rightarrow> int \<Rightarrow> (lst \<times> int) option" where
  "ListInsertItems ok l ptrToItems firstItemPosition numItemsToInsert =
     (let n = numItems l;
          first = (if firstItemPosition = n + 1 then LIST_END else firstItemPosition)
      in if first > n then Some (l, 0)
         else
           let (l1, r) = (if numItems l \<ge> listSize l then ExpandListSpace ok l (- numItemsToInsert) else (l, 1))
           in if r = 0 then Some (l1, 0)
              else
                let pos = (if first = LIST_START then (if n = 0 then LIST_END else 1) else first);
                    sz = itemSize l1
                in do {
                  d \<leftarrow> new_items ptrToItems (sz * numItemsToInsert);
                  if pos = LIST_END then do {
                    m \<leftarrow> put_block (itemList l1) (ITEMPTR l1 n) d;
                    Some (l1\<lparr>itemList := m, numItems := numItems l1 + numItemsToInsert\<rparr>, 1) }
                  else do {
                    tail \<leftarrow> get_block (itemList l1) (ITEMPTR l1 (pos - 1)) ((n + 1 - pos) * sz);
                    m1 \<leftarrow> put_block (itemList l1) (ITEMPTR l1 (pos - 1 + numItemsToInsert)) tail;
                    m2 \<leftarrow> put_block m1 (ITEMPTR l1 (pos - 1)) d;
                    Some (l1\<lparr>itemList := m2, numItems := numItems l1 + numItemsToInsert\<rparr>, 1) } })"

definition ListInsertItem :: "bool \<Rightarrow> lst \<Rightarrow> bytes option \<Rightarrow> int \<Rightarrow> (lst \<times> int) option" where
  "ListInsertItem ok l ptrToItem itemPosition = ListInsertItems ok l ptrToItem itemPosition 1"

text \<open>The removed items are copied out when the caller wants them (\<open>want\<close>).\<close>

definition ListRemoveItems :: "lst \<Rightarrow> bool \<Rightarrow> int \<Rightarrow> int \<Rightarrow> (lst \<times> bytes) option" where
  "ListRemoveItems l want firstItemPosition numItemsToRemove =
     (let first = position l firstItemPosition;
          firstItemAfterChunk = first + numItemsToRemove;
          numToMove = numItems l - (firstItemAfterChunk - 1)
      in do {
        out \<leftarrow> (if want then get_block (itemList l) (ITEMPTR l (first - 1)) (itemSize l * numItemsToRemove) else Some []);
        m \<leftarrow> (if numToMove > 0 then do {
               b \<leftarrow> get_block (itemList l) (ITEMPTR l (firstItemAfterChunk - 1)) (itemSize l * numToMove);
               put_block (itemList l) (ITEMPTR l (first - 1)) b }
             else Some (itemList l));
        Some (l\<lparr>itemList := m, numItems := numItems l - numItemsToRemove\<rparr>, out) })"

definition ListRemoveItem :: "lst \<Rightarrow> bool \<Rightarrow> int \<Rightarrow> (lst \<times> bytes) option" where
  "ListRemoveItem l want itemPosition = ListRemoveItems l want itemPosition 1"

section \<open>Whole lists\<close>

definition ListCopy :: "mem option \<Rightarrow> bool \<Rightarrow> lst option \<Rightarrow> lst option option" where
  "ListCopy block ok originalList = (case originalList of
     None \<Rightarrow> Some None
   | Some l \<Rightarrow> (case ListCreate block (itemSize l) of
       None \<Rightarrow> Some None
     | Some t \<Rightarrow>
         (let (t1, r) = SetHandleSize ok (sizeof_ListStruct + numItems l * itemSize t) t
          in if r = 0 then Some None
             else do {
               let t2 = t1\<lparr>numItems := numItems l, listSize := numItems l, itemSize := itemSize l,
                           percentIncrease := percentIncrease l, minNumItemsIncrease := minNumItemsIncrease l\<rparr>;
               b \<leftarrow> get_block (itemList l) 0 (numItems l * itemSize t2);
               m \<leftarrow> put_block (itemList t2) 0 b;
               Some (Some (t2\<lparr>itemList := m\<rparr>)) })))"

definition ListAppend :: "bool \<Rightarrow> lst option \<Rightarrow> lst option \<Rightarrow> (lst option \<times> int) option" where
  "ListAppend ok list1 list2 = (case list2 of
     None \<Rightarrow> Some (list1, 1)
   | Some l2 \<Rightarrow> (case list1 of
       None \<Rightarrow> Some (None, 0)
     | Some l1 \<Rightarrow>
         if itemSize l1 \<noteq> itemSize l2 then Some (list1, 0)
         else if numItems l2 = 0 then Some (list1, 1)
         else
           let n = numItems l1 + numItems l2;
               (l, r) = SetHandleSize ok (sizeof_ListStruct + n * itemSize l1) l1
           in if r = 0 then Some (Some l, 0)
              else do {
                b \<leftarrow> get_block (itemList l2) 0 (numItems l2 * itemSize l2);
                m \<leftarrow> put_block (itemList l) (ITEMPTR l (numItems l1)) b;
                Some (Some (l\<lparr>itemList := m, numItems := n, listSize := n\<rparr>), 1) }))"

text \<open>\<^verbatim>\<open>ListMemBlockCmp\<close> is \<^verbatim>\<open>memcmp\<close>; a comparison function, or that for a null pointer.\<close>

definition ListMemBlockCmp :: "bytes \<Rightarrow> bytes \<Rightarrow> nat \<Rightarrow> int option" where
  "ListMemBlockCmp a b n = (if n \<le> length a \<and> n \<le> length b then memcmp 0 (length a) n (a @ b) else None)"

type_synonym compare_fun = "(bytes \<Rightarrow> bytes \<Rightarrow> int) option"

definition compare_items :: "compare_fun \<Rightarrow> bytes \<Rightarrow> bytes \<Rightarrow> int \<Rightarrow> int option" where
  "compare_items f a b n = (case f of Some g \<Rightarrow> Some (g a b) | None \<Rightarrow> ListMemBlockCmp a b (nat n))"

text \<open>\<open>same\<close> tells that both handles are one.\<close>

definition ListEqual :: "bool \<Rightarrow> lst option \<Rightarrow> lst option \<Rightarrow> int option" where
  "ListEqual same list1 list2 =
     (if same then Some 1
      else case (list1, list2) of
        (Some l1, Some l2) \<Rightarrow>
          if itemSize l1 = itemSize l1 \<and> numItems l1 = numItems l2 then do {
            a \<leftarrow> get_block (itemList l1) 0 (itemSize l1 * numItems l1);
            b \<leftarrow> get_block (itemList l2) 0 (itemSize l1 * numItems l1);
            c \<leftarrow> ListMemBlockCmp a b (length a);
            Some (c_bool (c = 0)) }
          else Some 0
      | _ \<Rightarrow> Some 0)"

section \<open>Searching\<close>

text \<open>The loop of \<^verbatim>\<open>BinSearch\<close> on the array at the start of \<open>m\<close>; the result is the value returned.\<close>

function bin_loop :: "compare_fun \<Rightarrow> mem \<Rightarrow> int \<Rightarrow> bytes \<Rightarrow> int \<Rightarrow> int \<Rightarrow> int \<Rightarrow> int \<Rightarrow> int option" where
  "bin_loop f m elementSize item low high mid cmp =
     (if low \<le> high then do {
        let mid' = (low + high) div 2;
        x \<leftarrow> get_block m (mid' * elementSize) elementSize;
        c \<leftarrow> compare_items f item x elementSize;
        if c = 0 then Some mid'
        else if c < 0 then bin_loop f m elementSize item low (mid' - 1) mid' c
        else bin_loop f m elementSize item (mid' + 1) high mid' c }
      else Some (- (if cmp > 0 then mid + 1 else mid) - 1))"
  by pat_completeness auto
termination
  by (relation "measure (\<lambda>(f, m, es, it, low, high, mid, cmp). nat (high + 1 - low))") auto

declare bin_loop.simps [simp del]

definition BinSearch :: "mem \<Rightarrow> int \<Rightarrow> int \<Rightarrow> bytes \<Rightarrow> compare_fun \<Rightarrow> int option" where
  "BinSearch array numElements elementSize item f = bin_loop f array elementSize item 0 (numElements - 1) 0 (-1)"

definition ListBinSearch :: "lst \<Rightarrow> bytes \<Rightarrow> compare_fun \<Rightarrow> int option" where
  "ListBinSearch l item f = do {
     index \<leftarrow> BinSearch (itemList l) (numItems l) (itemSize l) item f;
     Some (if index \<ge> 0 then index + 1 else 0) }"

function find_loop :: "compare_fun \<Rightarrow> lst \<Rightarrow> bytes \<Rightarrow> int \<Rightarrow> int option" where
  "find_loop f l item index =
     (if index \<le> numItems l then do {
        x \<leftarrow> get_block (itemList l) (ITEMPTR l (index - 1)) (itemSize l);
        c \<leftarrow> compare_items f item x (itemSize l);
        if c = 0 then Some index else find_loop f l item (index + 1) }
      else Some 0)"
  by pat_completeness auto
termination by (relation "measure (\<lambda>(f, l, it, index). nat (numItems l + 1 - index))") auto

declare find_loop.simps [simp del]

definition ListFindItem :: "lst \<Rightarrow> bytes \<Rightarrow> int \<Rightarrow> compare_fun \<Rightarrow> int option" where
  "ListFindItem l item startingPosition f =
     (if numItems l = 0 then Some 0 else find_loop f l item (position l startingPosition))"

text \<open>
  \<^verbatim>\<open>ListRemoveDuplicates\<close>: the inner loop for the item at \<open>index\<close>, the outer over the items. \<open>n\<close> is the
  variable \<^verbatim>\<open>numItems\<close> of the routine.
\<close>

fun dup_loop :: "compare_fun \<Rightarrow> nat \<Rightarrow> int \<Rightarrow> lst \<Rightarrow> int \<Rightarrow> int \<Rightarrow> (lst \<times> int) option" where
  "dup_loop f 0 index l n start = (if start \<le> n then None else Some (l, n))"
| "dup_loop f (Suc fuel) index l n start =
     (if start \<le> n then do {
        x \<leftarrow> get_block (itemList l) (ListGetPtrToItem l index) (itemSize l);
        d \<leftarrow> ListFindItem l x start f;
        if d > 0 then do {
          (l', out) \<leftarrow> ListRemoveItem l False d;
          dup_loop f fuel index l' (n - 1) d }
        else Some (l, n) }
      else Some (l, n))"

fun dups_loop :: "compare_fun \<Rightarrow> nat \<Rightarrow> int \<Rightarrow> lst \<Rightarrow> int \<Rightarrow> lst option" where
  "dups_loop f 0 index l n = (if index < n then None else Some l)"
| "dups_loop f (Suc fuel) index l n =
     (if index < n then do {
        (l', n') \<leftarrow> dup_loop f (nat (n - index)) index l n (index + 1);
        dups_loop f fuel (index + 1) l' n' }
      else Some l)"

definition ListRemoveDuplicates :: "lst \<Rightarrow> compare_fun \<Rightarrow> lst option" where
  "ListRemoveDuplicates l f = dups_loop f (nat (numItems l)) 1 l (numItems l)"

text \<open>\<^verbatim>\<open>ListApplyToEach\<close>; the callback gets the index and the item and changes its data.\<close>

fun apply_each :: "(int \<Rightarrow> bytes \<Rightarrow> 'd \<Rightarrow> 'd \<times> int) \<Rightarrow> lst \<Rightarrow> int list \<Rightarrow> 'd \<Rightarrow> int \<Rightarrow> ('d \<times> int) option" where
  "apply_each func l [] d result = Some (d, result)"
| "apply_each func l (i # is) d result = do {
     x \<leftarrow> get_block (itemList l) (ListGetPtrToItem l i) (itemSize l);
     let (d', r) = func i x d;
     if r < 0 then Some (d', r) else apply_each func l is d' r }"

definition ListApplyToEach :: "lst option \<Rightarrow> bool \<Rightarrow> (int \<Rightarrow> bytes \<Rightarrow> 'd \<Rightarrow> 'd \<times> int) option \<Rightarrow> 'd
    \<Rightarrow> ('d \<times> int) option" where
  "ListApplyToEach l ascending func d = (case (l, func) of
     (Some x, Some f) \<Rightarrow>
       apply_each f x (if ascending then [1..numItems x] else rev [1..numItems x]) d 0
   | _ \<Rightarrow> Some (d, 0))"

text \<open>Comparison functions for items that are numbers of the target.\<close>

definition ShortCompare :: "bytes \<Rightarrow> bytes \<Rightarrow> int option" where
  "ShortCompare a b = do {
     x \<leftarrow> rd16 a 0; y \<leftarrow> rd16 b 0;
     Some (if sint x < sint y then -1 else if sint x > sint y then 1 else 0) }"

definition IntCompare :: "bytes \<Rightarrow> bytes \<Rightarrow> int option" where
  "IntCompare a b = do {
     x \<leftarrow> rd32 a 0; y \<leftarrow> rd32 b 0;
     Some (if sint x < sint y then -1 else if sint x > sint y then 1 else 0) }"

end
