(* ===== verification/ListsProps.thy ===== *)
theory ListsProps
  imports ListsC CStringProps
begin

text \<open>
  The resizable lists refine lists of items: insertion and removal at a position, growth, binary search. The
  interface \<open>sequence\<close> is what a client of the lists uses.
\<close>

section \<open>Representation\<close>

definition lst_ok :: "lst \<Rightarrow> bytes list \<Rightarrow> bool" where
  "lst_ok l xs \<longleftrightarrow> 0 < itemSize l \<and> numItems l = int (length xs) \<and> numItems l \<le> listSize l \<and>
     0 \<le> percentIncrease l \<and> 0 \<le> minNumItemsIncrease l \<and>
     int (length (itemList l)) = listSize l * itemSize l + 4 \<and>
     (\<forall>x\<in>set xs. int (length x) = itemSize l) \<and> (\<exists>rest. itemList l = concat xs @ rest)"

lemma length_concat_items: "\<forall>x\<in>set xs. length x = s \<Longrightarrow> length (concat xs) = s * length xs"
  by (induction xs) auto

lemma get_block_nat: "a + n \<le> length m \<Longrightarrow> get_block m (int a) (int n) = Some (slice m a n)"
  by (auto simp: get_block_def)

lemma put_block_nat:
  "a + length bs \<le> length m \<Longrightarrow> put_block m (int a) bs = Some (take a m @ bs @ drop (a + length bs) m)"
  by (auto simp: put_block_def blit_splice)

text \<open>The item size as a natural number, and the bytes in front of a position.\<close>

lemma lst_ok_parts:
  assumes "lst_ok l xs" "k \<le> length xs"
  obtains s rest where "itemSize l = int s" "0 < s" "\<forall>x\<in>set xs. length x = s"
    "itemList l = concat (take k xs) @ concat (drop k xs) @ rest"
    "length (concat (take k xs)) = s * k" "length (concat (drop k xs)) = s * (length xs - k)"
    "int (length rest) = (listSize l - numItems l) * itemSize l + 4"
proof -
  define s where "s = nat (itemSize l)"
  have s: "itemSize l = int s" "0 < s" using assms(1) by (auto simp: lst_ok_def s_def)
  have x: "\<forall>x\<in>set xs. length x = s" using assms(1) s by (simp add: lst_ok_def)
  obtain rest where r: "itemList l = concat xs @ rest" using assms(1) by (auto simp: lst_ok_def)
  have m: "itemList l = concat (take k xs) @ concat (drop k xs) @ rest"
    unfolding r by (metis append.assoc append_take_drop_id concat_append)
  have "length (concat (take k xs)) = s * k" "length (concat (drop k xs)) = s * (length xs - k)"
    using x assms(2) length_concat_items [of "take k xs" s] length_concat_items [of "drop k xs" s]
    by (auto dest: in_set_takeD in_set_dropD simp: min_absorb2)
  moreover have "int (length rest) = (listSize l - numItems l) * itemSize l + 4"
    using assms(1) s length_concat_items [OF x] r by (simp add: lst_ok_def algebra_simps)
  ultimately show ?thesis using that s x m by blast
qed

section \<open>Growth\<close>

lemma NUMITEMSPERALLOC_ge: "lst_ok l xs \<Longrightarrow> 0 \<le> NUMITEMSPERALLOC l"
  by (simp add: NUMITEMSPERALLOC_def lst_ok_def le_max_iff_disj)

lemma lst_ok_grow:
  assumes "lst_ok l xs" "0 \<le> n"
  shows "SetHandleSize True (sizeof_ListStruct + (listSize l + n) * itemSize l) l =
    (l\<lparr>itemList := itemList l @ replicate (nat (n * itemSize l)) 0\<rparr>, 1)"
proof -
  let ?old = "length (itemList l)" and ?new = "sizeof_ListStruct + (listSize l + n) * itemSize l"
  have new: "?new - list_offset = int ?old + n * itemSize l" "0 \<le> n * itemSize l"
    using assms by (simp_all add: lst_ok_def sizeof_ListStruct_def list_offset_def algebra_simps)
  show ?thesis
  proof (cases "n * itemSize l = 0")
    case True
    then have "handle_size l = ?new" using new(1) unfolding handle_size_def by linarith
    moreover have "n = 0" using True assms(1) by (simp add: lst_ok_def)
    ultimately show ?thesis by (simp add: SetHandleSize_def)
  next
    case False
    have "nat (?new - list_offset) = ?old + nat (n * itemSize l)" using new by simp
    moreover have "list_offset \<le> ?new" using new by linarith
    moreover have "handle_size l \<noteq> ?new" unfolding handle_size_def using new False by linarith
    ultimately show ?thesis by (simp add: SetHandleSize_def Let_def)
  qed
qed

lemma expand_ok:
  assumes "lst_ok l xs" "0 < n"
  shows "\<exists>l'. ExpandListSpace True l (- n) = (l', 1) \<and> lst_ok l' xs \<and> itemSize l' = itemSize l \<and>
    numItems l' = numItems l \<and> listSize l' = listSize l + n + NUMITEMSPERALLOC l"
proof -
  let ?n = "n + NUMITEMSPERALLOC l"
  have n: "0 \<le> ?n" using assms NUMITEMSPERALLOC_ge [OF assms(1)] by simp
  let ?l = "l\<lparr>itemList := itemList l @ replicate (nat (?n * itemSize l)) 0, listSize := listSize l + ?n\<rparr>"
  have "ExpandListSpace True l (- n) = (?l, 1)"
    using lst_ok_grow [OF assms(1) n] assms(2) by (simp add: ExpandListSpace_def Let_def)
  moreover have "0 \<le> ?n * itemSize l" using n assms(1) by (simp add: lst_ok_def)
  then have "lst_ok ?l xs"
    using assms(1) n by (auto simp: lst_ok_def algebra_simps)
  ultimately show ?thesis by auto
qed

lemma expand_fails:
  assumes "lst_ok l xs" "0 < n"
  shows "ExpandListSpace False l (- n) = (l, 0)"
proof -
  let ?n = "n + NUMITEMSPERALLOC l"
  have "0 < ?n * itemSize l" using assms NUMITEMSPERALLOC_ge [OF assms(1)] by (simp add: lst_ok_def)
  then have "handle_size l \<noteq> sizeof_ListStruct + (listSize l + ?n) * itemSize l"
    using assms(1) by (simp add: lst_ok_def handle_size_def sizeof_ListStruct_def list_offset_def algebra_simps)
  then show ?thesis using assms(2) by (simp add: ExpandListSpace_def SetHandleSize_def Let_def)
qed

section \<open>Insertion\<close>

text \<open>With room for it, an item goes to place \<open>k\<close>.\<close>

lemma insert_room:
  assumes "lst_ok l xs" "k \<le> length xs" "int (length x) = itemSize l" "numItems l < listSize l"
  shows "\<exists>m. put_block (itemList l) (ITEMPTR l (int (length xs))) x = Some m \<and> (k = length xs \<longrightarrow>
      lst_ok (l\<lparr>itemList := m, numItems := numItems l + 1\<rparr>) (xs @ [x]))"
    and "\<exists>tail m1 m2. get_block (itemList l) (ITEMPTR l (int k)) ((int (length xs) - int k) * itemSize l) = Some tail \<and>
      put_block (itemList l) (ITEMPTR l (int k + 1)) tail = Some m1 \<and> put_block m1 (ITEMPTR l (int k)) x = Some m2 \<and>
      lst_ok (l\<lparr>itemList := m2, numItems := numItems l + 1\<rparr>) (take k xs @ x # drop k xs)"
proof -
  obtain s rest where s: "itemSize l = int s" "0 < s" "\<forall>x\<in>set xs. length x = s"
    "itemList l = concat (take k xs) @ concat (drop k xs) @ rest"
    "length (concat (take k xs)) = s * k" "length (concat (drop k xs)) = s * (length xs - k)"
    "int (length rest) = (listSize l - numItems l) * itemSize l + 4"
    using lst_ok_parts [OF assms(1,2)] .
  have x: "length x = s" using assms(3) s(1) by simp
  have "int s \<le> (listSize l - numItems l) * itemSize l"
    using mult_right_mono [of 1 "listSize l - numItems l" "int s"] assms(4) s(1) by simp
  then have r: "s \<le> length rest" using s(7) by simp
  have p: "ITEMPTR l (int i) = int (s * i)" "ITEMPTR l (int i + 1) = int (s * i + s)" for i
    by (simp_all add: ITEMPTR_def s(1) algebra_simps)
  have ok: "lst_ok (l\<lparr>itemList := concat ys @ r, numItems := numItems l + 1\<rparr>) ys"
    if "length ys = Suc (length xs)" "set ys = insert x (set xs)" "length (concat ys @ r) = length (itemList l)" for ys r
    using that assms(1,4) x s(1) by (auto simp: lst_ok_def)
  let ?A = "concat (take k xs)" and ?B = "concat (drop k xs)"
  have len: "length (itemList l) = s * k + s * (length xs - k) + length rest" using s(4-6) by simp
  have g: "get_block (itemList l) (ITEMPTR l (int k)) ((int (length xs) - int k) * itemSize l) = Some ?B"
    using get_block_nat [of "s * k" "s * (length xs - k)" "itemList l"] len s(4-6) assms(2) p(1) [of k]
    by (simp add: s(1) slice_def of_nat_diff mult.commute)
  define m1 where "m1 = take (s * k + s) (itemList l) @ ?B @ drop (s * k + s + length ?B) (itemList l)"
  have m1: "put_block (itemList l) (ITEMPTR l (int k + 1)) ?B = Some m1"
    unfolding p m1_def by (rule put_block_nat) (use r len s(6) in simp)
  define m2 where "m2 = ?A @ x @ ?B @ drop (s * k + s + length ?B) (itemList l)"
  have "take (s * k) m1 = ?A" "drop (s * k + s) m1 = ?B @ drop (s * k + s + length ?B) (itemList l)" "length m1 = length (itemList l)"
    using s(4,5,6) r len unfolding m1_def by simp_all
  then have m2: "put_block m1 (ITEMPTR l (int k)) x = Some m2"
    unfolding p m2_def using put_block_nat [of "s * k" x m1] x len r s(5) by simp
  have "lst_ok (l\<lparr>itemList := m2, numItems := numItems l + 1\<rparr>) (take k xs @ x # drop k xs)"
  proof -
    have "set (take k xs @ x # drop k xs) = insert x (set xs)"
      by (metis Un_insert_right append_take_drop_id list.simps(15) set_append)
    moreover have "length m2 = length (itemList l)" unfolding m2_def using len r x s(5,6) by simp
    ultimately show ?thesis
      using ok [of "take k xs @ x # drop k xs" "drop (s * k + s + length ?B) (itemList l)"] assms(2) by (simp add: m2_def)
  qed
  then show "\<exists>tail m1 m2. get_block (itemList l) (ITEMPTR l (int k)) ((int (length xs) - int k) * itemSize l) = Some tail \<and>
      put_block (itemList l) (ITEMPTR l (int k + 1)) tail = Some m1 \<and> put_block m1 (ITEMPTR l (int k)) x = Some m2 \<and>
      lst_ok (l\<lparr>itemList := m2, numItems := numItems l + 1\<rparr>) (take k xs @ x # drop k xs)"
    using g m1 m2 by blast
  have len_xs: "s * length xs + s \<le> length (itemList l)" using len r assms(2)
    by (metis add.assoc add_mult_distrib2 le_add_diff_inverse nat_add_left_cancel_le)
  have c: "take (s * length xs) (itemList l) = concat xs"
    using s(4-6) assms(2) length_concat_items [OF s(3)] by (metis append.assoc append_eq_conv_conj append_take_drop_id concat_append)
  have "put_block (itemList l) (ITEMPTR l (int (length xs))) x =
      Some (concat xs @ x @ drop (s * length xs + s) (itemList l))"
    unfolding p using put_block_nat [of "s * length xs" x "itemList l"] x len_xs c by simp
  moreover have "lst_ok (l\<lparr>itemList := concat xs @ x @ drop (s * length xs + s) (itemList l), numItems := numItems l + 1\<rparr>) (xs @ [x])"
    using ok [of "xs @ [x]" "drop (s * length xs + s) (itemList l)"] len_xs x length_concat_items [OF s(3)] by simp
  ultimately show "\<exists>m. put_block (itemList l) (ITEMPTR l (int (length xs))) x = Some m \<and> (k = length xs \<longrightarrow>
      lst_ok (l\<lparr>itemList := m, numItems := numItems l + 1\<rparr>) (xs @ [x]))"
    by auto
qed

text \<open>The place a position stands for when inserting.\<close>

definition insert_place :: "bytes list \<Rightarrow> int \<Rightarrow> nat" where
  "insert_place xs p = (if p = LIST_START then 0 else if p = LIST_END then length xs else nat (p - 1))"

lemma insert_with_room:
  assumes "lst_ok l xs" "int (length x) = itemSize l" "numItems l < listSize l" "-1 \<le> p" "p \<le> int (length xs) + 1"
  shows "\<exists>l'. ListInsertItem ok l (Some x) p = Some (l', 1) \<and>
    lst_ok l' (take (insert_place xs p) xs @ x # drop (insert_place xs p) xs) \<and> itemSize l' = itemSize l \<and> listSize l' = listSize l"
proof -
  let ?k = "insert_place xs p"
  have n: "numItems l = int (length xs)" using assms(1) by (simp add: lst_ok_def)
  have k: "?k \<le> length xs" using assms(5) by (auto simp: insert_place_def LIST_START_def LIST_END_def)
  have d: "src_block x (itemSize l * 1) = Some x" using assms(2) by (simp add: src_block_def)
  show ?thesis
  proof (cases "?k = length xs \<and> p \<noteq> LIST_START \<or> p = LIST_START \<and> xs = []")
    case True
    then have e: "?k = length xs" "p = LIST_END \<or> p = int (length xs) + 1 \<or> p = LIST_START \<and> xs = []"
      using assms(4,5) by (auto simp: insert_place_def LIST_START_def LIST_END_def split: if_splits)
    obtain m where "put_block (itemList l) (ITEMPTR l (int (length xs))) x = Some m"
      "lst_ok (l\<lparr>itemList := m, numItems := numItems l + 1\<rparr>) (xs @ [x])"
      using insert_room(1) [OF assms(1) k assms(2,3)] e(1) by blast
    then show ?thesis
      using e d n assms(3)
      by (auto simp: ListInsertItem_def ListInsertItems_def Let_def new_items_def LIST_START_def LIST_END_def)
  next
    case False
    define k where "k = ?k"
    have q: "(if p = numItems l + 1 then LIST_END else p) = p" "\<not> p > numItems l" "int k + 1 \<noteq> LIST_END"
      "(if p = LIST_START then if numItems l = 0 then LIST_END else 1 else p) = int k + 1"
    proof -
      consider "p = -1" "xs \<noteq> []" | "1 \<le> p" "p \<le> int (length xs)" "int k + 1 = p"
      proof -
        have "p \<noteq> 0" using False by (auto simp: insert_place_def LIST_START_def LIST_END_def)
        moreover have "p \<noteq> int (length xs) + 1"
          using False by (auto simp: insert_place_def LIST_START_def LIST_END_def)
        moreover have "p = -1 \<Longrightarrow> xs \<noteq> []" using False by (simp add: LIST_START_def)
        moreover have "int k + 1 = p" if "1 \<le> p" using that by (simp add: k_def insert_place_def LIST_START_def LIST_END_def)
        ultimately show ?thesis using that assms(4,5) by linarith
      qed
      note cs = this
      show "(if p = numItems l + 1 then LIST_END else p) = p" "\<not> p > numItems l" "int k + 1 \<noteq> LIST_END"
        "(if p = LIST_START then if numItems l = 0 then LIST_END else 1 else p) = int k + 1"
        by (cases rule: cs; simp add: n LIST_START_def LIST_END_def k_def insert_place_def)+
    qed
    obtain tail m1 m2 where m: "get_block (itemList l) (ITEMPTR l (int k)) ((int (length xs) - int k) * itemSize l) = Some tail"
      "put_block (itemList l) (ITEMPTR l (int k + 1)) tail = Some m1" "put_block m1 (ITEMPTR l (int k)) x = Some m2"
      "lst_ok (l\<lparr>itemList := m2, numItems := numItems l + 1\<rparr>) (take k xs @ x # drop k xs)"
      using insert_room(2) [OF assms(1) k assms(2,3)] unfolding k_def by blast
    have a: "int k + 1 - 1 = int k" "int k + 1 - 1 + 1 = int k + 1" "numItems l + 1 - (int k + 1) = int (length xs) - int k"
      "\<not> listSize l \<le> numItems l"
      using n assms(3) by simp_all
    have "ListInsertItem ok l (Some x) p = Some (l\<lparr>itemList := m2, numItems := numItems l + 1\<rparr>, 1)"
      unfolding ListInsertItem_def ListInsertItems_def Let_def q(1) if_not_P [OF q(2)] if_not_P [OF a(4)] prod.case
        if_not_P [OF one_neq_zero] q(4) new_items_def option.case if_not_P [OF q(3)] a(1-3) d m(1-3) Option.bind.bind_lunit ..
    then show ?thesis using m(4) by (simp add: k_def)
  qed
qed

lemma insert_full:
  assumes "lst_ok l xs" "listSize l \<le> numItems l" "p \<le> int (length xs) + 1" "ExpandListSpace ok l (- 1) = (l', 1)"
    and "numItems l' = numItems l" "numItems l < listSize l'"
  shows "ListInsertItem ok l d p = ListInsertItem ok l' d p"
  using assms by (simp add: ListInsertItem_def ListInsertItems_def Let_def lst_ok_def LIST_END_def)

lemma insert_ok:
  assumes "lst_ok l xs" "int (length x) = itemSize l" "-1 \<le> p" "p \<le> int (length xs) + 1"
  shows "\<exists>l'. ListInsertItem True l (Some x) p = Some (l', 1) \<and>
    lst_ok l' (take (insert_place xs p) xs @ x # drop (insert_place xs p) xs) \<and> itemSize l' = itemSize l"
proof (cases "numItems l < listSize l")
  case True
  then show ?thesis using insert_with_room [OF assms(1,2) _ assms(3,4)] by blast
next
  case False
  obtain l1 where l1: "ExpandListSpace True l (- 1) = (l1, 1)" "lst_ok l1 xs" "itemSize l1 = itemSize l"
    "numItems l1 = numItems l" "listSize l1 = listSize l + 1 + NUMITEMSPERALLOC l"
    using expand_ok [OF assms(1), of 1] by auto
  have "numItems l < listSize l1"
    using l1(5) NUMITEMSPERALLOC_ge [OF assms(1)] assms(1) by (simp add: lst_ok_def)
  then show ?thesis
    using insert_full [OF assms(1) _ assms(4) l1(1,4)] insert_with_room [OF l1(2), of x p True] assms(2-4) l1 False
    by auto
qed

section \<open>Removal\<close>

lemma remove_ok:
  assumes "lst_ok l xs" "k < length xs"
  shows "\<exists>l'. ListRemoveItem l True (int k + 1) = Some (l', xs ! k) \<and> lst_ok l' (take k xs @ drop (Suc k) xs) \<and>
    itemSize l' = itemSize l"
proof -
  obtain s rest where s: "itemSize l = int s" "0 < s" "\<forall>x\<in>set xs. length x = s"
    "itemList l = concat (take k xs) @ concat (drop k xs) @ rest"
    "length (concat (take k xs)) = s * k" "length (concat (drop k xs)) = s * (length xs - k)"
    "int (length rest) = (listSize l - numItems l) * itemSize l + 4"
    using lst_ok_parts [OF assms(1), of k] assms(2) by auto
  have n: "numItems l = int (length xs)" using assms(1) by (simp add: lst_ok_def)
  let ?A = "concat (take k xs)" and ?B = "concat (drop (Suc k) xs)" and ?x = "xs ! k"
  have d: "concat (drop k xs) = ?x @ ?B" using assms(2) by (simp add: Cons_nth_drop_Suc [symmetric])
  have x: "length ?x = s" using s(3) assms(2) by simp
  have B: "length ?B = s * (length xs - Suc k)" using s(6) d x assms(2) by (simp add: Suc_diff_Suc [symmetric] diff_mult_distrib2)
  have m: "itemList l = ?A @ ?x @ ?B @ rest" using s(4) d by simp
  have p: "ITEMPTR l (int k) = int (s * k)" "ITEMPTR l (int k + 1) = int (s * k + s)"
    by (simp_all add: ITEMPTR_def s(1) algebra_simps)
  have len: "length (itemList l) = s * k + s + length ?B + length rest" using m s(5) x by simp
  have 1: "get_block (itemList l) (ITEMPTR l (int k)) (itemSize l * 1) = Some ?x"
    using get_block_nat [of "s * k" s "itemList l"] len s(1,5) x m p by (simp add: slice_def)
  define m' where "m' = ?A @ ?B @ drop (s * k + length ?B) (itemList l)"
  have 2: "(if numItems l - (int k + 1) > 0 then do {
      b \<leftarrow> get_block (itemList l) (ITEMPTR l (int k + 1)) (itemSize l * (numItems l - (int k + 1)));
      put_block (itemList l) (ITEMPTR l (int k)) b } else Some (itemList l)) = Some m'"
  proof (cases "Suc k < length xs")
    case True
    then have c: "itemSize l * (numItems l - (int k + 1)) = int (length ?B)"
      unfolding B s(1) n by (simp add: of_nat_diff)
    have "slice (itemList l) (s * k + s) (length ?B) = ?B" using m s(5) x by (simp add: slice_def)
    then have "get_block (itemList l) (ITEMPTR l (int k + 1)) (int (length ?B)) = Some ?B"
      using get_block_nat [of "s * k + s" "length ?B" "itemList l"] len unfolding p by simp
    moreover have "put_block (itemList l) (ITEMPTR l (int k)) ?B = Some m'"
      using put_block_nat [of "s * k" ?B "itemList l"] len s(5) m unfolding p m'_def by simp
    ultimately show ?thesis using True n c by simp
  next
    case False
    then have "drop (Suc k) xs = []" "\<not> numItems l - (int k + 1) > 0" using n assms(2) by auto
    then show ?thesis using m s(5) by (simp add: m'_def)
  qed
  have "lst_ok (l\<lparr>itemList := m', numItems := numItems l - 1\<rparr>) (take k xs @ drop (Suc k) xs)"
    using assms s(3,1) len s(5) n unfolding m'_def lst_ok_def
    by (auto dest: in_set_takeD in_set_dropD)
  moreover have "ListRemoveItem l True (int k + 1) = Some (l\<lparr>itemList := m', numItems := numItems l - 1\<rparr>, ?x)"
  proof -
    have a: "position l (int k + 1) = int k + 1" "int k + 1 - 1 = int k" "int k + 1 + 1 - 1 = int k + 1"
      by (simp_all add: position_def LIST_START_def LIST_END_def)
    show ?thesis
      unfolding ListRemoveItem_def ListRemoveItems_def Let_def a if_True 1 2 Option.bind.bind_lunit ..
  qed
  ultimately show ?thesis by auto
qed

lemma item_block:
  assumes "lst_ok l xs" "i < length xs"
  shows "get_block (itemList l) (int i * itemSize l) (itemSize l) = Some (xs ! i)"
proof -
  obtain s rest where s: "itemSize l = int s" "0 < s" "\<forall>x\<in>set xs. length x = s"
    "itemList l = concat (take i xs) @ concat (drop i xs) @ rest"
    "length (concat (take i xs)) = s * i" "length (concat (drop i xs)) = s * (length xs - i)"
    "int (length rest) = (listSize l - numItems l) * itemSize l + 4"
    using lst_ok_parts [OF assms(1) less_imp_le [OF assms(2)]] .
  have d: "concat (drop i xs) = xs ! i @ concat (drop (Suc i) xs)" using assms(2) by (simp add: Cons_nth_drop_Suc [symmetric])
  have x: "length (xs ! i) = s" using s(3) assms(2) by simp
  have "s * i + s \<le> length (itemList l)" using s(4,5) d x by simp
  then show ?thesis
    using get_block_nat [of "s * i" s "itemList l"] s(1,4,5) d x by (simp add: slice_def mult.commute)
qed

section \<open>Binary search\<close>

text \<open>\<open>c i\<close> is the outcome of comparing the searched item with the one at index \<open>i\<close>.\<close>

definition found_at :: "(int \<Rightarrow> int) \<Rightarrow> int \<Rightarrow> int \<Rightarrow> bool" where
  "found_at c n r \<longleftrightarrow>
     (if 0 \<le> r then r < n \<and> c r = 0
      else (\<forall>i. 0 \<le> i \<and> i < - r - 1 \<longrightarrow> c i > 0) \<and> (\<forall>i. - r - 1 \<le> i \<and> i < n \<longrightarrow> c i < 0))"

lemma bin_loop_found:
  assumes "\<And>i. 0 \<le> i \<Longrightarrow> i < n \<Longrightarrow>
      \<exists>x. get_block m (i * es) es = Some x \<and> compare_items f item x es = Some (c i)"
    and "\<And>i j. 0 \<le> i \<Longrightarrow> i < j \<Longrightarrow> j < n \<Longrightarrow> (c i < 0 \<longrightarrow> c j < 0) \<and> (c j > 0 \<longrightarrow> c i > 0)"
  shows "0 \<le> low \<Longrightarrow> high < n \<Longrightarrow> low \<le> high + 1 \<Longrightarrow> \<forall>i. 0 \<le> i \<and> i < low \<longrightarrow> c i > 0 \<Longrightarrow>
    \<forall>i. high < i \<and> i < n \<longrightarrow> c i < 0 \<Longrightarrow> (cmp > 0 \<longrightarrow> low = mid + 1) \<Longrightarrow>
    (cmp \<le> 0 \<longrightarrow> high = mid - 1 \<or> low = 0 \<and> mid = 0) \<Longrightarrow>
    \<exists>r. bin_loop f m es item low high mid cmp = Some r \<and> found_at c n r"
proof (induction "nat (high + 1 - low)" arbitrary: low high mid cmp rule: less_induct)
  case less
  show ?case
  proof (cases "low \<le> high")
    case False
    then have "low = high + 1" using less.prems(3) by simp
    then have "bin_loop f m es item low high mid cmp = Some (- low - 1)"
      using less.prems(6,7) False by (subst bin_loop.simps) auto
    then show ?thesis using less.prems(1,4,5) \<open>low = high + 1\<close> by (auto simp: found_at_def)
  next
    case True
    let ?mid = "(low + high) div 2"
    have mid: "low \<le> ?mid" "?mid \<le> high" using True by auto
    then have r: "0 \<le> ?mid" "?mid < n" using less.prems(1,2) by auto
    obtain x where x: "get_block m (?mid * es) es = Some x" "compare_items f item x es = Some (c ?mid)"
      using assms(1) [OF r] by blast
    have step: "bin_loop f m es item low high mid cmp =
        (if c ?mid = 0 then Some ?mid
         else if c ?mid < 0 then bin_loop f m es item low (?mid - 1) ?mid (c ?mid)
         else bin_loop f m es item (?mid + 1) high ?mid (c ?mid))"
      using True x by (subst bin_loop.simps) (simp add: Let_def)
    consider "c ?mid = 0" | "c ?mid < 0" | "c ?mid > 0" by linarith
    then show ?thesis
    proof cases
      case 1
      then show ?thesis using step r by (simp add: found_at_def)
    next
      case 2
      have neg: "c i < 0" if "?mid - 1 < i" "i < n" for i
        using assms(2) [of ?mid i] 2 that r by (cases "i = ?mid") auto
      have "\<exists>r. bin_loop f m es item low (?mid - 1) ?mid (c ?mid) = Some r \<and> found_at c n r"
      proof (rule less.hyps)
        show "\<forall>i. ?mid - 1 < i \<and> i < n \<longrightarrow> c i < 0" using neg by simp
      qed (use less.prems(1,4) mid r 2 in simp_all)
      then show ?thesis using 2 step by simp
    next
      case 3
      have pos: "c i > 0" if "0 \<le> i" "i < ?mid + 1" for i
        using assms(2) [of i ?mid] 3 that r by (cases "i = ?mid") auto
      have "\<exists>r. bin_loop f m es item (?mid + 1) high ?mid (c ?mid) = Some r \<and> found_at c n r"
      proof (rule less.hyps)
        show "\<forall>i. 0 \<le> i \<and> i < ?mid + 1 \<longrightarrow> c i > 0" using pos by simp
      qed (use less.prems(2,5) mid r 3 in simp_all)
      then show ?thesis using 3 step by simp
    qed
  qed
qed

section \<open>The interface of a sequence\<close>

text \<open>A sequence with insertion and removal at a place; \<open>valid\<close> items are those it can hold.\<close>

locale sequence =
  fixes inv :: "'l \<Rightarrow> 'a list \<Rightarrow> bool" and valid :: "'l \<Rightarrow> 'a \<Rightarrow> bool"
    and insert_at :: "nat \<Rightarrow> 'a \<Rightarrow> 'l \<Rightarrow> 'l option" and remove_at :: "nat \<Rightarrow> 'l \<Rightarrow> ('l \<times> 'a) option"
  assumes insert_inv: "inv l xs \<Longrightarrow> valid l x \<Longrightarrow> k \<le> length xs \<Longrightarrow>
      \<exists>l'. insert_at k x l = Some l' \<and> inv l' (take k xs @ x # drop k xs) \<and> valid l' = valid l"
    and remove_inv: "inv l xs \<Longrightarrow> k < length xs \<Longrightarrow>
      \<exists>l'. remove_at k l = Some (l', xs ! k) \<and> inv l' (take k xs @ drop (Suc k) xs) \<and> valid l' = valid l"
begin

text \<open>What was inserted is what is removed, and nothing else has changed.\<close>

lemma insert_remove:
  assumes "inv l xs" "valid l x" "k \<le> length xs"
  shows "\<exists>l1 l2. insert_at k x l = Some l1 \<and> remove_at k l1 = Some (l2, x) \<and> inv l2 xs"
proof -
  obtain l1 where l1: "insert_at k x l = Some l1" "inv l1 (take k xs @ x # drop k xs)"
    using insert_inv [OF assms] by blast
  show ?thesis using remove_inv [OF l1(2), of k] l1(1) assms(3) by (auto simp: nth_append)
qed

text \<open>Items added at the end, one after the other.\<close>

fun add_all :: "nat \<Rightarrow> 'a list \<Rightarrow> 'l \<Rightarrow> 'l option" where
  "add_all n [] l = Some l"
| "add_all n (x # xs) l = (case insert_at n x l of None \<Rightarrow> None | Some l' \<Rightarrow> add_all (Suc n) xs l')"

lemma add_all_inv:
  "inv l xs \<Longrightarrow> \<forall>y\<in>set ys. valid l y \<Longrightarrow> \<exists>l'. add_all (length xs) ys l = Some l' \<and> inv l' (xs @ ys)"
proof (induction ys arbitrary: l xs)
  case (Cons y ys)
  obtain l1 where l1: "insert_at (length xs) y l = Some l1" "inv l1 (xs @ [y])" "valid l1 = valid l"
    using insert_inv [OF Cons.prems(1), of y "length xs"] Cons.prems(2) by auto
  then show ?case using Cons.IH [OF l1(2)] Cons.prems(2) by simp
qed simp

end

definition list_insert_at :: "nat \<Rightarrow> bytes \<Rightarrow> lst \<Rightarrow> lst option" where
  "list_insert_at k x l = map_option fst (ListInsertItem True l (Some x) (int k + 1))"

definition list_remove_at :: "nat \<Rightarrow> lst \<Rightarrow> (lst \<times> bytes) option" where
  "list_remove_at k l = ListRemoveItem l True (int k + 1)"

interpretation items: sequence lst_ok "\<lambda>l x. int (length x) = itemSize l" list_insert_at list_remove_at
proof
  fix l xs x k
  assume l: "lst_ok l xs"
  show "\<exists>l'. list_insert_at k x l = Some l' \<and> lst_ok l' (take k xs @ x # drop k xs) \<and>
      (\<lambda>x. int (length x) = itemSize l') = (\<lambda>x. int (length x) = itemSize l)"
    if "int (length x) = itemSize l" "k \<le> length xs"
    using insert_ok [OF l that(1), of "int k + 1"] that(2)
    by (auto simp: list_insert_at_def insert_place_def LIST_START_def LIST_END_def)
  show "\<exists>l'. list_remove_at k l = Some (l', xs ! k) \<and> lst_ok l' (take k xs @ drop (Suc k) xs) \<and>
      (\<lambda>x. int (length x) = itemSize l') = (\<lambda>x. int (length x) = itemSize l)"
    if "k < length xs"
    using remove_ok [OF l that] by (auto simp: list_remove_at_def)
qed

section \<open>Properties\<close>

text \<open>C25: \<^verbatim>\<open>ListInsertItem\<close> at a position, symbolic or between 1 and one past the end, inserts there, growing the
  list when it is full.\<close>

theorem ListInsertItem_refines:
  assumes "lst_ok l xs" "int (length x) = itemSize l" "-1 \<le> p" "p \<le> int (length xs) + 1"
  shows "\<exists>l'. ListInsertItem True l (Some x) p = Some (l', 1) \<and>
    lst_ok l' (take (insert_place xs p) xs @ x # drop (insert_place xs p) xs)"
  using insert_ok [OF assms] by blast

definition sample_list :: lst where
  "sample_list = \<lparr>percentIncrease = 10, minNumItemsIncrease = 4, listSize = 2, itemSize = 2, numItems = 2,
     itemList = [1, 1, 2, 2, 0, 0, 0, 0]\<rparr>"

lemma sample_list_ok: "lst_ok sample_list [[1, 1], [2, 2]]"
  by (simp add: lst_ok_def sample_list_def)

lemma ListInsertItem_refines_witness:
  "\<exists>l'. ListInsertItem True sample_list (Some [3, 3]) 2 = Some (l', 1) \<and> lst_ok l' [[1, 1], [3, 3], [2, 2]]"
  using ListInsertItem_refines [OF sample_list_ok, of "[3, 3]" 2]
  by (simp add: sample_list_def insert_place_def LIST_START_def LIST_END_def)

text \<open>C35: Inserting an item and removing it again from the same place gives the item back and leaves the list as
  it was.\<close>

theorem list_insert_remove:
  assumes "lst_ok l xs" "int (length x) = itemSize l" "k \<le> length xs"
  shows "\<exists>l1 l2. ListInsertItem True l (Some x) (int k + 1) = Some (l1, 1) \<and>
    ListRemoveItem l1 True (int k + 1) = Some (l2, x) \<and> lst_ok l2 xs"
  using items.insert_remove [OF assms] insert_ok [OF assms(1,2), of "int k + 1"] assms(3)
  by (auto simp: list_insert_at_def list_remove_at_def)

lemma list_insert_remove_witness:
  "\<exists>l1 l2. ListInsertItem True sample_list (Some [3, 3]) 1 = Some (l1, 1) \<and>
     ListRemoveItem l1 True 1 = Some (l2, [3, 3]) \<and> lst_ok l2 [[1, 1], [2, 2]]"
  using list_insert_remove [OF sample_list_ok, of "[3, 3]" 0] by (simp add: sample_list_def)

text \<open>\<^verbatim>\<open>BinSearch\<close> on items that are in order for the comparison terminates with the index of a match, or with
  the place where the item belongs, encoded as a negative number.\<close>

theorem BinSearch_correct:
  assumes "lst_ok l xs"
    and "\<forall>i j. i < j \<and> j < length xs \<longrightarrow>
      (g it (xs ! i) < 0 \<longrightarrow> g it (xs ! j) < 0) \<and> (g it (xs ! j) > 0 \<longrightarrow> g it (xs ! i) > 0)"
  shows "\<exists>r. BinSearch (itemList l) (numItems l) (itemSize l) it (Some g) = Some r \<and>
    found_at (\<lambda>i. g it (xs ! nat i)) (int (length xs)) r"
proof -
  have n: "numItems l = int (length xs)" using assms(1) by (simp add: lst_ok_def)
  show ?thesis
    unfolding BinSearch_def n
  proof (rule bin_loop_found)
    fix i
    assume "0 \<le> i" "i < int (length xs)"
    then show "\<exists>x. get_block (itemList l) (i * itemSize l) (itemSize l) = Some x \<and>
        compare_items (Some g) it x (itemSize l) = Some (g it (xs ! nat i))"
      using item_block [OF assms(1), of "nat i"] by (simp add: compare_items_def nat_less_iff)
  next
    fix i j
    assume "0 \<le> i" "i < j" "j < int (length xs)"
    then show "(g it (xs ! nat i) < 0 \<longrightarrow> g it (xs ! nat j) < 0) \<and> (g it (xs ! nat j) > 0 \<longrightarrow> g it (xs ! nat i) > 0)"
      using assms(2) [rule_format, of "nat i" "nat j"] by linarith
  qed auto
qed

definition first_byte :: "bytes \<Rightarrow> bytes \<Rightarrow> int" where
  "first_byte a b = uint (a ! 0) - uint (b ! 0)"

lemma BinSearch_correct_witness:
  "\<exists>r. BinSearch (itemList sample_list) 2 2 [2, 9] (Some first_byte) = Some r \<and>
     found_at (\<lambda>i. first_byte [2, 9] ([[1, 1], [2, 2]] ! nat i)) 2 r"
proof -
  have "\<forall>i j. i < j \<and> j < length [[1, 1], [2, 2 :: u8]] \<longrightarrow>
      (first_byte [2, 9] ([[1, 1], [2, 2]] ! i) < 0 \<longrightarrow> first_byte [2, 9] ([[1, 1], [2, 2]] ! j) < 0) \<and>
      (first_byte [2, 9] ([[1, 1], [2, 2]] ! j) > 0 \<longrightarrow> first_byte [2, 9] ([[1, 1], [2, 2]] ! i) > 0)"
    by (auto simp: first_byte_def less_Suc_eq)
  then show ?thesis
    using BinSearch_correct [OF sample_list_ok, of first_byte "[2, 9]"] by (simp add: sample_list_def)
qed

text \<open>C36: \<^verbatim>\<open>ListInsertItems\<close> makes room only when the list is full: several items that do not fit into the unused
  part are stored past the end of the list's memory.\<close>

theorem ListInsertItems_overflow:
  assumes "lst_ok l xs" "numItems l < listSize l" "0 < n" "int (length d) = itemSize l * n"
    and "4 < itemSize l * (numItems l + n - listSize l)"
  shows "ListInsertItems ok l (Some d) LIST_END n = None"
proof -
  have "int (length (itemList l)) < ITEMPTR l (numItems l) + int (length d)"
    using assms(1,4,5) by (simp add: lst_ok_def ITEMPTR_def algebra_simps)
  moreover have "d \<noteq> []" using assms(1,3,4) by (auto simp: lst_ok_def)
  ultimately have "put_block (itemList l) (ITEMPTR l (numItems l)) d = None" by (simp add: put_block_def)
  then show ?thesis
    using assms(1-4) by (simp add: ListInsertItems_def Let_def new_items_def src_block_def LIST_END_def LIST_START_def lst_ok_def)
qed

lemma ListInsertItems_overflow_witness:
  "ListInsertItems True (sample_list\<lparr>numItems := 1\<rparr>) (Some (replicate 8 9)) LIST_END 4 = None"
  by (rule ListInsertItems_overflow [where xs = "[[1, 1]]"]) (simp_all add: lst_ok_def sample_list_def)

text \<open>A full list with the default policy more than doubles: it grows by 110 percent of its size and one.\<close>

theorem list_growth:
  assumes "lst_ok l xs" "listSize l = numItems l" "percentIncrease l = 10" "minNumItemsIncrease l = 4"
    and "int (length x) = itemSize l"
  shows "\<exists>l'. ListInsertItem True l (Some x) LIST_END = Some (l', 1) \<and>
    listSize l' = listSize l + 1 + max (listSize l * 110 div 100) 4"
proof -
  obtain l1 where l1: "ExpandListSpace True l (- 1) = (l1, 1)" "lst_ok l1 xs" "itemSize l1 = itemSize l"
    "numItems l1 = numItems l" "listSize l1 = listSize l + 1 + NUMITEMSPERALLOC l"
    using expand_ok [OF assms(1), of 1] by auto
  have n: "NUMITEMSPERALLOC l = max (listSize l * 110 div 100) 4"
    using assms(1,3,4) by (auto simp: NUMITEMSPERALLOC_def lst_ok_def signed_divide_int_def sgn_if)
  then have "numItems l < listSize l1" using l1(5) assms(2) by simp
  then show ?thesis
    using insert_full [OF assms(1) _ _ l1(1,4), of LIST_END] insert_with_room [OF l1(2), of x LIST_END True] assms(2,5) l1 n
    by (auto simp: LIST_END_def)
qed

lemma list_growth_witness:
  "\<exists>l'. ListInsertItem True sample_list (Some [3, 3]) LIST_END = Some (l', 1) \<and> listSize l' = 7"
  using list_growth [OF sample_list_ok, of "[3, 3]"] by (simp add: sample_list_def)

end
