(* ===== verification/FormatHex.thy ===== *)
theory FormatHex
  imports VsprintfProps
begin

text \<open>
  Formats with several conversions: zero-padded hexadecimal fields (\<^verbatim>\<open>%02X\<close>, \<^verbatim>\<open>%08lX\<close>) and \<^verbatim>\<open>%s\<close>. \<open>prints\<close> says
  what the format interpreter emits from a position of the format string on; its rules take one conversion each, so
  the output of a whole format is derived by chaining them.
\<close>

section \<open>Fixed-width hexadecimal\<close>

text \<open>\<open>hex_field n locase w\<close>: the \<open>n\<close> low hexadecimal digits of \<open>w\<close>, most significant first.\<close>

definition hex_field :: "nat \<Rightarrow> u8 \<Rightarrow> nat \<Rightarrow> bytes" where
  "hex_field n locase k = map (\<lambda>i. hexd locase (k div 16 ^ i mod 16)) (rev [0..<n])"

lemma length_hex_field [simp]: "length (hex_field n locase k) = n"
  by (simp add: hex_field_def)

lemma hex_field_0 [simp]: "hex_field 0 locase k = []"
  by (simp add: hex_field_def)

lemma hex_field_Suc: "hex_field (Suc n) locase k = hex_field n locase (k div 16) @ [hexd locase (k mod 16)]"
proof -
  have "hex_field (Suc n) locase k = rev (map (\<lambda>i. hexd locase (k div 16 ^ i mod 16)) [0..<Suc n])"
    by (simp add: hex_field_def rev_map)
  also have "map (\<lambda>i. hexd locase (k div 16 ^ i mod 16)) [0..<Suc n]
      = hexd locase (k mod 16) # map (\<lambda>i. hexd locase (k div 16 div 16 ^ i mod 16)) [0..<n]"
    by (simp add: upt_conv_Cons map_Suc_upt [symmetric] div_mult2_eq o_def del: upt_Suc)
  finally show ?thesis by (simp add: hex_field_def rev_map)
qed

lemma hexd_0: "locase \<in> {0, 32} \<Longrightarrow> hexd locase 0 = 48"
  by (auto simp: hexd_def digits_def byte_of_def)

lemma hex_field_zero: "locase \<in> {0, 32} \<Longrightarrow> hex_field n locase 0 = replicate n 48"
  by (induction n) (simp_all add: hex_field_Suc hexd_0 replicate_append_same)

lemma hex_field_pad:
  assumes "k < 16 ^ n" "0 < n" "locase \<in> {0, 32}"
  shows "replicate (n - length (dig_rev 16 (hexd locase) k)) 48 @ rev (dig_rev 16 (hexd locase) k) = hex_field n locase k
     \<and> length (dig_rev 16 (hexd locase) k) \<le> n"
  using assms(1,2)
proof (induction n arbitrary: k)
  case (Suc n)
  have rec: "dig_rev 16 (hexd locase) k = hexd locase (k mod 16) #
      (if k div 16 = 0 then [] else dig_rev 16 (hexd locase) (k div 16))" by (subst dig_rev.simps) simp
  show ?case
  proof (cases "k div 16 = 0")
    case True
    then show ?thesis using assms(3) by (simp add: rec hex_field_Suc hex_field_zero)
  next
    case False
    then have "0 < n" using Suc.prems(1) by (cases n) auto
    moreover have "k div 16 < 16 ^ n" using Suc.prems(1) by (simp add: less_mult_imp_div_less mult.commute)
    ultimately show ?thesis using Suc.IH [of "k div 16"] False by (simp add: rec hex_field_Suc)
  qed
qed simp

lemma pad_loop_blit:
  "p + nat sz \<le> length m \<Longrightarrow> p + nat sz \<le> lim \<Longrightarrow>
   pad_loop lim c sz (m, p) = Some (min sz 0 - 1, (blit m p (replicate (nat sz) c), p + nat sz))"
proof (induction "nat sz" arbitrary: sz m p)
  case 0
  then show ?case by (simp add: pad_none)
next
  case (Suc k)
  then have "nat (sz - 1) = k" "0 < sz" by auto
  moreover have "nat sz = Suc k" using Suc by simp
  ultimately show ?case
    using Suc.hyps(1) [of "sz - 1" "Suc p" "m[p := c]"] Suc.prems
    by (subst pad_loop.simps) (simp add: ADDCH_def mem_simps)
qed

lemma put_list_fits:
  "p + length cs \<le> length m \<Longrightarrow> p + length cs \<le> lim \<Longrightarrow> put_list lim cs (m, p) = Some (blit m p cs, p + length cs)"
  by (induction cs arbitrary: m p) (simp_all add: ADDCH_def mem_simps)

lemma number_zeropad:
  assumes "ty = ZEROPAD \<or> ty = ZEROPAD OR SMALL" "unat w < 16 ^ n" "0 < n"
    and room: "p + n \<le> length m" "p + n \<le> lim"
  shows "number lim w 16 (int n) (-1) ty (m, p) = Some (blit m p (hex_field n (ucast (ty AND SMALL)) (unat w)), p + n)"
proof -
  let ?lc = "ucast (ty AND SMALL) :: u8"
  let ?d = "dig_rev 16 (hexd ?lc) (unat w)"
  have lc: "?lc \<in> {0, 32}" using assms(1) by (auto simp: SMALL_def ZEROPAD_def)
  have z: "(if w = 0 then [48] else if (16 :: int) \<noteq> 10 then radix_loop 16 ?lc w else put_dec w) = ?d"
    using lc hexd_0 [OF lc] by (auto simp: radix_loop_hex dig_rev_zero)
  note pad = hex_field_pad [OF assms(2,3) lc]
  have l: "1 \<le> int (length ?d)" by (subst dig_rev.simps) simp
  have f: "ty AND SPECIAL = 0" "ty AND LEFT = 0" "ty AND SIGN = 0" "ty AND ZEROPAD \<noteq> 0"
    "ty AND (ZEROPAD + LEFT) \<noteq> 0"
    using assms(1) by (auto simp: SPECIAL_def LEFT_def SIGN_def ZEROPAD_def SMALL_def)
  have n: "nat (int n - int (length ?d)) = n - length ?d" by simp
  have pl: "pad_loop lim 48 (int n - int (length ?d)) (m, p) =
      Some (- 1, (blit m p (replicate (n - length ?d) 48), p + (n - length ?d)))"
    using pad_loop_blit [of p "int n - int (length ?d)" m lim 48] pad room by (simp add: n)
  have pu: "put_list lim (rev ?d) (blit m p (replicate (n - length ?d) 48), p + (n - length ?d)) =
      Some (blit m p (hex_field n ?lc (unat w)), p + n)"
    using put_list_fits [of "p + (n - length ?d)" "rev ?d" "blit m p (replicate (n - length ?d) 48)" lim] pad room
    by (simp flip: blit_append [of m p "replicate (n - length ?d) 48", simplified] add: conjunct1 [OF pad, symmetric])
      (simp add: blit_append)
  show ?thesis
    unfolding number_def Let_def
    using l by (simp add: f z pl pu pad_none prec_none)
qed

section \<open>Chaining conversions\<close>

text \<open>
  The format \<open>s\<close> at \<open>fmt\<close> lies behind the output, so output does not touch it. Each lemma runs one step of the
  interpreter and gives back the rest of the format in the memory after the step.
\<close>

lemma is_cstr_after:
  assumes "is_cstr m fmt (s @ rest)" "p + length bs \<le> fmt"
  shows "is_cstr (blit m p bs) (fmt + length s) rest"
  using is_cstr_drop [OF assms(1), of "length s"] assms(2) by (simp add: is_cstr_blit)

lemma vsn_end: "is_cstr m fmt [] \<Longrightarrow> vsn_loop buf lim fmt args (m, p) = Some (args, (m, p))"
  by (subst vsn_loop.simps) (simp add: mem_simps)

lemma vsn_char:
  assumes "is_cstr m fmt (c # rest)" "c \<noteq> 37" "p < fmt" "p < lim"
  shows "vsn_loop buf lim fmt args (m, p) = vsn_loop buf lim (Suc fmt) args (blit m p [c], Suc p)
    \<and> is_cstr (blit m p [c]) (Suc fmt) rest"
proof
  have "p < length m" using assms(1,3) by simp
  then show "vsn_loop buf lim fmt args (m, p) = vsn_loop buf lim (Suc fmt) args (blit m p [c], Suc p)"
    using assms by (subst vsn_loop.simps) (simp add: ADDCH_def mem_simps)
  show "is_cstr (blit m p [c]) (Suc fmt) rest"
    using is_cstr_after [of m fmt "[c]" rest p "[c]"] assms by simp
qed

lemma vsn_directive:
  "is_cstr m fmt (37 # rest) \<Longrightarrow> directive buf lim fmt args (m, p) = Some (fmt', args', st') \<Longrightarrow>
   vsn_loop buf lim fmt args (m, p) = vsn_loop buf lim fmt' args' st'"
  by (subst vsn_loop.simps) (simp add: mem_simps)

lemma convert_X:
  assumes "rd m f = Some 88" "get_num q fl as = Some (w, as')" "number lim w 16 fw pr fl (m, p) = Some st'"
  shows "convert buf lim f fl fw pr q as (m, p) = Some (Suc f, as', st')"
  using assms by (simp add: convert_def byte_of_def mem_simps)

lemma convert_s:
  assumes "rd m f = Some 115" "string_out lim (In_mem a) fw pr fl (m, p) = Some st'"
  shows "convert buf lim f fl fw pr q (APtr (Some a) # as) (m, p) = Some (Suc f, as, st')"
  using assms by (simp add: convert_def byte_of_def mem_simps)

lemma directive_hex:
  assumes f: "is_cstr m fmt (37 # 48 # d # q @ 88 # rest)" and q: "q = [] \<or> q = [108]"
    and d: "(d, n) \<in> {(50, 2), (56, 8)}" and w: "unat w < 16 ^ n" and room: "p + n \<le> fmt" "p + n \<le> lim"
  shows "directive buf lim fmt (AWord w # args) (m, p) =
    Some (fmt + 4 + length q, args, (blit m p (hex_field n 0 (unat w)), p + n))"
proof -
  have r: "rd m (Suc fmt) = Some 48" "rd m (Suc (Suc fmt)) = Some d"
    "rd m (Suc (Suc (Suc fmt))) = Some (hd (q @ [88]))" using f q by auto
  have l: "p + n \<le> length m" using is_cstr_bound [OF f] room by simp
  have "flag_loop m fmt 0 = Some (Suc (Suc fmt), ZEROPAD)"
    using d by (subst flag_loop.simps) (simp add: r, subst flag_loop.simps, auto simp: r)
  moreover have "get_width m (Suc (Suc fmt)) ZEROPAD (AWord w # args) =
      Some (Suc (Suc (Suc fmt)), ZEROPAD, int n, AWord w # args)"
  proof -
    have s: "skip_atoi m (Suc (Suc (Suc fmt))) i = Some (i, Suc (Suc (Suc fmt)))" for i
      using q by (subst skip_atoi.simps) (auto simp: r is_digit_def)
    have "skip_atoi m (Suc (Suc fmt)) 0 = Some (int n, Suc (Suc (Suc fmt)))"
      using d by (subst skip_atoi.simps) (auto simp: r is_digit_def s)
    then show ?thesis using d by (auto simp: get_width_def r is_digit_def)
  qed
  moreover have "get_precision m (Suc (Suc (Suc fmt))) (AWord w # args) =
      Some (Suc (Suc (Suc fmt)), -1, AWord w # args)"
    using q by (auto simp: get_precision_def r)
  moreover have "get_qualifier m (Suc (Suc (Suc fmt))) =
      Some (Suc (Suc (Suc fmt)) + length q, if q = [] then None else Some 108)"
    using q f by (auto simp: get_qualifier_def r byte_of_def mem_simps)
  moreover have "convert buf lim (Suc (Suc (Suc fmt)) + length q) ZEROPAD (int n) (-1)
      (if q = [] then None else Some 108) (AWord w # args) (m, p) =
      Some (fmt + 4 + length q, args, (blit m p (hex_field n 0 (unat w)), p + n))"
  proof -
    have "rd m (Suc (Suc (Suc fmt)) + length q) = Some 88" using q f by auto
    moreover have "number lim w 16 (int n) (-1) ZEROPAD (m, p) = Some (blit m p (hex_field n 0 (unat w)), p + n)"
      using number_zeropad [of ZEROPAD w n p m lim] w room l d by (auto simp: ZEROPAD_def SMALL_def)
    moreover have "get_num (if q = [] then None else Some 108) ZEROPAD (AWord w # args) = Some (w, args)"
      by (simp add: get_num_def byte_of_def)
    ultimately show ?thesis using convert_X by (simp add: eval_nat_numeral)
  qed
  ultimately show ?thesis by (simp add: directive_def)
qed

lemma vsn_hex:
  assumes f: "is_cstr m fmt (37 # 48 # d # q @ 88 # rest)" and q: "q = [] \<or> q = [108]"
    and d: "(d, n) \<in> {(50, 2), (56, 8)}" and w: "unat w < 16 ^ n" and room: "p + n \<le> fmt" "p + n \<le> lim"
  shows "vsn_loop buf lim fmt (AWord w # args) (m, p) =
      vsn_loop buf lim (fmt + 4 + length q) args (blit m p (hex_field n 0 (unat w)), p + n)
    \<and> is_cstr (blit m p (hex_field n 0 (unat w))) (fmt + 4 + length q) rest"
  using vsn_directive [OF f directive_hex [OF assms]]
    is_cstr_after [of m fmt "37 # 48 # d # q @ [88]" rest p "hex_field n 0 (unat w)"] f room
  by (simp add: eval_nat_numeral)

lemma copy_src_blit:
  assumes "is_cstr m a s" "p + length s \<le> a" "p + length s \<le> lim"
  shows "i \<le> length s \<Longrightarrow> copy_src lim (In_mem a) i (length s - i) (blit m p (take i s), p + i) =
    Some (blit m p s, p + length s)"
proof (induction "length s - i" arbitrary: i)
  case (Suc k)
  then have i: "i < length s" by simp
  have b: "a + length s < length m" by (rule is_cstr_bound [OF assms(1)])
  have "is_cstr (blit m p (take i s)) a s" using assms i by (subst is_cstr_blit) auto
  from is_cstr_nth [OF this i] have r: "rd (blit m p (take i s)) (a + i) = Some (s ! i)"
    using b i by simp
  have "length s - i = Suc (length s - Suc i)" using i by simp
  then show ?case
    using Suc.hyps(1) [of "Suc i"] Suc.hyps(2) i b r assms(2,3)
    by (simp add: ADDCH_def take_Suc_conv_app_nth blit_snoc mem_simps)
qed simp

lemma directive_s:
  assumes f: "is_cstr m fmt (37 # 115 # rest)" and s: "is_cstr m a s"
    and room: "p + length s \<le> fmt" "p + length s \<le> a" "p + length s \<le> lim" "length m < 2 ^ 32"
  shows "directive buf lim fmt (APtr (Some a) # args) (m, p) =
    Some (fmt + 2, args, (blit m p s, p + length s))"
proof -
  have r: "rd m (Suc fmt) = Some 115" using f by simp
  have l: "length s < 2 ^ 32 - 1" using is_cstr_bound [OF s] room(4) by simp
  have "flag_loop m fmt 0 = Some (Suc fmt, 0)" by (subst flag_loop.simps) (simp add: r)
  moreover have "get_width m (Suc fmt) 0 (APtr (Some a) # args) = Some (Suc fmt, 0, -1, APtr (Some a) # args)"
    by (simp add: get_width_def r is_digit_def)
  moreover have "get_precision m (Suc fmt) (APtr (Some a) # args) = Some (Suc fmt, -1, APtr (Some a) # args)"
    by (simp add: get_precision_def r)
  moreover have "get_qualifier m (Suc fmt) = Some (Suc fmt, None)"
    by (simp add: get_qualifier_def r byte_of_def)
  moreover have "string_out lim (In_mem a) (-1) (-1) 0 (m, p) = Some (blit m p s, p + length s)"
  proof -
    have u: "unat (word_of_int (-1) :: u32) = 2 ^ 32 - 1" by (simp add: unsigned_minus_1_eq_mask mask_eq_exp_minus_1)
    have w: "width_loop lim (int n) k st = Some (k - 1, st)" if "k \<le> int n" for n k st
      using that by (subst width_loop.simps) simp
    show ?thesis
      using copy_src_blit [OF s room(2,3), of 0] l
      unfolding string_out_def u by (simp add: strnlen_cstr [OF s] w min_def)
  qed
  ultimately show ?thesis using convert_s [OF r] by (simp add: directive_def)
qed

lemma vsn_s:
  assumes f: "is_cstr m fmt (37 # 115 # rest)" and s: "is_cstr m a s"
    and room: "p + length s \<le> fmt" "p + length s \<le> a" "p + length s \<le> lim" "length m < 2 ^ 32"
  shows "vsn_loop buf lim fmt (APtr (Some a) # args) (m, p) =
      vsn_loop buf lim (fmt + 2) args (blit m p s, p + length s)
    \<and> is_cstr (blit m p s) (fmt + 2) rest"
  using vsn_directive [OF f directive_s [OF assms]] is_cstr_after [of m fmt "[37, 115]" rest p s] f room by simp

end
