(* ===== verification/Flash.thy ===== *)
theory Flash
  imports FormatHex
begin

text \<open>
  Flash banks: \<^verbatim>\<open>common/flash.c\<close> and the erase and protect commands of \<^verbatim>\<open>common/cmd_flash.c\<close>. The bank table
  \<^verbatim>\<open>flash_info\<close> is a list (\<^verbatim>\<open>CFG_MAX_FLASH_BANKS\<close> is its length), a pointer into it is an index. Addresses are
  32-bit words and wrap as in the code. \<^verbatim>\<open>write_buff\<close> and \<^verbatim>\<open>flash_erase\<close> belong to the board: they are arguments
  working on the state of the chip. Sector protection is the table \<^verbatim>\<open>protect\<close> (\<^verbatim>\<open>CFG_FLASH_PROTECTION\<close> is off),
  and partition names are not recognised (\<^verbatim>\<open>CFG_CMD_JFFS2\<close> is off).
\<close>

section \<open>Arrays and counted loops\<close>

definition at :: "'a list \<Rightarrow> nat \<Rightarrow> 'a option" where
  "at xs i = (if i < length xs then Some (xs ! i) else None)"

definition put_at :: "'a list \<Rightarrow> nat \<Rightarrow> 'a \<Rightarrow> 'a list option" where
  "put_at xs i v = (if i < length xs then Some (xs[i := v]) else None)"

lemma at_in: "i < length xs \<Longrightarrow> at xs i = Some (xs ! i)"
  by (simp add: at_def)

lemma put_at_in: "i < length xs \<Longrightarrow> put_at xs i v = Some (xs[i := v])"
  by (simp add: put_at_def)

text \<open>\<open>for_each f is s\<close>: a \<^verbatim>\<open>for\<close> loop over the indices \<open>is\<close>, without a \<^verbatim>\<open>break\<close>.\<close>

fun for_each :: "('i \<Rightarrow> 's \<Rightarrow> 's option) \<Rightarrow> 'i list \<Rightarrow> 's \<Rightarrow> 's option" where
  "for_each f [] s = Some s"
| "for_each f (i # is) s = do { s' \<leftarrow> f i s; for_each f is s' }"

text \<open>\<open>some_index p is\<close>: a loop that returns at the first index with \<open>p\<close>.\<close>

fun some_index :: "('i \<Rightarrow> bool option) \<Rightarrow> 'i list \<Rightarrow> bool option" where
  "some_index p [] = Some False"
| "some_index p (i # is) = do { b \<leftarrow> p i; if b then Some True else some_index p is }"

lemma for_each_append: "for_each f (is @ js) s = do { s' \<leftarrow> for_each f is s; for_each f js s' }"
  by (induction "is" arbitrary: s) (auto split: Option.bind_splits)

lemma some_index_pure: "(\<And>i. i \<in> set is \<Longrightarrow> p i = Some (q i)) \<Longrightarrow> some_index p is = Some (\<exists>i\<in>set is. q i)"
  by (induction "is") auto

section \<open>Banks\<close>

record flash_info =
  fsize :: u32
  sector_count :: u16
  flash_id :: u32
  start :: "u32 list"
  protect :: "u8 list"

definition FLASH_UNKNOWN :: u32 where "FLASH_UNKNOWN = 0xFFFF"

definition ERR_OK :: int where "ERR_OK = 0"
definition ERR_TIMOUT :: int where "ERR_TIMOUT = 1"
definition ERR_NOT_ERASED :: int where "ERR_NOT_ERASED = 2"
definition ERR_PROTECTED :: int where "ERR_PROTECTED = 4"
definition ERR_INVAL :: int where "ERR_INVAL = 8"
definition ERR_ALIGN :: int where "ERR_ALIGN = 16"
definition ERR_UNKNOWN_FLASH_VENDOR :: int where "ERR_UNKNOWN_FLASH_VENDOR = 32"
definition ERR_UNKNOWN_FLASH_TYPE :: int where "ERR_UNKNOWN_FLASH_TYPE = 64"
definition ERR_PROG_ERROR :: int where "ERR_PROG_ERROR = 128"

definition FLAG_PROTECT_SET :: u32 where "FLAG_PROTECT_SET = 1"
definition FLAG_PROTECT_CLEAR :: u32 where "FLAG_PROTECT_CLEAR = 2"

text \<open>The last address of a bank, the index of its last sector (a \<^verbatim>\<open>short\<close>), the last address of a sector.\<close>

definition bank_end :: "flash_info \<Rightarrow> u32 option" where
  "bank_end info = do { s \<leftarrow> at (start info) 0; Some (s + fsize info - 1) }"

definition s_end :: "flash_info \<Rightarrow> int" where
  "s_end info = sint (sector_count info - 1)"

definition sect_end :: "flash_info \<Rightarrow> nat \<Rightarrow> u32 option" where
  "sect_end info i = (if int i = s_end info then bank_end info
                      else do { s \<leftarrow> at (start info) (Suc i); Some (s - 1) })"

definition sectors :: "flash_info \<Rightarrow> nat list" where
  "sectors info = [0..<unat (sector_count info)]"

section \<open>\<^verbatim>\<open>flash_protect\<close>\<close>

definition protect_sector :: "u32 \<Rightarrow> u32 \<Rightarrow> u32 \<Rightarrow> nat \<Rightarrow> flash_info \<Rightarrow> flash_info option" where
  "protect_sector flag from to i info = do {
     end \<leftarrow> sect_end info i;
     overlap \<leftarrow> (if from \<le> end then do { s \<leftarrow> at (start info) i; Some (to \<ge> s) } else Some False);
     if overlap then
       (if flag AND FLAG_PROTECT_CLEAR \<noteq> 0 then do { p \<leftarrow> put_at (protect info) i 0; Some (info\<lparr>protect := p\<rparr>) }
        else if flag AND FLAG_PROTECT_SET \<noteq> 0 then do { p \<leftarrow> put_at (protect info) i 1; Some (info\<lparr>protect := p\<rparr>) }
        else Some info)
     else Some info }"

definition flash_protect :: "u32 \<Rightarrow> u32 \<Rightarrow> u32 \<Rightarrow> flash_info \<Rightarrow> flash_info option" where
  "flash_protect flag from to info = do {
     s0 \<leftarrow> at (start info) 0;
     b_end \<leftarrow> bank_end info;
     if sector_count info = 0 \<or> fsize info = 0 \<or> to < from then Some info
     else if flash_id info = FLASH_UNKNOWN \<or> to < s0 \<or> from > b_end then Some info
     else for_each (protect_sector flag from to) (sectors info) info }"

section \<open>\<^verbatim>\<open>addr2info\<close>, \<^verbatim>\<open>flash_write\<close>\<close>

fun addr2info_loop :: "flash_info list \<Rightarrow> nat \<Rightarrow> u32 \<Rightarrow> nat option option" where
  "addr2info_loop [] i addr = Some None"
| "addr2info_loop (info # infos) i addr =
     (if flash_id info \<noteq> FLASH_UNKNOWN then do {
        s0 \<leftarrow> at (start info) 0;
        b_end \<leftarrow> bank_end info;
        if addr \<ge> s0 \<and> addr \<le> b_end then Some (Some i) else addr2info_loop infos (Suc i) addr }
      else addr2info_loop infos (Suc i) addr)"

definition addr2info :: "flash_info list \<Rightarrow> u32 \<Rightarrow> nat option option" where
  "addr2info infos addr = addr2info_loop infos 0 addr"

text \<open>The test of one sector; \<^verbatim>\<open>b_end\<close> is here the address after the bank.\<close>

definition sector_hit :: "flash_info \<Rightarrow> u32 \<Rightarrow> u32 \<Rightarrow> nat \<Rightarrow> bool option" where
  "sector_hit info addr end i = do {
     s0 \<leftarrow> at (start info) 0;
     e_addr \<leftarrow> (if int i = s_end info then Some (s0 + fsize info) else at (start info) (Suc i));
     s \<leftarrow> at (start info) i;
     if end \<ge> s \<and> addr < e_addr then do { p \<leftarrow> at (protect info) i; Some (p \<noteq> 0) } else Some False }"

definition bank_hit :: "flash_info list \<Rightarrow> u32 \<Rightarrow> u32 \<Rightarrow> nat \<Rightarrow> bool option" where
  "bank_hit infos addr end b = do {
     info \<leftarrow> at infos b;
     some_index (sector_hit info addr end) (sectors info) }"

type_synonym 'd write_buff = "nat \<Rightarrow> bytes \<Rightarrow> u32 \<Rightarrow> 'd \<Rightarrow> int \<times> 'd"

text \<open>The second loop: bank by bank, as much as fits. \<^verbatim>\<open>write_buff\<close> is given the bytes it is to store.\<close>

function write_loop :: "'d write_buff \<Rightarrow> flash_info list \<Rightarrow> nat \<Rightarrow> nat \<Rightarrow> bytes \<Rightarrow> nat \<Rightarrow> u32 \<Rightarrow> u32 \<Rightarrow> 'd
    \<Rightarrow> (int \<times> 'd) option" where
  "write_loop write_buff infos b b_last buf src addr cnt d =
     (if b \<le> b_last \<and> cnt > 0 then do {
        info \<leftarrow> at infos b;
        s0 \<leftarrow> at (start info) 0;
        let len = s0 + fsize info - addr;
        let len' = (if len > cnt then cnt else len);
        if src + unat len' \<le> length buf then
          (case write_buff b (slice buf src (unat len')) addr d of (i, d') \<Rightarrow>
             if i \<noteq> 0 then Some (i, d')
             else write_loop write_buff infos (Suc b) b_last buf (src + unat len') (addr + len') (cnt - len') d')
        else None }
      else Some (ERR_OK, d))"
  by pat_completeness auto
termination by (relation "measure (\<lambda>(wb, infos, b, l, buf, src, addr, cnt, d). Suc l - b)") auto

declare write_loop.simps [simp del]

definition flash_write :: "'d write_buff \<Rightarrow> flash_info list \<Rightarrow> bytes \<Rightarrow> u32 \<Rightarrow> u32 \<Rightarrow> 'd \<Rightarrow> (int \<times> 'd) option" where
  "flash_write write_buff infos src addr cnt d =
     (let end = addr + cnt - 1 in do {
        info_first \<leftarrow> addr2info infos addr;
        info_last \<leftarrow> addr2info infos end;
        if cnt = 0 then Some (ERR_OK, d)
        else (case (info_first, info_last) of
          (Some bf, Some bl) \<Rightarrow> do {
            hit \<leftarrow> some_index (bank_hit infos addr end) [bf..<Suc bl];
            if hit then Some (ERR_PROTECTED, d)
            else write_loop write_buff infos bf bl src 0 addr cnt d }
        | _ \<Rightarrow> Some (ERR_INVAL, d)) })"

text \<open>The text of an error code; the default branch names this file and line.\<close>

definition flash_perror :: "int \<Rightarrow> bytes" where
  "flash_perror err =
     (if err = ERR_OK then []
      else if err = ERR_TIMOUT then bytes_of ''Timeout writing to Flash'' @ [10]
      else if err = ERR_NOT_ERASED then bytes_of ''Flash not Erased'' @ [10]
      else if err = ERR_PROTECTED then bytes_of ''Can'' @ [39] @ bytes_of ''t write to protected Flash sectors'' @ [10]
      else if err = ERR_INVAL then bytes_of ''Outside available Flash'' @ [10]
      else if err = ERR_ALIGN then bytes_of ''Start and/or end address not on sector boundary'' @ [10]
      else if err = ERR_UNKNOWN_FLASH_VENDOR then bytes_of ''Unknown Vendor of Flash'' @ [10]
      else if err = ERR_UNKNOWN_FLASH_TYPE then bytes_of ''Unknown Type of Flash'' @ [10]
      else if err = ERR_PROG_ERROR then bytes_of ''General Flash Programming Error'' @ [10]
      else bytes_of ''flash.c[221] FIXME: rc='' @ shown (byte_of (CHR ''d'')) (word_of_int err) @ [10])"

end
