(* ===== verification/FlashCmd.thy ===== *)
theory FlashCmd
  imports Flash Env
begin

text \<open>
  The erase and protect commands, \<^verbatim>\<open>common/cmd_flash.c\<close>. A command works on the bank table, the chip behind
  \<^verbatim>\<open>flash_erase\<close> and the console; its arguments are strings, its result is the code it returns.
\<close>

record 'd flash_state =
  banks :: "flash_info list"
  chip :: 'd
  con :: bytes

type_synonym 'd flash_erase = "nat \<Rightarrow> int \<Rightarrow> int \<Rightarrow> 'd \<Rightarrow> int \<times> 'd"

definition puts_to :: "bytes \<Rightarrow> 'd flash_state \<Rightarrow> 'd flash_state" where
  "puts_to s st = st\<lparr>con := con st @ s\<rparr>"

definition line :: "string \<Rightarrow> bytes" where
  "line s = bytes_of s @ [10]"

section \<open>Range specifications\<close>

text \<open>
  \<open>spec_number s\<close>: \<^verbatim>\<open>simple_strtoul\<close> into an \<^verbatim>\<open>int\<close> with the test that some digits and nothing else were read
  (\<^verbatim>\<open>ep == str || *ep != '\0'\<close>).
\<close>

definition spec_number :: "bytes \<Rightarrow> u32 \<Rightarrow> u32 option option" where
  "spec_number s base = do {
     (v, e) \<leftarrow> str_toul s base;
     Some (if length e = length s \<or> e \<noteq> [] then None else Some v) }"

text \<open>
  \<^verbatim>\<open>B:SF[-SL]\<close>. The result is the code with bank and sectors; 0 is no such specification, -1 a wrong one.
\<close>

definition abbrev_spec :: "flash_info list \<Rightarrow> bytes \<Rightarrow> (int \<times> nat \<times> int \<times> int) option" where
  "abbrev_spec infos str =
     (if byte_of (CHR '':'') \<notin> set str then Some (0, 0, 0, 0)
      else
        let head = takeWhile (\<lambda>c. c \<noteq> byte_of (CHR '':'')) str;
            rest = tl (dropWhile (\<lambda>c. c \<noteq> byte_of (CHR '':'')) str)
        in do {
          nbank \<leftarrow> spec_number head 10;
          case nbank of None \<Rightarrow> Some (-1, 0, 0, 0) | Some w \<Rightarrow>
            let bank = sint w in
            if bank < 1 \<or> bank > int (length infos) then Some (-1, 0, 0, 0)
            else do {
              fp \<leftarrow> at infos (nat (bank - 1));
              if flash_id fp = FLASH_UNKNOWN then Some (-1, 0, 0, 0)
              else do {
                let s1 = takeWhile (\<lambda>c. c \<noteq> byte_of (CHR ''-'')) rest;
                nfirst \<leftarrow> spec_number s1 10;
                case nfirst of None \<Rightarrow> Some (-1, 0, 0, 0) | Some w1 \<Rightarrow>
                  let first = sint w1 in
                  if first \<ge> uint (sector_count fp) then Some (-1, 0, 0, 0)
                  else if byte_of (CHR ''-'') \<in> set rest then do {
                    nlast \<leftarrow> spec_number (tl (dropWhile (\<lambda>c. c \<noteq> byte_of (CHR ''-'')) rest)) 10;
                    case nlast of None \<Rightarrow> Some (-1, 0, 0, 0) | Some w2 \<Rightarrow>
                      let lst = sint w2 in
                      if lst < first \<or> lst \<ge> uint (sector_count fp) then Some (-1, 0, 0, 0)
                      else Some (1, nat (bank - 1), first, lst) }
                  else Some (1, nat (bank - 1), first, first) } } })"

text \<open>
  \<^verbatim>\<open>addr_spec\<close>: the search for the sector of the end address leaves both loops once it is found; the address
  is then rounded up to the end of that sector.
\<close>

fun round_sectors :: "flash_info \<Rightarrow> u32 \<Rightarrow> nat list \<Rightarrow> u32 option option" where
  "round_sectors info addr [] = Some None"
| "round_sectors info addr (i # is) = do {
     sector_end_addr \<leftarrow>
       (if int i = uint (sector_count info) - 1 then bank_end info
        else do { s \<leftarrow> at (start info) (Suc i); Some (s - 1) });
     inside \<leftarrow> (if addr \<le> sector_end_addr then do { s \<leftarrow> at (start info) i; Some (addr \<ge> s) } else Some False);
     if inside then Some (Some sector_end_addr) else round_sectors info addr is }"

fun round_end :: "flash_info list \<Rightarrow> u32 \<Rightarrow> u32 option option" where
  "round_end [] addr = Some None"
| "round_end (info # infos) addr = do {
     r \<leftarrow> round_sectors info addr (sectors info);
     case r of Some e \<Rightarrow> Some (Some e) | None \<Rightarrow> round_end infos addr }"

definition addr_spec :: "bytes \<Rightarrow> bytes \<Rightarrow> 'd flash_state \<Rightarrow> (int \<times> u32 \<times> u32 \<times> 'd flash_state) option" where
  "addr_spec arg1 arg2 st = do {
     n1 \<leftarrow> spec_number arg1 16;
     case n1 of None \<Rightarrow> Some (-1, 0, 0, st) | Some first \<Rightarrow> do {
       let len_used = (arg2 \<noteq> [] \<and> hd arg2 = byte_of (CHR ''+''));
       n2 \<leftarrow> spec_number (if len_used then tl arg2 else arg2) 16;
       case n2 of None \<Rightarrow> Some (-1, 0, 0, st) | Some lst \<Rightarrow>
         if len_used then do {
           let lst' = first + lst - 1;
           r \<leftarrow> round_end (banks st) lst';
           case r of Some e \<Rightarrow> Some (1, first, e, st)
           | None \<Rightarrow> Some (-1, first, lst',
               puts_to (bytes_of ''Error: end address (0x'' @ hex_field 8 32 (unat lst') @ line '') not in flash!'') st) }
         else Some (1, first, lst, st) } }"

section \<open>Sectors of a range\<close>

text \<open>The inner loop: the sectors of one bank that start at \<open>first\<close> and end at \<open>lst\<close>, if any.\<close>

definition scan_sector :: "flash_info \<Rightarrow> u32 \<Rightarrow> u32 \<Rightarrow> nat \<Rightarrow> int \<times> int \<Rightarrow> (int \<times> int) option" where
  "scan_sector info first lst sect r = (case r of (sf, sl) \<Rightarrow> do {
     end \<leftarrow> sect_end info sect;
     if first > end then Some (sf, sl)
     else do {
       s \<leftarrow> at (start info) sect;
       if lst < s then Some (sf, sl)
       else Some (if first = s then int sect else sf, if lst = end then int sect else sl) } })"

text \<open>
  One round of the outer loop: the message of a \<^verbatim>\<open>break\<close>, first and last sector of this bank, the first address
  of the next round, the number of sectors of this bank.
\<close>

definition fill_bank :: "flash_info \<Rightarrow> u32 \<Rightarrow> u32 \<Rightarrow> (string option \<times> int \<times> int \<times> u32 \<times> int) option" where
  "fill_bank info first lst = do {
     b_end \<leftarrow> bank_end info;
     (sf, sl) \<leftarrow> for_each (scan_sector info first lst) (sectors info) (-1, -1);
     s0 \<leftarrow> at (start info) 0;
     if sf \<ge> 0 then
       if sl < 0 \<and> \<not> lst > b_end then Some (Some ''Error: end address not on sector boundary'', sf, sl, first, 0)
       else do {
         let sl' = (if sl < 0 then s_end info else sl);
         if sl' < sf then Some (Some ''Error: end sector precedes start sector'', sf, sl', first, 0)
         else do {
           first' \<leftarrow> (if sl' = s_end info then Some (b_end + 1) else at (start info) (nat (sl' + 1)));
           Some (None, sf, sl', first', sl' - sf + 1) } }
     else if first \<ge> s0 \<and> first < b_end then
       Some (Some ''Error: start address not on sector boundary'', sf, sl, first, 0)
     else if sl \<ge> 0 then
       Some (Some ''Error: cannot span across banks when they are mapped in reverse order'', sf, sl, first, 0)
     else Some (None, sf, sl, first, 0) }"

text \<open>
  The outer loop over the banks from \<open>b\<close> on, with the tables \<^verbatim>\<open>s_first\<close> and \<^verbatim>\<open>s_last\<close> as one list of pairs.
\<close>

fun fill_banks :: "flash_info list \<Rightarrow> nat \<Rightarrow> u32 \<Rightarrow> u32 \<Rightarrow> (int \<times> int) list \<Rightarrow> int
    \<Rightarrow> (int \<times> (int \<times> int) list \<times> int \<times> bytes) option" where
  "fill_banks [] b first lst r s_count = Some (0, r, s_count, [])"
| "fill_banks (info # infos) b first lst r s_count =
     (if \<not> first \<le> lst then Some (0, r, s_count, [])
      else if flash_id info = FLASH_UNKNOWN then fill_banks infos (Suc b) first lst r s_count
      else do {
        (err, sf, sl, first', n) \<leftarrow> fill_bank info first lst;
        let r' = r[b := (sf, sl)];
        case err of Some msg \<Rightarrow> Some (1, r', s_count, line msg)
        | None \<Rightarrow> fill_banks infos (Suc b) first' lst r' (s_count + n) })"

definition flash_fill_sect_ranges :: "flash_info list \<Rightarrow> u32 \<Rightarrow> u32 \<Rightarrow> (int \<times> (int \<times> int) list \<times> int \<times> bytes) option" where
  "flash_fill_sect_ranges infos addr_first addr_last =
     fill_banks infos 0 addr_first addr_last (replicate (length infos) (-1, -1)) 0"

section \<open>Erasing and protecting a range\<close>

definition erase_bank :: "'d flash_erase \<Rightarrow> (int \<times> int) list \<Rightarrow> nat \<Rightarrow> int \<times> int \<times> 'd flash_state
    \<Rightarrow> (int \<times> int \<times> 'd flash_state) option" where
  "erase_bank flash_erase r b x = (case x of (rcode, erased, st) \<Rightarrow>
     if rcode \<noteq> 0 then Some x
     else do {
       (sf, sl) \<leftarrow> at r b;
       if sf \<ge> 0 then
         (case flash_erase b sf sl (chip st) of (rcode', d) \<Rightarrow>
            Some (rcode', erased + (sl - sf + 1), puts_to (bytes_of ''Erasing flash... '') st\<lparr>chip := d\<rparr>))
       else Some x })"

definition print_int :: "int \<Rightarrow> bytes" where
  "print_int n = shown (byte_of (CHR ''d'')) (word_of_int n)"

definition not_on_boundary :: bytes where
  "not_on_boundary = line ''Error: start and/or end address not on sector boundary''"

definition flash_sect_erase :: "'d flash_erase \<Rightarrow> u32 \<Rightarrow> u32 \<Rightarrow> 'd flash_state \<Rightarrow> (int \<times> 'd flash_state) option" where
  "flash_sect_erase flash_erase addr_first addr_last st = do {
     (rcode, r, planned, out) \<leftarrow> flash_fill_sect_ranges (banks st) addr_first addr_last;
     let st1 = puts_to out st;
     if planned \<noteq> 0 \<and> rcode = 0 then do {
       (rcode', erased, st2) \<leftarrow> for_each (erase_bank flash_erase r) [0..<length (banks st)] (rcode, 0, st1);
       Some (rcode', puts_to (bytes_of ''Erased '' @ print_int erased @ line '' sectors'') st2) }
     else if rcode = 0 then Some (1, puts_to not_on_boundary st1)
     else Some (rcode, st1) }"

text \<open>Setting the protection of the sectors \<open>sf..sl\<close> of one bank.\<close>

definition set_protect :: "u8 \<Rightarrow> nat \<Rightarrow> int \<Rightarrow> flash_info list \<Rightarrow> flash_info list option" where
  "set_protect p b i infos = do {
     info \<leftarrow> at infos b;
     if i < 0 then None
     else do { ps \<leftarrow> put_at (protect info) (nat i) p; Some (infos[b := info\<lparr>protect := ps\<rparr>]) } }"

definition protect_range :: "u8 \<Rightarrow> nat \<Rightarrow> int \<Rightarrow> int \<Rightarrow> 'd flash_state \<Rightarrow> 'd flash_state option" where
  "protect_range p b sf sl st = do {
     infos \<leftarrow> for_each (set_protect p b) [sf..sl] (banks st);
     Some (st\<lparr>banks := infos\<rparr>) }"

definition protect_bank :: "u8 \<Rightarrow> (int \<times> int) list \<Rightarrow> nat \<Rightarrow> int \<times> 'd flash_state \<Rightarrow> (int \<times> 'd flash_state) option" where
  "protect_bank p r b x = (case x of (protected, st) \<Rightarrow> do {
     info \<leftarrow> at (banks st) b;
     if flash_id info = FLASH_UNKNOWN then Some x
     else do {
       (sf, sl) \<leftarrow> at r b;
       if sf \<ge> 0 \<and> sf \<le> sl then do { st' \<leftarrow> protect_range p b sf sl st; Some (protected + (sl - sf + 1), st') }
       else Some x } })"

definition un :: "u8 \<Rightarrow> bytes" where
  "un p = (if p \<noteq> 0 then [] else bytes_of ''Un-'')"

definition flash_sect_protect :: "u8 \<Rightarrow> u32 \<Rightarrow> u32 \<Rightarrow> 'd flash_state \<Rightarrow> (int \<times> 'd flash_state) option" where
  "flash_sect_protect p addr_first addr_last st = do {
     (rcode, r, planned, out) \<leftarrow> flash_fill_sect_ranges (banks st) addr_first addr_last;
     let st1 = puts_to out st;
     if planned \<noteq> 0 \<and> rcode = 0 then do {
       (protected, st2) \<leftarrow> for_each (protect_bank p r) [0..<length (banks st)] (0, st1);
       Some (rcode, puts_to (un p @ bytes_of ''Protected '' @ print_int protected @ line '' sectors'') st2) }
     else if rcode = 0 then Some (1, puts_to not_on_boundary st1)
     else Some (rcode, st1) }"

section \<open>The commands\<close>

text \<open>\<open>usage\<close> is the usage line of the command table entry.\<close>

definition usage_error :: "bytes \<Rightarrow> 'd flash_state \<Rightarrow> (int \<times> 'd flash_state) option" where
  "usage_error usage st = Some (1, puts_to (bytes_of ''Usage:'' @ [10] @ usage @ [10]) st)"

definition bank_range_error :: "'d flash_state \<Rightarrow> (int \<times> 'd flash_state) option" where
  "bank_range_error st = Some (1, puts_to (bytes_of ''Only FLASH Banks # 1 ... # '' @
     print_int (int (length (banks st))) @ line '' supported'') st)"

definition erase_sectors :: "'d flash_erase \<Rightarrow> nat \<Rightarrow> int \<Rightarrow> int \<Rightarrow> 'd flash_state \<Rightarrow> (int \<times> 'd flash_state) option" where
  "erase_sectors flash_erase b sf sl st =
     (case flash_erase b sf sl (chip st) of (rcode, d) \<Rightarrow> Some (rcode, st\<lparr>chip := d\<rparr>))"

definition erase_whole_bank :: "'d flash_erase \<Rightarrow> nat \<Rightarrow> int \<times> 'd flash_state \<Rightarrow> (int \<times> 'd flash_state) option" where
  "erase_whole_bank flash_erase b x = (case x of (rcode, st) \<Rightarrow> do {
     info \<leftarrow> at (banks st) b;
     erase_sectors flash_erase b 0 (uint (sector_count info) - 1) st })"

text \<open>The argument of \<^verbatim>\<open>bank N\<close>: an unsigned number, at least 1 and at most the number of banks.\<close>

definition bank_arg :: "bytes \<Rightarrow> 'd flash_state \<Rightarrow> nat option option" where
  "bank_arg s st = do {
     (bank, e) \<leftarrow> str_toul s 16;
     Some (if bank < 1 \<or> unat bank > length (banks st) then None else Some (unat bank - 1)) }"

definition do_flerase :: "'d flash_erase \<Rightarrow> bytes \<Rightarrow> bytes list \<Rightarrow> 'd flash_state \<Rightarrow> (int \<times> 'd flash_state) option" where
  "do_flerase flash_erase usage argv st =
     (if length argv < 2 then usage_error usage st
      else if argv ! 1 = bytes_of ''all'' then
        for_each (erase_whole_bank flash_erase) [0..<length (banks st)] (0, st)
      else do {
        (n, b, sf, sl) \<leftarrow> abbrev_spec (banks st) (argv ! 1);
        if n \<noteq> 0 then
          (if n < 0 then Some (1, puts_to (line ''Bad sector specification'') st)
           else erase_sectors flash_erase b sf sl st)
        else if length argv \<noteq> 3 then usage_error usage st
        else if argv ! 1 = bytes_of ''bank'' then do {
          r \<leftarrow> bank_arg (argv ! 2) st;
          case r of None \<Rightarrow> bank_range_error st | Some b \<Rightarrow> erase_whole_bank flash_erase b (0, st) }
        else do {
          (rc, addr_first, addr_last, st1) \<leftarrow> addr_spec (argv ! 1) (argv ! 2) st;
          if rc < 0 then Some (1, puts_to (line ''Bad address format'') st1)
          else if addr_first \<ge> addr_last then usage_error usage st1
          else flash_sect_erase flash_erase addr_first addr_last st1 } })"

text \<open>Protection of all sectors of bank \<open>b\<close>; an unknown bank is passed over by \<^verbatim>\<open>all\<close> and refused by \<^verbatim>\<open>bank N\<close>.\<close>

definition bank_title :: "u8 \<Rightarrow> nat \<Rightarrow> bytes" where
  "bank_title p b = un p @ bytes_of ''Protect Flash Bank # '' @ print_int (int b + 1) @ [10]"

definition protect_whole_bank :: "u8 \<Rightarrow> nat \<Rightarrow> 'd flash_state \<Rightarrow> 'd flash_state option" where
  "protect_whole_bank p b st = do {
     info \<leftarrow> at (banks st) b;
     protect_range p b 0 (uint (sector_count info) - 1) st }"

definition protect_known_bank :: "u8 \<Rightarrow> nat \<Rightarrow> 'd flash_state \<Rightarrow> 'd flash_state option" where
  "protect_known_bank p b st = do {
     info \<leftarrow> at (banks st) b;
     if flash_id info = FLASH_UNKNOWN then Some st
     else protect_whole_bank p b (puts_to (bank_title p b) st) }"

definition do_protect :: "bytes \<Rightarrow> bytes list \<Rightarrow> 'd flash_state \<Rightarrow> (int \<times> 'd flash_state) option" where
  "do_protect usage argv st =
     (if length argv < 3 then usage_error usage st
      else if argv ! 1 \<noteq> bytes_of ''off'' \<and> argv ! 1 \<noteq> bytes_of ''on'' then usage_error usage st
      else
        let p = (if argv ! 1 = bytes_of ''off'' then 0 else 1 :: u8)
        in if argv ! 2 = bytes_of ''all'' then do {
          st' \<leftarrow> for_each (protect_known_bank p) [0..<length (banks st)] st;
          Some (0, st') }
        else do {
          (n, b, sf, sl) \<leftarrow> abbrev_spec (banks st) (argv ! 2);
          if n \<noteq> 0 then
            (if n < 0 then Some (1, puts_to (line ''Bad sector specification'') st)
             else do {
               st' \<leftarrow> protect_range p b sf sl (puts_to (un p @ bytes_of ''Protect Flash Sectors '' @ print_int sf @
                 bytes_of ''-'' @ print_int sl @ bytes_of '' in Bank # '' @ print_int (int b + 1) @ [10]) st);
               Some (0, st') })
          else if length argv \<noteq> 4 then usage_error usage st
          else if argv ! 2 = bytes_of ''bank'' then do {
            r \<leftarrow> bank_arg (argv ! 3) st;
            case r of None \<Rightarrow> bank_range_error st
            | Some b \<Rightarrow> do {
                info \<leftarrow> at (banks st) b;
                let st1 = puts_to (bank_title p b) st;
                if flash_id info = FLASH_UNKNOWN then
                  Some (1, puts_to (line ''missing or unknown FLASH type'') st1)
                else do { st2 \<leftarrow> protect_whole_bank p b st1; Some (0, st2) } } }
          else do {
            (rc, addr_first, addr_last, st1) \<leftarrow> addr_spec (argv ! 2) (argv ! 3) st;
            if rc < 0 then Some (1, puts_to (line ''Bad address format'') st1)
            else if addr_first \<ge> addr_last then usage_error usage st1
            else flash_sect_protect p addr_first addr_last st1 } })"

end
