(* ===== verification/FlashProps.thy ===== *)
theory FlashProps
  imports FlashCmd
begin

text \<open>
  Properties of the flash layer. A bank is laid out soundly (\<open>bank_ok\<close>) when its sectors follow each other up to
  the end of the bank; \<open>flash_map\<close> is a table of such banks in ascending order without gaps, none of which
  reaches the top of the address space. What happens when one does, or when there is a gap, is shown at the end.
\<close>

section \<open>Layout of a bank\<close>

definition nsect :: "flash_info \<Rightarrow> nat" where
  "nsect info = unat (sector_count info)"

definition sect_last :: "flash_info \<Rightarrow> nat \<Rightarrow> u32" where
  "sect_last info i = (if Suc i = nsect info then start info ! 0 + fsize info - 1 else start info ! Suc i - 1)"

definition bank_ok :: "flash_info \<Rightarrow> bool" where
  "bank_ok info \<longleftrightarrow> 0 < nsect info \<and> nsect info \<le> 2 ^ 15 \<and> nsect info \<le> length (start info) \<and> nsect info \<le> length (protect info)
     \<and> (\<forall>i. Suc i < nsect info \<longrightarrow> start info ! i < start info ! Suc i)
     \<and> fsize info \<noteq> 0 \<and> unat (start info ! 0) + unat (fsize info) \<le> 2 ^ 32
     \<and> start info ! (nsect info - 1) \<le> start info ! 0 + fsize info - 1"

definition in_sector :: "flash_info \<Rightarrow> nat \<Rightarrow> u32 \<Rightarrow> bool" where
  "in_sector info i a \<longleftrightarrow> start info ! i \<le> a \<and> a \<le> sect_last info i"

definition in_bank :: "flash_info \<Rightarrow> u32 \<Rightarrow> bool" where
  "in_bank info a \<longleftrightarrow> start info ! 0 \<le> a \<and> a \<le> start info ! 0 + fsize info - 1"

lemma bank_okD:
  assumes "bank_ok info"
  shows "0 < nsect info" "nsect info \<le> length (start info)" "nsect info \<le> length (protect info)" "start info \<noteq> []"
    "fsize info \<noteq> 0" "sector_count info \<noteq> 0"
  using assms by (auto simp: bank_ok_def nsect_def)

lemma unat_last:
  "w \<noteq> (0 :: u32) \<Longrightarrow> unat a + unat w \<le> 2 ^ 32 \<Longrightarrow> unat (a + w - 1) = unat a + unat w - 1"
proof -
  assume w: "w \<noteq> 0" and le: "unat a + unat w \<le> 2 ^ 32"
  have "unat (w - 1) = unat w - 1" using w by (simp add: unat_minus_one)
  moreover have "0 < unat w" using w by (simp add: unat_gt_0)
  ultimately have "unat (a + (w - 1)) = unat a + (unat w - 1)" using le by (subst unat_add_lem [THEN iffD1]) auto
  then show ?thesis using \<open>0 < unat w\<close> by (simp add: add_diff_eq)
qed

lemma unat_bank_end: "bank_ok info \<Longrightarrow> unat (start info ! 0 + fsize info - 1) = unat (start info ! 0) + unat (fsize info) - 1"
  by (rule unat_last) (auto simp: bank_ok_def)

lemma s_end_ok: "bank_ok info \<Longrightarrow> s_end info = int (nsect info) - 1"
proof -
  assume b: "bank_ok info"
  have "unat (sector_count info - 1) = nsect info - 1"
    using bank_okD(6) [OF b] by (simp add: unat_minus_one nsect_def)
  then have w: "sector_count info - 1 = of_nat (nsect info - 1)" by (metis of_nat_unat ucast_id)
  have s: "sint (of_nat k :: u16) = int k" if "k < 2 ^ 15" for k
    using that by (simp add: signed_of_nat signed_take_bit_int_eq_self)
  have "nsect info - 1 < 2 ^ 15" using b bank_okD(1) [OF b] by (auto simp: bank_ok_def)
  then have "sint (sector_count info - 1) = int (nsect info - 1)" unfolding w by (rule s)
  then show ?thesis using bank_okD(1) [OF b] by (simp add: s_end_def of_nat_diff)
qed

lemma bank_end_ok: "bank_ok info \<Longrightarrow> bank_end info = Some (start info ! 0 + fsize info - 1)"
  using bank_okD(4) [of info] by (simp add: bank_end_def at_def)

lemma sect_end_ok: "bank_ok info \<Longrightarrow> i < nsect info \<Longrightarrow> sect_end info i = Some (sect_last info i)"
  using bank_okD(2) [of info] by (auto simp: sect_end_def s_end_ok bank_end_ok sect_last_def at_in)

lemma sect_next:
  assumes "bank_ok info" "Suc i < nsect info"
  shows "unat (start info ! Suc i) = Suc (unat (sect_last info i))"
proof -
  have "start info ! i < start info ! Suc i" using assms by (simp add: bank_ok_def)
  then have "start info ! Suc i \<noteq> 0" by auto
  then have "unat (start info ! Suc i - 1) = unat (start info ! Suc i) - 1" "0 < unat (start info ! Suc i)"
    by (simp_all add: unat_minus_one unat_gt_0)
  then show ?thesis using assms by (simp add: sect_last_def)
qed

lemma start_le_last: "bank_ok info \<Longrightarrow> i < nsect info \<Longrightarrow> start info ! i \<le> sect_last info i"
proof (cases "Suc i = nsect info")
  case True
  assume "bank_ok info"
  moreover have "i = nsect info - 1" using True by simp
  ultimately show ?thesis using True by (simp add: sect_last_def bank_ok_def)
next
  case False
  assume b: "bank_ok info" "i < nsect info"
  then have "start info ! i < start info ! Suc i" using False by (simp add: bank_ok_def)
  then show ?thesis using sect_next [OF b(1), of i] b False by (simp add: word_le_nat_alt word_less_nat_alt)
qed

lemma start_mono: "bank_ok info \<Longrightarrow> i \<le> j \<Longrightarrow> j < nsect info \<Longrightarrow> start info ! i \<le> start info ! j"
proof (induction j)
  case (Suc j)
  show ?case
  proof (cases "i = Suc j")
    case False
    then have "start info ! i \<le> start info ! j" using Suc by simp
    also have "start info ! j < start info ! Suc j" using Suc.prems by (simp add: bank_ok_def)
    finally show ?thesis by simp
  qed simp
qed simp

lemma last_mono:
  assumes "bank_ok info" "i \<le> j" "j < nsect info"
  shows "sect_last info i \<le> sect_last info j"
proof (cases "i = j")
  case False
  then have i: "Suc i < nsect info" "Suc i \<le> j" using assms by auto
  have "unat (sect_last info i) < unat (start info ! Suc i)" using sect_next [OF assms(1) i(1)] by simp
  also have "start info ! Suc i \<le> start info ! j" by (rule start_mono [OF assms(1) i(2) assms(3)])
  then have "unat (start info ! Suc i) \<le> unat (start info ! j)" by (simp add: word_le_nat_alt)
  also have "\<dots> \<le> unat (sect_last info j)" using start_le_last [OF assms(1,3)] by (simp add: word_le_nat_alt)
  finally show ?thesis by (simp add: word_le_nat_alt)
qed simp

lemma last_of_bank: "bank_ok info \<Longrightarrow> sect_last info (nsect info - 1) = start info ! 0 + fsize info - 1"
  using bank_okD(1) [of info] by (simp add: sect_last_def)

lemma sector_in_bank: "bank_ok info \<Longrightarrow> i < nsect info \<Longrightarrow> in_sector info i a \<Longrightarrow> in_bank info a"
  using start_mono [of info 0 i] last_mono [of info i "nsect info - 1"] last_of_bank [of info]
  by (auto simp: in_sector_def in_bank_def elim: order_trans)

lemma sector_exists:
  assumes "bank_ok info" "in_bank info a"
  shows "\<exists>i<nsect info. in_sector info i a"
proof -
  have ex: "j < nsect info \<Longrightarrow> a \<le> sect_last info j \<Longrightarrow> \<exists>i\<le>j. in_sector info i a" for j
  proof (induction j)
    case 0
    then show ?case using assms(2) by (auto simp: in_sector_def in_bank_def)
  next
    case (Suc j)
    show ?case
    proof (cases "a \<le> sect_last info j")
      case True
      then show ?thesis using Suc by (metis Suc_lessD le_SucI)
    next
      case False
      then have "start info ! Suc j \<le> a"
        using sect_next [OF assms(1) Suc.prems(1)] by (simp add: word_le_nat_alt word_less_nat_alt)
      then show ?thesis using Suc.prems by (auto simp: in_sector_def)
    qed
  qed
  from ex [of "nsect info - 1"] show ?thesis
    using assms bank_okD(1) [OF assms(1)] last_of_bank [OF assms(1)] by (auto simp: in_bank_def) (metis Suc_pred less_Suc_eq_le)
qed

section \<open>\<^verbatim>\<open>flash_protect\<close>\<close>

definition overlaps :: "flash_info \<Rightarrow> u32 \<Rightarrow> u32 \<Rightarrow> nat \<Rightarrow> bool" where
  "overlaps info from to i \<longleftrightarrow> (\<exists>a. from \<le> a \<and> a \<le> to \<and> in_sector info i a)"

lemma overlaps_iff:
  "bank_ok info \<Longrightarrow> i < nsect info \<Longrightarrow> from \<le> to \<Longrightarrow>
   overlaps info from to i \<longleftrightarrow> from \<le> sect_last info i \<and> start info ! i \<le> to"
  using start_le_last [of info i] unfolding overlaps_def in_sector_def
  by (cases "from \<le> start info ! i") (auto intro: order_trans)

lemma overlaps_in_bank: "bank_ok info \<Longrightarrow> i < nsect info \<Longrightarrow> overlaps info from to i \<Longrightarrow>
    \<exists>a. from \<le> a \<and> a \<le> to \<and> in_bank info a"
  unfolding overlaps_def using sector_in_bank by blast

definition flag_value :: "u32 \<Rightarrow> u8" where
  "flag_value flag = (if flag AND FLAG_PROTECT_CLEAR \<noteq> 0 then 0 else 1)"

lemma protect_sector_ok:
  assumes "bank_ok info" "length ps = length (protect info)" "i < nsect info" "from \<le> to"
    "flag \<in> {FLAG_PROTECT_SET, FLAG_PROTECT_CLEAR}"
  shows "protect_sector flag from to i (info\<lparr>protect := ps\<rparr>) =
    Some (info\<lparr>protect := if overlaps info from to i then ps[i := flag_value flag] else ps\<rparr>)"
proof -
  have e: "sect_end (info\<lparr>protect := ps\<rparr>) i = Some (sect_last info i)"
    using sect_end_ok [OF assms(1,3)] by (simp add: sect_end_def s_end_def bank_end_def cong: if_cong)
  show ?thesis
    using assms bank_okD(2,3) [OF assms(1)]
    by (auto simp: protect_sector_def e at_in put_at_in overlaps_iff flag_value_def FLAG_PROTECT_SET_def FLAG_PROTECT_CLEAR_def)
qed

lemma protect_loop_ok:
  assumes "bank_ok info" "from \<le> to" "flag \<in> {FLAG_PROTECT_SET, FLAG_PROTECT_CLEAR}"
  shows "n \<le> nsect info \<Longrightarrow> for_each (protect_sector flag from to) [0..<n] info =
    Some (info\<lparr>protect := map (\<lambda>i. if i < n \<and> overlaps info from to i then flag_value flag else protect info ! i)
      [0..<length (protect info)]\<rparr>)"
proof (induction n)
  case 0
  then show ?case by (simp add: map_nth)
next
  case (Suc n)
  let ?f = "\<lambda>n i. if i < n \<and> overlaps info from to i then flag_value flag else protect info ! i"
  have u: "(if overlaps info from to n then (map (?f n) [0..<length (protect info)])[n := flag_value flag]
      else map (?f n) [0..<length (protect info)]) = map (?f (Suc n)) [0..<length (protect info)]"
    using Suc.prems bank_okD(3) [OF assms(1)]
    by (intro nth_equalityI) (auto simp: nth_list_update less_Suc_eq split: if_splits)
  show ?case
    using protect_sector_ok [OF assms(1) _ _ assms(2,3), of "map (?f n) [0..<length (protect info)]" n] Suc
    by (simp add: for_each_append u)
qed

text \<open>The protection \<^verbatim>\<open>flash_protect\<close> leaves behind: the flag on the sectors that meet the range, the old one elsewhere.\<close>

definition protect_spec :: "flash_info \<Rightarrow> u32 \<Rightarrow> u32 \<Rightarrow> u32 \<Rightarrow> u8 list" where
  "protect_spec info flag from to =
     map (\<lambda>i. if i < nsect info \<and> overlaps info from to i then flag_value flag else protect info ! i)
       [0..<length (protect info)]"

lemma protect_spec_none: "(\<And>i. i < nsect info \<Longrightarrow> \<not> overlaps info from to i) \<Longrightarrow> protect_spec info flag from to = protect info"
  unfolding protect_spec_def by (intro nth_equalityI) auto

section \<open>\<^verbatim>\<open>addr2info\<close>\<close>

definition flash_map :: "flash_info list \<Rightarrow> bool" where
  "flash_map infos \<longleftrightarrow> (\<forall>b<length infos. bank_ok (infos ! b) \<and> flash_id (infos ! b) \<noteq> FLASH_UNKNOWN
       \<and> unat (start (infos ! b) ! 0) + unat (fsize (infos ! b)) < 2 ^ 32
       \<and> (Suc b < length infos \<longrightarrow> start (infos ! Suc b) ! 0 = start (infos ! b) ! 0 + fsize (infos ! b)))"

abbreviation lo :: "flash_info list \<Rightarrow> nat \<Rightarrow> nat" where
  "lo infos b \<equiv> unat (start (infos ! b) ! 0)"

abbreviation hi :: "flash_info list \<Rightarrow> nat \<Rightarrow> nat" where
  "hi infos b \<equiv> unat (start (infos ! b) ! 0) + unat (fsize (infos ! b))"

lemma flash_mapD:
  assumes "flash_map infos" "b < length infos"
  shows "bank_ok (infos ! b)" "flash_id (infos ! b) \<noteq> FLASH_UNKNOWN" "hi infos b < 2 ^ 32" "lo infos b < hi infos b"
  using assms bank_okD(5) [of "infos ! b"] by (auto simp: flash_map_def unat_gt_0)

lemma unat_hi: "flash_map infos \<Longrightarrow> b < length infos \<Longrightarrow>
    unat (start (infos ! b) ! 0 + fsize (infos ! b)) = hi infos b"
  using flash_mapD(3) [of infos b] by (subst unat_add_lem [THEN iffD1]) auto

lemma lo_Suc: "flash_map infos \<Longrightarrow> Suc b < length infos \<Longrightarrow> lo infos (Suc b) = hi infos b"
  using unat_hi [of infos b] by (simp add: flash_map_def)

lemma in_bank_iff: "flash_map infos \<Longrightarrow> b < length infos \<Longrightarrow> in_bank (infos ! b) a \<longleftrightarrow> lo infos b \<le> unat a \<and> unat a < hi infos b"
  using unat_bank_end [of "infos ! b"] flash_mapD [of infos b] by (auto simp: in_bank_def word_le_nat_alt)

lemma hi_le_lo: "flash_map infos \<Longrightarrow> b < c \<Longrightarrow> c < length infos \<Longrightarrow> hi infos b \<le> lo infos c"
proof (induction c)
  case (Suc c)
  show ?case
  proof (cases "b = c")
    case True
    then show ?thesis using Suc.prems lo_Suc [of infos c] by simp
  next
    case False
    then have "hi infos b \<le> lo infos c" using Suc by simp
    also have "lo infos c < hi infos c" using Suc.prems flash_mapD(4) [of infos c] by simp
    finally show ?thesis using Suc.prems lo_Suc [of infos c] by simp
  qed
qed simp

lemma bank_unique:
  "flash_map infos \<Longrightarrow> b < length infos \<Longrightarrow> c < length infos \<Longrightarrow> in_bank (infos ! b) a \<Longrightarrow> in_bank (infos ! c) a \<Longrightarrow> b = c"
  using hi_le_lo [of infos b c] hi_le_lo [of infos c b] by (cases b c rule: linorder_cases) (auto simp: in_bank_iff)

lemma addr2info_loop_ok:
  assumes "flash_map infos"
  shows "i \<le> length infos \<Longrightarrow>
    addr2info_loop (drop i infos) i a = Some (find (\<lambda>b. in_bank (infos ! b) a) [i..<length infos])"
proof (induction "length infos - i" arbitrary: i)
  case (Suc k)
  then have i: "i < length infos" by simp
  note m = flash_mapD [OF assms i]
  have "start (infos ! i) \<noteq> []" by (rule bank_okD(4) [OF m(1)])
  then show ?case
    using Suc.hyps(1) [of "Suc i"] Suc.hyps(2) i m(2)
    by (simp add: Cons_nth_drop_Suc [symmetric] upt_conv_Cons at_def bank_end_ok [OF m(1)] in_bank_def)
qed simp

lemma addr2info_in:
  assumes "flash_map infos" "b < length infos" "in_bank (infos ! b) a"
  shows "addr2info infos a = Some (Some b)"
proof (cases "find (\<lambda>b. in_bank (infos ! b) a) [0..<length infos]")
  case None
  then show ?thesis using assms by (auto simp: find_None_iff)
next
  case (Some c)
  then have "c < length infos" "in_bank (infos ! c) a" by (auto simp: find_Some_iff)
  then have "c = b" using bank_unique [OF assms(1)] assms by blast
  then show ?thesis using Some addr2info_loop_ok [OF assms(1), of 0 a] by (simp add: addr2info_def)
qed

lemma addr2info_out:
  assumes "flash_map infos" "\<And>b. b < length infos \<Longrightarrow> \<not> in_bank (infos ! b) a"
  shows "addr2info infos a = Some None"
  using assms addr2info_loop_ok [OF assms(1), of 0 a]
  by (auto simp: addr2info_def find_None_iff)

section \<open>\<^verbatim>\<open>flash_write\<close>\<close>

text \<open>
  The contents of the address space is a function. \<open>stored d a bs\<close> is \<open>d\<close> with \<open>bs\<close> at \<open>a\<close>. The board's
  \<^verbatim>\<open>write_buff\<close> is relied on for requests inside one bank only: it stores the bytes when it reports no
  error, and it never changes anything else.
\<close>

type_synonym space = "u32 \<Rightarrow> u8"

definition stored :: "space \<Rightarrow> u32 \<Rightarrow> bytes \<Rightarrow> space" where
  "stored d a bs = (\<lambda>x. if unat (x - a) < length bs then bs ! unat (x - a) else d x)"

definition written :: "space \<Rightarrow> u32 \<Rightarrow> bytes \<Rightarrow> int \<times> space \<Rightarrow> bool" where
  "written d a bs r \<longleftrightarrow> (fst r = 0 \<longrightarrow> snd r = stored d a bs) \<and> (\<forall>x. length bs \<le> unat (x - a) \<longrightarrow> snd r x = d x)"

definition sound_write :: "flash_info list \<Rightarrow> space write_buff \<Rightarrow> bool" where
  "sound_write infos write_buff \<longleftrightarrow> (\<forall>b<length infos. \<forall>bs a d.
     lo infos b \<le> unat a \<longrightarrow> unat a + length bs \<le> hi infos b \<longrightarrow> written d a bs (write_buff b bs a d))"

lemma stored_append:
  assumes "length xs + length ys \<le> 2 ^ 32"
  shows "stored (stored d a xs) (a + of_nat (length xs)) ys = stored d a (xs @ ys)"
proof (cases "length xs < 2 ^ 32")
  case True
  then have n: "unat (of_nat (length xs) :: u32) = length xs" by (rule unat_small)
  have *: "unat (x - (a + of_nat (length xs))) =
      (if length xs \<le> unat (x - a) then unat (x - a) - length xs else unat (x - a) + 2 ^ 32 - length xs)" for x
  proof -
    have "x - (a + of_nat (length xs)) = (x - a) - of_nat (length xs)" by simp
    then show ?thesis by (simp only: unat_sub_if_size n) (simp add: word_size)
  qed
  show ?thesis using assms by (rule_tac ext) (auto simp: stored_def * nth_append)
next
  case False
  then have "length ys = 0" using assms by linarith
  then have "ys = []" by simp
  then show ?thesis by (simp add: stored_def)
qed

lemma written_append:
  assumes "written d a xs (0, d1)" "written d1 (a + of_nat (length xs)) ys r" "length xs + length ys \<le> 2 ^ 32" "length xs < 2 ^ 32"
  shows "written d a (xs @ ys) r"
proof -
  have d1: "d1 = stored d a xs" using assms(1) by (simp add: written_def)
  have "snd r x = d x" if x: "length (xs @ ys) \<le> unat (x - a)" for x
  proof -
    have n: "unat (of_nat (length xs) :: u32) = length xs" using assms(4) by (rule unat_small)
    have "x - (a + of_nat (length xs)) = (x - a) - of_nat (length xs)" by simp
    then have "unat (x - (a + of_nat (length xs))) = unat (x - a) - length xs"
      using x by (simp only: unat_sub_if_size n) simp
    then have "snd r x = d1 x" using assms(2) x by (simp add: written_def)
    then show ?thesis using x by (simp add: d1 stored_def)
  qed
  then show ?thesis using assms(2,3) by (auto simp: written_def d1 stored_append)
qed

lemma slice_append: "slice m p (a + b) = slice m p a @ slice m (p + a) b"
  by (simp add: slice_def take_add add.commute)

lemma write_loop_step:
  assumes "b < length infos" "start (infos ! b) \<noteq> []" "b \<le> bl" "0 < cnt"
    "len = min (start (infos ! b) ! 0 + fsize (infos ! b) - addr) cnt" "src + unat len \<le> length buf"
    "write_buff b (slice buf src (unat len)) addr d = (i, d')"
  shows "write_loop write_buff infos b bl buf src addr cnt d =
    (if i \<noteq> 0 then Some (i, d')
     else write_loop write_buff infos (Suc b) bl buf (src + unat len) (addr + len) (cnt - len) d')"
proof -
  have l: "len = (if start (infos ! b) ! 0 + fsize (infos ! b) - addr > cnt then cnt
      else start (infos ! b) ! 0 + fsize (infos ! b) - addr)" using assms(5) by (auto simp: min_def)
  show ?thesis
    unfolding write_loop.simps [of write_buff infos b]
    using assms(1-4,6,7) by (simp add: at_def l [symmetric] Let_def)
qed

lemma write_loop_done: "write_loop write_buff infos b bl buf src addr 0 d = Some (0, d)"
  by (subst write_loop.simps) (simp add: ERR_OK_def)

lemma sound_writeD:
  assumes "sound_write infos write_buff" "b < length infos" "lo infos b \<le> unat a" "unat a + n \<le> hi infos b"
    "src + n \<le> length buf"
  shows "written d a (slice buf src n) (write_buff b (slice buf src n) a d)"
  using assms unfolding sound_write_def by (simp add: min_def)

lemma write_loop_ok:
  assumes map: "flash_map infos" and wb: "sound_write infos write_buff" and bl: "bl < length infos"
  shows "b \<le> bl \<Longrightarrow> 0 < cnt \<Longrightarrow> lo infos b \<le> unat addr \<Longrightarrow> unat addr < hi infos b \<Longrightarrow>
    lo infos bl < unat addr + unat cnt \<Longrightarrow> unat addr + unat cnt \<le> hi infos bl \<Longrightarrow> src + unat cnt \<le> length buf \<Longrightarrow>
    \<exists>r. write_loop write_buff infos b bl buf src addr cnt d = Some r \<and> written d addr (slice buf src (unat cnt)) r"
proof (induction "bl - b" arbitrary: b src addr cnt d)
  case 0
  then have b: "b = bl" by simp
  have B: "b < length infos" using b bl by simp
  have len: "unat (start (infos ! b) ! 0 + fsize (infos ! b) - addr) = hi infos b - unat addr"
    using 0(5) unat_hi [OF map B] by (simp add: unat_sub_if_size)
  have "\<not> start (infos ! b) ! 0 + fsize (infos ! b) - addr < cnt"
    using 0(7) b len by (simp add: word_less_nat_alt)
  then have le: "cnt = min (start (infos ! b) ! 0 + fsize (infos ! b) - addr) cnt" by (simp add: min_def not_less)
  obtain i d' where r: "write_buff b (slice buf src (unat cnt)) addr d = (i, d')" by fastforce
  have "written d addr (slice buf src (unat cnt)) (write_buff b (slice buf src (unat cnt)) addr d)"
    by (rule sound_writeD [OF wb B]) (use 0 b in auto)
  moreover have "write_loop write_buff infos b bl buf src addr cnt d = Some (i, d')"
    using write_loop_step [of b infos bl cnt cnt addr src buf write_buff d i d'] le r 0 B
      bank_okD(4) [OF flash_mapD(1) [OF map B]] by (simp add: write_loop_done)
  ultimately show ?case using r by auto
next
  case (Suc k)
  have B: "b < length infos" "b < bl" "Suc b < length infos" using Suc.hyps(2) bl by auto
  let ?len = "start (infos ! b) ! 0 + fsize (infos ! b) - addr"
  have len: "unat ?len = hi infos b - unat addr"
    using Suc.prems(4) unat_hi [OF map B(1)] by (simp add: unat_sub_if_size)
  have "hi infos b \<le> lo infos bl" using hi_le_lo [OF map B(2) bl] .
  then have less: "unat ?len < unat cnt" using Suc.prems len by simp
  then have nle: "\<not> ?len > cnt" by (simp add: word_less_nat_alt)
  have cnt': "unat (cnt - ?len) = unat cnt - unat ?len" using less by (simp add: unat_sub_if_size)
  have next_addr: "addr + ?len = start (infos ! Suc b) ! 0" using map B by (simp add: flash_map_def)
  have lo: "lo infos (Suc b) = hi infos b" by (rule lo_Suc [OF map B(3)])
  have fit: "src + unat ?len \<le> length buf" using less Suc.prems(7) by simp
  obtain i d' where r: "write_buff b (slice buf src (unat ?len)) addr d = (i, d')" by fastforce
  have "written d addr (slice buf src (unat ?len)) (write_buff b (slice buf src (unat ?len)) addr d)"
    by (rule sound_writeD [OF wb B(1)]) (use Suc.prems fit len in auto)
  then have w: "written d addr (slice buf src (unat ?len)) (i, d')" unfolding r .
  have "?len = min ?len cnt" using nle by (simp add: min_def not_less)
  note step = write_loop_step [of b infos bl cnt ?len addr src buf write_buff d i d', OF B(1) bank_okD(4) [OF flash_mapD(1) [OF map B(1)]] Suc.prems(1,2) this fit r]
  have split: "slice buf src (unat cnt) = slice buf src (unat ?len) @ slice buf (src + unat ?len) (unat (cnt - ?len))"
    using slice_append [of buf src "unat ?len" "unat cnt - unat ?len"] less cnt' by simp
  show ?case
  proof (cases "i = 0")
    case True
    have "\<exists>r. write_loop write_buff infos (Suc b) bl buf (src + unat ?len) (addr + ?len) (cnt - ?len) d' = Some r \<and>
        written d' (addr + ?len) (slice buf (src + unat ?len) (unat (cnt - ?len))) r"
    proof (rule Suc.hyps(1))
      show "0 < cnt - ?len" using less cnt' by (simp add: word_less_nat_alt)
    qed (use Suc.hyps(2) Suc.prems B less cnt' len next_addr lo flash_mapD(4) [OF map B(3)] in auto)
    then obtain r' where r': "write_loop write_buff infos (Suc b) bl buf (src + unat ?len) (addr + ?len) (cnt - ?len) d' = Some r'"
      "written d' (addr + ?len) (slice buf (src + unat ?len) (unat (cnt - ?len))) r'" by blast
    have l: "length (slice buf src (unat ?len)) = unat ?len" using fit by simp
    have "written d addr (slice buf src (unat cnt)) r'"
      unfolding split
    proof (rule written_append)
      show "written d addr (slice buf src (unat ?len)) (0, d')" using w True by simp
      show "written d' (addr + of_nat (length (slice buf src (unat ?len)))) (slice buf (src + unat ?len) (unat (cnt - ?len))) r'"
        using r'(2) by (simp only: l of_nat_unat ucast_id)
      show "length (slice buf src (unat ?len)) < 2 ^ 32" unfolding l using unsigned_less [of ?len, where 'a = nat] by simp
      show "length (slice buf src (unat ?len)) + length (slice buf (src + unat ?len) (unat (cnt - ?len))) \<le> 2 ^ 32"
        using less cnt' unsigned_less [of cnt, where 'a = nat] by simp
    qed
    then show ?thesis using step r'(1) True by auto
  next
    case False
    then show ?thesis using step w less unfolding written_def by (auto simp: min_def split: if_splits)
  qed
qed

text \<open>\<open>touches_protected\<close>: a protected sector meets the range \<open>n\<close> bytes from \<open>a\<close>.\<close>

definition in_flash :: "flash_info list \<Rightarrow> u32 \<Rightarrow> bool" where
  "in_flash infos a \<longleftrightarrow> (\<exists>b<length infos. in_bank (infos ! b) a)"

definition protected_at :: "flash_info list \<Rightarrow> u32 \<Rightarrow> bool" where
  "protected_at infos a \<longleftrightarrow> (\<exists>b<length infos. \<exists>i<nsect (infos ! b). in_sector (infos ! b) i a \<and> protect (infos ! b) ! i \<noteq> 0)"

lemma sector_hit_ok:
  assumes map: "flash_map infos" and B: "b < length infos" and i: "i < nsect (infos ! b)" and le: "addr \<le> end"
  shows "sector_hit (infos ! b) addr end i = Some (overlaps (infos ! b) addr end i \<and> protect (infos ! b) ! i \<noteq> 0)"
proof -
  let ?x = "infos ! b"
  note ok = flash_mapD(1) [OF map B]
  have s0: "0 < length (start ?x)" using bank_okD(4) [OF ok] by simp
  have e: "(if int i = s_end ?x then Some (start ?x ! 0 + fsize ?x) else at (start ?x) (Suc i)) = Some (sect_last ?x i + 1)"
    using i bank_okD(2) [OF ok] by (auto simp: s_end_ok [OF ok] sect_last_def at_in)
  have no_wrap: "addr < sect_last ?x i + 1 \<longleftrightarrow> addr \<le> sect_last ?x i"
  proof -
    have "sect_last ?x i \<le> start ?x ! 0 + fsize ?x - 1"
      using last_mono [OF ok, of i "nsect ?x - 1"] last_of_bank [OF ok] i by simp
    then have "unat (sect_last ?x i) < 2 ^ 32 - 1"
      using unat_bank_end [OF ok] flash_mapD(3,4) [OF map B] by (simp add: word_le_nat_alt)
    then have "unat (sect_last ?x i + 1) = unat (sect_last ?x i) + 1" by (subst unat_add_lem [THEN iffD1]) auto
    then show ?thesis by (simp add: word_less_nat_alt word_le_nat_alt less_Suc_eq_le)
  qed
  show ?thesis
    using i bank_okD(2,3) [OF ok] s0
    by (auto simp: sector_hit_def at_in e overlaps_iff [OF ok i le] no_wrap)
qed

lemma bank_hit_ok:
  assumes "flash_map infos" "b < length infos" "addr \<le> end"
  shows "bank_hit infos addr end b =
    Some (\<exists>i<nsect (infos ! b). overlaps (infos ! b) addr end i \<and> protect (infos ! b) ! i \<noteq> 0)"
  using some_index_pure [of "sectors (infos ! b)" "sector_hit (infos ! b) addr end"
      "\<lambda>i. overlaps (infos ! b) addr end i \<and> protect (infos ! b) ! i \<noteq> 0"] sector_hit_ok [OF assms(1,2) _ assms(3)] assms(2)
  by (auto simp: bank_hit_def at_in sectors_def nsect_def)

lemma hits_ok:
  assumes map: "flash_map infos" and b: "bf < length infos" "bl < length infos"
    and f: "in_bank (infos ! bf) addr" and l: "in_bank (infos ! bl) end" and le: "addr \<le> end"
  shows "some_index (bank_hit infos addr end) [bf..<Suc bl] = Some (\<exists>a. addr \<le> a \<and> a \<le> end \<and> protected_at infos a)"
proof -
  have "some_index (bank_hit infos addr end) [bf..<Suc bl] =
    Some (\<exists>b\<in>set [bf..<Suc bl]. \<exists>i<nsect (infos ! b). overlaps (infos ! b) addr end i \<and> protect (infos ! b) ! i \<noteq> 0)"
    by (rule some_index_pure) (use bank_hit_ok [OF map _ le] b in auto)
  also have "(\<exists>b\<in>set [bf..<Suc bl]. \<exists>i<nsect (infos ! b). overlaps (infos ! b) addr end i \<and> protect (infos ! b) ! i \<noteq> 0) \<longleftrightarrow>
      (\<exists>a. addr \<le> a \<and> a \<le> end \<and> protected_at infos a)" (is "?L \<longleftrightarrow> ?R")
  proof
    assume ?L
    then obtain c i a where c: "c \<in> set [bf..<Suc bl]" "i < nsect (infos ! c)" "protect (infos ! c) ! i \<noteq> 0"
      and a: "addr \<le> a" "a \<le> end" "in_sector (infos ! c) i a" unfolding overlaps_def by blast
    have "c < length infos" using c b by auto
    then show ?R using c a unfolding protected_at_def by blast
  next
    assume ?R
    then obtain a c i where a: "addr \<le> a" "a \<le> end" and c: "c < length infos" "i < nsect (infos ! c)"
      "in_sector (infos ! c) i a" "protect (infos ! c) ! i \<noteq> 0" unfolding protected_at_def by blast
    have C: "in_bank (infos ! c) a" using sector_in_bank [OF flash_mapD(1) [OF map c(1)] c(2,3)] .
    have "bf \<le> c" using hi_le_lo [OF map _ b(1), of c] C f a c b by (auto simp: in_bank_iff [OF map] word_le_nat_alt not_le [symmetric])
    moreover have "c \<le> bl" using hi_le_lo [OF map _ c(1), of bl] C l a c b by (auto simp: in_bank_iff [OF map] word_le_nat_alt not_le [symmetric])
    ultimately show ?L using a c unfolding overlaps_def by (intro bexI [of _ c]) auto
  qed
  finally show ?thesis .
qed

text \<open>Copying to flash: nothing is written unless the whole range is unprotected flash.\<close>

lemma flash_write_cases:
  assumes map: "flash_map infos" and wb: "sound_write infos write_buff"
    and cnt: "0 < cnt" "unat addr + unat cnt \<le> 2 ^ 32" "unat cnt \<le> length src"
  shows "flash_write write_buff infos src addr cnt d =
      (if \<not> in_flash infos addr \<or> \<not> in_flash infos (addr + cnt - 1) then Some (ERR_INVAL, d)
       else if \<exists>a. addr \<le> a \<and> a \<le> addr + cnt - 1 \<and> protected_at infos a then Some (ERR_PROTECTED, d)
       else flash_write write_buff infos src addr cnt d)
    \<and> (\<exists>r. flash_write write_buff infos src addr cnt d = Some r \<and> (in_flash infos addr \<longrightarrow> in_flash infos (addr + cnt - 1) \<longrightarrow>
         \<not> (\<exists>a. addr \<le> a \<and> a \<le> addr + cnt - 1 \<and> protected_at infos a) \<longrightarrow> written d addr (take (unat cnt) src) r))"
proof -
  let ?z = "addr + cnt - 1"
  have z: "unat ?z = unat addr + unat cnt - 1" using cnt by (intro unat_last) (auto simp: word_gt_0)
  have pos: "0 < unat cnt" using cnt by (simp add: word_less_nat_alt)
  have le: "addr \<le> ?z" using z pos by (simp add: word_le_nat_alt)
  have c0: "cnt \<noteq> 0" using cnt(1) by auto
  consider "\<not> in_flash infos addr" | "in_flash infos addr" "\<not> in_flash infos ?z" | "in_flash infos addr" "in_flash infos ?z" by blast
  then show ?thesis
  proof cases
    case 1
    then have "addr2info infos addr = Some None" by (intro addr2info_out [OF map]) (auto simp: in_flash_def)
    moreover obtain x where "addr2info infos ?z = Some x" using addr2info_in [OF map] addr2info_out [OF map] by blast
    ultimately have "flash_write write_buff infos src addr cnt d = Some (ERR_INVAL, d)"
      using c0 by (simp add: flash_write_def Let_def)
    then show ?thesis using 1 by simp
  next
    case 2
    then have "addr2info infos ?z = Some None" by (intro addr2info_out [OF map]) (auto simp: in_flash_def)
    moreover obtain b where "addr2info infos addr = Some (Some b)"
      using 2(1) addr2info_in [OF map] unfolding in_flash_def by blast
    ultimately have "flash_write write_buff infos src addr cnt d = Some (ERR_INVAL, d)"
      using c0 by (simp add: flash_write_def Let_def)
    then show ?thesis using 2 by simp
  next
    case 3
    then obtain bf bl where b: "bf < length infos" "in_bank (infos ! bf) addr" "bl < length infos" "in_bank (infos ! bl) ?z"
      unfolding in_flash_def by blast
    note hit = hits_ok [OF map b(1,3,2,4) le]
    have F: "flash_write write_buff infos src addr cnt d =
      (if \<exists>a. addr \<le> a \<and> a \<le> ?z \<and> protected_at infos a then Some (ERR_PROTECTED, d)
       else write_loop write_buff infos bf bl src 0 addr cnt d)"
      using c0 by (simp add: flash_write_def Let_def addr2info_in [OF map b(1,2)] addr2info_in [OF map b(3,4)] hit del: upt_Suc)
    have "bf \<le> bl" using hi_le_lo [OF map _ b(1), of bl] b le
      by (auto simp: in_bank_iff [OF map] word_le_nat_alt not_le [symmetric])
    then have "\<exists>r. write_loop write_buff infos bf bl src 0 addr cnt d = Some r \<and> written d addr (slice src 0 (unat cnt)) r"
      using b z pos cnt by (intro write_loop_ok [OF map wb b(3)]) (auto simp: in_bank_iff [OF map])
    then show ?thesis using 3 F by (auto simp: slice_def)
  qed
qed

section \<open>Erasing a range\<close>

text \<open>Here banks may lie anywhere, in any order, with gaps, but none may reach the top of the address space.\<close>

definition sound_banks :: "flash_info list \<Rightarrow> bool" where
  "sound_banks infos \<longleftrightarrow> (\<forall>b<length infos. flash_id (infos ! b) = FLASH_UNKNOWN \<or>
     (bank_ok (infos ! b) \<and> unat (start (infos ! b) ! 0) + unat (fsize (infos ! b)) < 2 ^ 32))"

lemma scan_ok:
  assumes "bank_ok info"
  shows "n \<le> nsect info \<Longrightarrow> \<exists>sf sl. for_each (scan_sector info f l) [0..<n] (-1, -1) = Some (sf, sl) \<and>
    (sf = -1 \<or> 0 \<le> sf \<and> nat sf < n \<and> start info ! nat sf = f) \<and>
    (sl = -1 \<or> 0 \<le> sl \<and> nat sl < n \<and> sect_last info (nat sl) = l)"
proof (induction n)
  case (Suc n)
  then have n: "n < nsect info" "n < length (start info)" using bank_okD(2) [OF assms] by auto
  from Suc obtain sf sl where *: "for_each (scan_sector info f l) [0..<n] (-1, -1) = Some (sf, sl)"
    "sf = -1 \<or> 0 \<le> sf \<and> nat sf < n \<and> start info ! nat sf = f" "sl = -1 \<or> 0 \<le> sl \<and> nat sl < n \<and> sect_last info (nat sl) = l"
    by auto
  have "scan_sector info f l n (sf, sl) = Some (if f > sect_last info n \<or> l < start info ! n then (sf, sl)
      else (if f = start info ! n then int n else sf, if l = sect_last info n then int n else sl))"
    using n by (simp add: scan_sector_def sect_end_ok [OF assms n(1)] at_in)
  then show ?case using * by (auto simp: for_each_append)
qed simp

text \<open>What one round plans lies between \<open>f\<close> and \<open>l\<close>, and the next round starts behind it.\<close>

lemma fill_bank_ok:
  assumes ok: "bank_ok info" and top: "unat (start info ! 0) + unat (fsize info) < 2 ^ 32" and le: "f \<le> l"
  shows "\<exists>err sf sl f' n. fill_bank info f l = Some (err, sf, sl, f', n) \<and> sl < int (nsect info) \<and>
    (err = None \<longrightarrow> f \<le> f' \<and> (0 \<le> sf \<longrightarrow> sf \<le> sl \<and> start info ! nat sf = f \<and> sect_last info (nat sl) \<le> l))"
proof -
  obtain sf sl where s: "for_each (scan_sector info f l) [0..<nsect info] (-1, -1) = Some (sf, sl)"
    "sf = -1 \<or> 0 \<le> sf \<and> nat sf < nsect info \<and> start info ! nat sf = f"
    "sl = -1 \<or> 0 \<le> sl \<and> nat sl < nsect info \<and> sect_last info (nat sl) = l" using scan_ok [OF ok order_refl] by blast
  have pos: "0 < nsect info" "0 < length (start info)" using bank_okD(1,4) [OF ok] by auto
  define sl' where "sl' = (if sl < 0 then s_end info else sl)"
  have sl': "0 \<le> sl'" "nat sl' < nsect info" using s(3) pos by (auto simp: sl'_def s_end_ok [OF ok])
  have B: "fill_bank info f l =
      (if sf \<ge> 0 then
         if sl < 0 \<and> \<not> l > start info ! 0 + fsize info - 1
         then Some (Some ''Error: end address not on sector boundary'', sf, sl, f, 0)
         else if sl' < sf then Some (Some ''Error: end sector precedes start sector'', sf, sl', f, 0)
         else do {
           f' \<leftarrow> (if sl' = s_end info then Some (start info ! 0 + fsize info - 1 + 1) else at (start info) (nat (sl' + 1)));
           Some (None, sf, sl', f', sl' - sf + 1) }
       else if f \<ge> start info ! 0 \<and> f < start info ! 0 + fsize info - 1 then
         Some (Some ''Error: start address not on sector boundary'', sf, sl, f, 0)
       else if sl \<ge> 0 then
         Some (Some ''Error: cannot span across banks when they are mapped in reverse order'', sf, sl, f, 0)
       else Some (None, sf, sl, f, 0))"
    using pos by (simp add: fill_bank_def bank_end_ok [OF ok] sectors_def nsect_def [symmetric] s(1) at_in sl'_def Let_def)
  have nxt: "(if sl' = s_end info then Some (start info ! 0 + fsize info - 1 + 1) else at (start info) (nat (sl' + 1)))
      = Some (sect_last info (nat sl') + 1)"
    using sl' bank_okD(2) [OF ok]
    by (auto simp: s_end_ok [OF ok] sect_last_def at_in nat_add_distrib)
  have bound: "sect_last info (nat sl') < sect_last info (nat sl') + 1"
  proof -
    have "sect_last info (nat sl') \<le> start info ! 0 + fsize info - 1"
      using last_mono [OF ok, of "nat sl'" "nsect info - 1"] last_of_bank [OF ok] sl' by simp
    then have "unat (sect_last info (nat sl')) + 1 < 2 ^ 32"
      using unat_bank_end [OF ok] top bank_okD(5) [OF ok] by (simp add: word_le_nat_alt)
    then have "unat (sect_last info (nat sl') + 1) = unat (sect_last info (nat sl')) + 1"
      by (subst unat_add_lem [THEN iffD1]) auto
    then show ?thesis by (simp add: word_less_nat_alt)
  qed
  have chain: "f \<le> sect_last info (nat sl')" if "0 \<le> sf" "\<not> sl' < sf"
  proof -
    have "start info ! nat sf \<le> sect_last info (nat sf)" using s(2) that by (intro start_le_last [OF ok]) auto
    also have "\<dots> \<le> sect_last info (nat sl')" using that sl' by (intro last_mono [OF ok]) auto
    finally show ?thesis using s(2) that by auto
  qed
  have le_l: "sect_last info (nat sl') \<le> l" if "\<not> (sl < 0 \<and> \<not> l > start info ! 0 + fsize info - 1)"
  proof (cases "sl < 0")
    case True
    then have "nat sl' = nsect info - 1" using s_end_ok [OF ok] by (simp add: sl'_def nat_diff_distrib)
    then show ?thesis using last_of_bank [OF ok] that True by auto
  next
    case False
    then show ?thesis using s(3) by (auto simp: sl'_def)
  qed
  have lt: "sl' < int (nsect info)" "sl < int (nsect info)" using sl' s(3) by auto
  show ?thesis
    using s(2) lt chain le_l bound unfolding B nxt by (auto simp: less_imp_le intro: order_trans)
qed

definition planned :: "flash_info \<Rightarrow> int \<times> int \<Rightarrow> u32 \<Rightarrow> bool" where
  "planned info r a \<longleftrightarrow> (case r of (sf, sl) \<Rightarrow> 0 \<le> sf \<and> (\<exists>i. sf \<le> int i \<and> int i \<le> sl \<and> in_sector info i a))"

lemma planned_bounds:
  assumes ok: "bank_ok info" and r: "sl < int (nsect info)" "start info ! nat sf = f" "sect_last info (nat sl) \<le> l"
    and p: "planned info (sf, sl) a"
  shows "f \<le> a \<and> a \<le> l"
proof -
  from p obtain i where i: "0 \<le> sf" "sf \<le> int i" "int i \<le> sl" "start info ! i \<le> a" "a \<le> sect_last info i"
    by (auto simp: planned_def in_sector_def)
  have "start info ! nat sf \<le> start info ! i" using i r by (intro start_mono [OF ok]) auto
  moreover have "sect_last info i \<le> sect_last info (nat sl)" using i r by (intro last_mono [OF ok]) auto
  ultimately show ?thesis using i r by (auto intro: order_trans)
qed

text \<open>\<open>plan_ok\<close>: the pair of bank \<open>b\<close> plans nothing, or sectors that exist and lie in the range.\<close>

definition plan_ok :: "flash_info \<Rightarrow> u32 \<Rightarrow> u32 \<Rightarrow> int \<times> int \<Rightarrow> bool" where
  "plan_ok info f l r \<longleftrightarrow> fst r < 0 \<or>
     (fst r \<le> snd r \<and> snd r < int (nsect info) \<and> (\<forall>a. planned info r a \<longrightarrow> f \<le> a \<and> a \<le> l))"

lemma plan_ok_mono: "f \<le> f' \<Longrightarrow> plan_ok info f' l r \<Longrightarrow> plan_ok info f l r"
  unfolding plan_ok_def by (meson order_trans)

lemma fill_banks_ok:
  assumes sb: "sound_banks infos"
  shows "b \<le> length infos \<Longrightarrow> length r = length infos \<Longrightarrow>
    \<exists>rc r' n out. fill_banks (drop b infos) b f l r cnt = Some (rc, r', n, out) \<and> length r' = length infos \<and>
      (rc = 0 \<longrightarrow> (\<forall>c<length infos. if b \<le> c then r' ! c = r ! c \<or> plan_ok (infos ! c) f l (r' ! c) else r' ! c = r ! c))"
proof (induction "length infos - b" arbitrary: b f r cnt)
  case 0
  then show ?case by simp
next
  case (Suc k)
  then have b: "b < length infos" by simp
  have d: "drop b infos = infos ! b # drop (Suc b) infos" using b by (rule Cons_nth_drop_Suc [symmetric])
  have k: "k = length infos - Suc b" "Suc b \<le> length infos" using Suc.hyps(2) b by auto
  consider "\<not> f \<le> l" | "f \<le> l" "flash_id (infos ! b) = FLASH_UNKNOWN" | "f \<le> l" "flash_id (infos ! b) \<noteq> FLASH_UNKNOWN" by blast
  then show ?case
  proof cases
    case 1
    then show ?thesis using Suc.prems by (simp add: d)
  next
    case 2
    from Suc.hyps(1) [OF k Suc.prems(2), of f cnt] obtain rc r' n out where
      h: "fill_banks (drop (Suc b) infos) (Suc b) f l r cnt = Some (rc, r', n, out)" "length r' = length infos"
      "rc = 0 \<longrightarrow> (\<forall>c<length infos. if Suc b \<le> c then r' ! c = r ! c \<or> plan_ok (infos ! c) f l (r' ! c) else r' ! c = r ! c)"
      by blast
    then show ?thesis using 2 by (auto simp: d split: if_splits)
  next
    case 3
    then have ok: "bank_ok (infos ! b)" "unat (start (infos ! b) ! 0) + unat (fsize (infos ! b)) < 2 ^ 32"
      using sb b by (auto simp: sound_banks_def)
    obtain err sf sl f' n where F: "fill_bank (infos ! b) f l = Some (err, sf, sl, f', n)" "sl < int (nsect (infos ! b))"
      "err = None \<Longrightarrow> f \<le> f'"
      "err = None \<Longrightarrow> 0 \<le> sf \<Longrightarrow> sf \<le> sl \<and> start (infos ! b) ! nat sf = f \<and> sect_last (infos ! b) (nat sl) \<le> l"
      using fill_bank_ok [OF ok 3(1)] by blast
    show ?thesis
    proof (cases err)
      case (Some msg)
      then show ?thesis using 3 F Suc.prems by (simp add: d)
    next
      case None
      have P: "plan_ok (infos ! b) f l (sf, sl)"
        using F None planned_bounds [OF ok(1) F(2), of sf f l] by (auto simp: plan_ok_def)
      have len: "length (r[b := (sf, sl)]) = length infos" using Suc.prems by simp
      from Suc.hyps(1) [OF k len, of f' "cnt + n"] obtain rc r' n' out where
        h: "fill_banks (drop (Suc b) infos) (Suc b) f' l (r[b := (sf, sl)]) (cnt + n) = Some (rc, r', n', out)" "length r' = length infos"
        "rc = 0 \<longrightarrow> (\<forall>c<length infos. if Suc b \<le> c then r' ! c = r[b := (sf, sl)] ! c \<or> plan_ok (infos ! c) f' l (r' ! c)
            else r' ! c = r[b := (sf, sl)] ! c)" by blast
      have "if b \<le> c then r' ! c = r ! c \<or> plan_ok (infos ! c) f l (r' ! c) else r' ! c = r ! c"
        if c: "c < length infos" and rc: "rc = 0" for c
      proof -
        note hc = h(3) [rule_format, OF rc c]
        consider "c < b" | "c = b" | "b < c" by linarith
        then show ?thesis
        proof cases
          case 1
          then show ?thesis using hc by simp
        next
          case 2
          then show ?thesis using hc P b Suc.prems by simp
        next
          case 3
          then show ?thesis using hc plan_ok_mono [OF F(3) [OF None], of "infos ! c" l "r' ! c"] by auto
        qed
      qed
      then show ?thesis using 3 F h None by (auto simp: d)
    qed
  qed
qed

text \<open>
  The board's \<^verbatim>\<open>flash_erase\<close> is relied on not to change anything outside the sectors it is given.
\<close>

definition sound_erase :: "flash_info list \<Rightarrow> space flash_erase \<Rightarrow> bool" where
  "sound_erase infos flash_erase \<longleftrightarrow> (\<forall>b<length infos. \<forall>sf sl d x.
     \<not> planned (infos ! b) (sf, sl) x \<longrightarrow> snd (flash_erase b sf sl d) x = d x)"

lemma erase_bank_ok:
  assumes "sound_erase (banks st) flash_erase" "b < length r" "b < length (banks st)" "plan_ok (banks st ! b) f l (r ! b)"
  shows "\<exists>rc' n' st'. erase_bank flash_erase r b (rc, n, st) = Some (rc', n', st') \<and> banks st' = banks st \<and>
    (\<forall>x. \<not> (f \<le> x \<and> x \<le> l) \<longrightarrow> chip st' x = chip st x)"
proof (cases "rc \<noteq> 0 \<or> fst (r ! b) < 0")
  case True
  then show ?thesis using assms(2) by (auto simp: erase_bank_def at_in split: prod.splits)
next
  case False
  obtain sf sl where r: "r ! b = (sf, sl)" by fastforce
  obtain rc' d where e: "flash_erase b sf sl (chip st) = (rc', d)" by fastforce
  have "d x = chip st x" if "\<not> (f \<le> x \<and> x \<le> l)" for x
  proof -
    have "\<not> planned (banks st ! b) (sf, sl) x" using assms(4) False r that by (auto simp: plan_ok_def)
    then have "snd (flash_erase b sf sl (chip st)) x = chip st x" using assms(1,3) by (auto simp: sound_erase_def)
    then show ?thesis by (simp add: e)
  qed
  then show ?thesis using assms(2) False by (simp add: erase_bank_def at_in r e puts_to_def)
qed

lemma erase_loop_ok:
  assumes se: "sound_erase (banks st) flash_erase" and len: "length r = length (banks st)"
    and plan: "\<And>b. b < length (banks st) \<Longrightarrow> plan_ok (banks st ! b) f l (r ! b)"
  shows "k \<le> length (banks st) \<Longrightarrow> \<exists>rc' n' st'. for_each (erase_bank flash_erase r) [0..<k] (rc, n, st) = Some (rc', n', st') \<and>
    banks st' = banks st \<and> (\<forall>x. \<not> (f \<le> x \<and> x \<le> l) \<longrightarrow> chip st' x = chip st x)"
proof (induction k)
  case (Suc k)
  then obtain rc1 n1 st1 where h: "for_each (erase_bank flash_erase r) [0..<k] (rc, n, st) = Some (rc1, n1, st1)"
    "banks st1 = banks st" "\<forall>x. \<not> (f \<le> x \<and> x \<le> l) \<longrightarrow> chip st1 x = chip st x" by auto
  have k: "k < length (banks st)" using Suc.prems by simp
  from erase_bank_ok [of st1 flash_erase k r f l rc1 n1] obtain rc2 n2 st2 where
    "erase_bank flash_erase r k (rc1, n1, st1) = Some (rc2, n2, st2)" "banks st2 = banks st"
    "\<forall>x. \<not> (f \<le> x \<and> x \<le> l) \<longrightarrow> chip st2 x = chip st1 x"
    using se len k plan [OF k] h(2) by auto
  then show ?case using h by (auto simp: for_each_append)
qed simp

lemma flash_sect_erase_frame:
  assumes "sound_banks (banks st)" "sound_erase (banks st) flash_erase"
  shows "\<exists>rc st'. flash_sect_erase flash_erase f l st = Some (rc, st') \<and> banks st' = banks st \<and>
    (\<forall>x. \<not> (f \<le> x \<and> x \<le> l) \<longrightarrow> chip st' x = chip st x)"
proof -
  have len: "length (replicate (length (banks st)) (-1, -1 :: int)) = length (banks st)" by simp
  have z: "0 \<le> length (banks st)" by simp
  from fill_banks_ok [OF assms(1) z len, of f l 0] obtain rc r n out where
    F: "flash_fill_sect_ranges (banks st) f l = Some (rc, r, n, out)" "length r = length (banks st)"
    and P: "\<And>b. rc = 0 \<Longrightarrow> b < length (banks st) \<Longrightarrow>
      r ! b = replicate (length (banks st)) (-1, -1) ! b \<or> plan_ok (banks st ! b) f l (r ! b)"
    by (auto simp: flash_fill_sect_ranges_def)
  show ?thesis
  proof (cases "n \<noteq> 0 \<and> rc = 0")
    case True
    have "plan_ok (banks st ! b) f l (r ! b)" if "b < length (banks st)" for b
      using P [of b] True that by (auto simp: plan_ok_def)
    then have "\<exists>rc' n' st'. for_each (erase_bank flash_erase r) [0..<length (banks st)] (rc, 0, puts_to out st) = Some (rc', n', st') \<and>
        banks st' = banks (puts_to out st) \<and> (\<forall>x. \<not> (f \<le> x \<and> x \<le> l) \<longrightarrow> chip st' x = chip (puts_to out st) x)"
      using assms(2) F(2) by (intro erase_loop_ok) (auto simp: puts_to_def)
    then show ?thesis using True F(1) by (auto simp: flash_sect_erase_def puts_to_def Let_def)
  next
    case False
    then show ?thesis using F(1) by (auto simp: flash_sect_erase_def puts_to_def Let_def)
  qed
qed

section \<open>Theorems\<close>

text \<open>A bank of two sectors of 64 KiB where this board maps its flash; the first sector is protected.\<close>

definition board_bank :: flash_info where
  "board_bank = \<lparr>fsize = 0x20000, sector_count = 2, flash_id = 0x1, start = [0x9f000000, 0x9f010000], protect = [1, 0]\<rparr>"

lemma board_bank_ok: "bank_ok board_bank" "nsect board_bank = 2"
  by (simp_all add: bank_ok_def nsect_def board_bank_def less_Suc_eq)

lemma board_map: "flash_map [board_bank]" "sound_banks [board_bank]"
  using board_bank_ok by (simp_all add: flash_map_def sound_banks_def) (simp_all add: board_bank_def FLASH_UNKNOWN_def)

text \<open>C37: \<^verbatim>\<open>flash_protect\<close> sets the flag of exactly the sectors that share an address with the range, and changes
  nothing else; an empty range, an unknown chip and a range outside the bank change nothing.\<close>
theorem flash_protect_exact:
  assumes "bank_ok info" "flag \<in> {FLAG_PROTECT_SET, FLAG_PROTECT_CLEAR}"
  shows "flash_protect flag from to info =
    Some (if flash_id info = FLASH_UNKNOWN then info else info\<lparr>protect := protect_spec info flag from to\<rparr>)"
proof -
  note ok = assms(1)
  have s0: "at (start info) 0 = Some (start info ! 0)" using bank_okD(4) [OF ok] by (simp add: at_def)
  have none: "protect_spec info flag from to = protect info"
    if "to < from \<or> to < start info ! 0 \<or> from > start info ! 0 + fsize info - 1"
  proof (rule protect_spec_none)
    fix i assume "i < nsect info"
    then show "\<not> overlaps info from to i" using overlaps_in_bank [OF ok, of i "from" "to"] that
      unfolding in_bank_def by (auto dest: order_trans leD)
  qed
  consider "flash_id info = FLASH_UNKNOWN" | "flash_id info \<noteq> FLASH_UNKNOWN" "to < from \<or> to < start info ! 0 \<or> from > start info ! 0 + fsize info - 1"
    | "flash_id info \<noteq> FLASH_UNKNOWN" "from \<le> to" "\<not> to < start info ! 0" "\<not> from > start info ! 0 + fsize info - 1" by fastforce
  then show ?thesis
  proof cases
    case 1
    then show ?thesis using s0 by (simp add: flash_protect_def bank_end_ok [OF ok])
  next
    case 2
    then show ?thesis using s0 none by (auto simp: flash_protect_def bank_end_ok [OF ok])
  next
    case 3
    then show ?thesis
      using s0 bank_okD(5,6) [OF ok] protect_loop_ok [OF ok 3(2) assms(2), of "nsect info"]
      by (simp add: flash_protect_def bank_end_ok [OF ok] sectors_def nsect_def [symmetric] protect_spec_def not_less)
  qed
qed

lemma flash_protect_exact_witness:
  "flash_protect FLAG_PROTECT_SET 0x9f01fff0 0xffffffff board_bank =
     Some (if flash_id board_bank = FLASH_UNKNOWN then board_bank
           else board_bank\<lparr>protect := protect_spec board_bank FLAG_PROTECT_SET 0x9f01fff0 0xffffffff\<rparr>)"
  by (rule flash_protect_exact) (simp_all add: board_bank_ok)


definition store_bytes :: "space write_buff" where
  "store_bytes b bs a d = (0, stored d a bs)"

lemma store_bytes_sound: "sound_write infos store_bytes"
  by (auto simp: sound_write_def written_def store_bytes_def stored_def)



definition erase_ones :: "flash_info list \<Rightarrow> space flash_erase" where
  "erase_ones infos b sf sl d =
     (0, \<lambda>x. if \<exists>i\<in>{nat sf..nat sl}. 0 \<le> sf \<and> sf \<le> int i \<and> int i \<le> sl \<and> in_sector (infos ! b) i x then 255 else d x)"

lemma erase_ones_sound: "sound_erase infos (erase_ones infos)"
  unfolding sound_erase_def erase_ones_def planned_def by auto


section \<open>Where the code goes wrong\<close>

text \<open>A bank that ends at the top of the address space: its last sector is written although it is protected, because
  the end of the bank wraps to 0.\<close>

definition top_bank :: flash_info where
  "top_bank = \<lparr>fsize = 0x10000, sector_count = 1, flash_id = 1, start = [0xffff0000], protect = [1]\<rparr>"

lemma top_bank_ok: "bank_ok top_bank"
  by (simp add: bank_ok_def nsect_def top_bank_def)

lemma flash_write_ignores_protection_at_top:
  "flash_write (\<lambda>b bs a d. (0, d @ [(b, bs, a)])) [top_bank] [7] 0xffff0000 1 [] = Some (0, [(0, [7], 0xffff0000)])"
  by code_simp

text \<open>Erasing such a bank also erases a second bank that starts at address 0: the next address has wrapped to it.\<close>

lemma erase_wraps_to_bank_at_zero:
  "flash_fill_sect_ranges [top_bank, top_bank\<lparr>start := [0]\<rparr>] 0xffff0000 0xffffffff = Some (0, [(0, 0), (0, 0)], 2, [])"
  by code_simp

text \<open>Two banks with a gap between them: a range that begins in one and ends in the other is written into the gap, by a
  request to the second bank for addresses in front of it.\<close>

lemma flash_write_into_gap:
  "flash_write (\<lambda>b bs a d. (0, d @ [(b, a, length bs)]))
     [\<lparr>fsize = 4, sector_count = 1, flash_id = 1, start = [0x10], protect = [0]\<rparr>,
      \<lparr>fsize = 4, sector_count = 1, flash_id = 1, start = [0x18], protect = [0]\<rparr>] [1, 2, 3, 4, 5, 6] 0x13 6 []
   = Some (0, [(0, 0x13, 1), (1, 0x14, 5)])"
  by code_simp

text \<open>A sector number of 4294967295 is taken for sector -1; protecting it writes in front of the table.\<close>

lemma abbrev_spec_negative:
  "abbrev_spec [top_bank] (bytes_of ''1:4294967295'') = Some (1, 0, -1, -1)"
  by code_simp

lemma do_protect_out_of_table:
  "do_protect usage [bytes_of ''protect'', bytes_of ''on'', bytes_of ''1:4294967295''] \<lparr>banks = [top_bank], chip = (), con = []\<rparr> = None"
  by code_simp

end
