(* ===== verification/Srec.thy ===== *)
theory Srec
  imports FlashProps
begin

text \<open>
  S-record transfers over the console: the decoder \<^verbatim>\<open>common/s_record.c\<close> and the commands \<^verbatim>\<open>loads\<close> and \<^verbatim>\<open>saves\<close> of
  \<^verbatim>\<open>common/cmd_load.c\<close> (without \<^verbatim>\<open>CFG_LOADS_BAUD_CHANGE\<close>). The target's address space is a function from addresses to
  bytes; the characters that will be typed are a list, and a routine that wants more of them than there
  are waits (\<open>Waits\<close>). \<open>ctrlc k\<close> is the answer of the \<open>k\<close>-th poll for \<^verbatim>\<open>^C\<close>.
\<close>

section \<open>The decoder\<close>

definition SREC_START :: int where "SREC_START = 0"
definition SREC_DATA2 :: int where "SREC_DATA2 = 1"
definition SREC_DATA3 :: int where "SREC_DATA3 = 2"
definition SREC_DATA4 :: int where "SREC_DATA4 = 3"
definition SREC_COUNT :: int where "SREC_COUNT = 5"
definition SREC_END4 :: int where "SREC_END4 = 7"
definition SREC_END3 :: int where "SREC_END3 = 8"
definition SREC_END2 :: int where "SREC_END2 = 9"
definition SREC_EMPTY :: int where "SREC_EMPTY = 10"
definition SREC_E_BADTYPE :: int where "SREC_E_BADTYPE = -1"
definition SREC_E_NOSREC :: int where "SREC_E_NOSREC = -2"
definition SREC_E_BADCHKS :: int where "SREC_E_BADCHKS = -3"
definition SREC_MAXRECLEN :: nat where "SREC_MAXRECLEN = 516"
definition SREC_MAXBINLEN :: nat where "SREC_MAXBINLEN = 255"

lemmas srec_codes = SREC_START_def SREC_DATA2_def SREC_DATA3_def SREC_DATA4_def SREC_COUNT_def SREC_END4_def
  SREC_END3_def SREC_END2_def SREC_EMPTY_def SREC_E_BADTYPE_def SREC_E_NOSREC_def SREC_E_BADCHKS_def

definition hex1_bin :: "u8 \<Rightarrow> int" where
  "hex1_bin c = (if byte_of (CHR ''0'') \<le> c \<and> c \<le> byte_of (CHR ''9'') then uint c - 48
     else if byte_of (CHR ''a'') \<le> c \<and> c \<le> byte_of (CHR ''f'') then uint c + 10 - 97
     else if byte_of (CHR ''A'') \<le> c \<and> c \<le> byte_of (CHR ''F'') then uint c + 10 - 65
     else -1)"

definition hex2_bin :: "mem \<Rightarrow> addr \<Rightarrow> int option" where
  "hex2_bin m s = do {
     c \<leftarrow> rd m s;
     let i = hex1_bin c;
     if i < 0 then Some (-1)
     else do {
       d \<leftarrow> rd m (Suc s);
       let j = hex1_bin d;
       if j < 0 then Some (-1) else Some (i * 16 + j) } }"

text \<open>Up to the first \<^verbatim>\<open>S\<close> and over it, or to the end of the string.\<close>

function skip_to_S :: "mem \<Rightarrow> addr \<Rightarrow> addr option" where
  "skip_to_S m input = do {
     c \<leftarrow> rd m input;
     if c = 0 then Some input
     else if c = byte_of (CHR ''S'') then Some (Suc input)
     else skip_to_S m (Suc input) }"
  by pat_completeness auto
termination by (relation "measure (\<lambda>(m, i). length m - i)") auto

declare skip_to_S.simps [simp del]

text \<open>The first \<^verbatim>\<open>switch\<close>: the type, the bytes of the address field, what is taken off the count.\<close>

definition record_type :: "u8 \<Rightarrow> int \<Rightarrow> (int \<times> nat \<times> int) option" where
  "record_type v count =
     (if v = byte_of (CHR ''0'') then Some (SREC_START, 2, count - 3)
      else if v = byte_of (CHR ''1'') then Some (SREC_DATA2, 2, count - 3)
      else if v = byte_of (CHR ''2'') then Some (SREC_DATA3, 3, count - 4)
      else if v = byte_of (CHR ''3'') then Some (SREC_DATA4, 4, count - 5)
      else if v = byte_of (CHR ''5'') then Some (SREC_COUNT, 2, 0)
      else if v = byte_of (CHR ''7'') then Some (SREC_END4, 4, count - 5)
      else if v = byte_of (CHR ''8'') then Some (SREC_END3, 3, count - 4)
      else if v = byte_of (CHR ''9'') then Some (SREC_END2, 2, count - 3)
      else None)"

text \<open>
  The second \<^verbatim>\<open>switch\<close>, whose cases fall through: \<open>n\<close> more bytes of the address. The first byte of four is added
  without the shift, which is the same on an address of 0. \<open>Inl\<close> is the early return, with the
  address as it is then.
\<close>

fun addr_bytes :: "nat \<Rightarrow> mem \<Rightarrow> addr \<Rightarrow> u8 \<Rightarrow> u32 \<Rightarrow> (u32 + addr \<times> u8 \<times> u32) option" where
  "addr_bytes 0 m input chksum addr = Some (Inr (input, chksum, addr))"
| "addr_bytes (Suc n) m input chksum addr = do {
     v \<leftarrow> hex2_bin m input;
     if v < 0 then Some (Inl addr)
     else addr_bytes n m (input + 2) (chksum + word_of_int v) (push_bit 8 addr + word_of_int v) }"

fun data_bytes :: "nat \<Rightarrow> nat \<Rightarrow> mem \<Rightarrow> addr \<Rightarrow> u8 \<Rightarrow> mem \<Rightarrow> (mem + addr \<times> u8 \<times> mem) option" where
  "data_bytes 0 i m input chksum data = Some (Inr (input, chksum, data))"
| "data_bytes (Suc n) i m input chksum data = do {
     v \<leftarrow> hex2_bin m input;
     if v < 0 then Some (Inl data)
     else do {
       data' \<leftarrow> wr data i (word_of_int v);
       data_bytes n (Suc i) m (input + 2) (chksum + word_of_int v) data' } }"

text \<open>The result is the code with \<^verbatim>\<open>*count\<close>, \<^verbatim>\<open>*addr\<close> and \<^verbatim>\<open>data\<close> as they are left.\<close>

definition srec_decode :: "mem \<Rightarrow> addr \<Rightarrow> int \<Rightarrow> u32 \<Rightarrow> mem \<Rightarrow> (int \<times> int \<times> u32 \<times> mem) option" where
  "srec_decode m input0 count0 addr0 data = do {
     input \<leftarrow> skip_to_S m input0;
     v \<leftarrow> rd m input;
     if v = 0 then Some (SREC_EMPTY, count0, addr0, data)
     else do {
       count \<leftarrow> hex2_bin m (input + 1);
       if count < 0 then Some (SREC_E_NOSREC, count, addr0, data)
       else (case record_type v count of
         None \<Rightarrow> Some (SREC_E_BADTYPE, count, addr0, data)
       | Some (srec_type, n, count') \<Rightarrow> do {
           a \<leftarrow> addr_bytes n m (input + 3) (word_of_int count) 0;
           case a of Inl addr \<Rightarrow> Some (SREC_E_NOSREC, count', addr, data)
           | Inr (input1, chksum1, addr) \<Rightarrow> do {
               d \<leftarrow> data_bytes (nat count') 0 m input1 chksum1 data;
               case d of Inl data' \<Rightarrow> Some (SREC_E_NOSREC, count', addr, data')
               | Inr (input2, chksum2, data') \<Rightarrow> do {
                   v \<leftarrow> hex2_bin m input2;
                   if v < 0 then Some (SREC_E_NOSREC, count', addr, data')
                   else if word_of_int v \<noteq> NOT chksum2 then Some (SREC_E_BADCHKS, count', addr, data')
                   else Some (srec_type, count', addr, data') } } }) } }"

section \<open>Loading\<close>

datatype 'a io = Waits | Done 'a

record loader =
  inp :: bytes
  outp :: bytes
  polls :: nat
  phys :: space
  genv :: gd

definition putc :: "u8 \<Rightarrow> loader \<Rightarrow> loader" where
  "putc c s = s\<lparr>outp := outp s @ [c]\<rparr>"

definition print :: "bytes \<Rightarrow> loader \<Rightarrow> loader" where
  "print bs s = s\<lparr>outp := outp s @ bs\<rparr>"

definition echo :: "bool \<Rightarrow> u8 \<Rightarrow> loader \<Rightarrow> loader" where
  "echo do_echo c s = (if do_echo then putc c s else s)"

definition polled :: "bool \<Rightarrow> loader \<Rightarrow> loader" where
  "polled redirected s = (if redirected then s\<lparr>polls := Suc (polls s)\<rparr> else s)"

lemma io_simps [simp]:
  "inp (echo e c s) = inp s" "phys (echo e c s) = phys s" "genv (echo e c s) = genv s" "polls (echo e c s) = polls s"
  "inp (polled r s) = inp s" "phys (polled r s) = phys s" "genv (polled r s) = genv s" "outp (polled r s) = outp s"
  "inp (print b s) = inp s" "phys (print b s) = phys s" "genv (print b s) = genv s" "polls (print b s) = polls s"
  by (simp_all add: echo_def polled_def putc_def print_def)

text \<open>
  \<^verbatim>\<open>read_record\<close> from position \<open>p\<close> of the buffer on. \<open>redirected\<close> says that \<^verbatim>\<open>getc\<close> of the jump table is not the
  serial one, in which case the console is polled after each character.
\<close>

function read_loop :: "bool \<Rightarrow> bool \<Rightarrow> (nat \<Rightarrow> bool) \<Rightarrow> nat \<Rightarrow> nat \<Rightarrow> mem \<Rightarrow> loader \<Rightarrow> (int \<times> mem \<times> loader) io option" where
  "read_loop do_echo redirected ctrlc len p buf s =
     (if p < len then
        (case inp s of [] \<Rightarrow> Some Waits
         | c # cs \<Rightarrow>
             let s1 = echo do_echo c (s\<lparr>inp := cs\<rparr>) in
             if c = 13 \<or> c = 10 then do { buf' \<leftarrow> wr buf p 0; Some (Done (int p, buf', s1)) }
             else if c = 0 \<or> c = 3 then Some (Done (-1, buf, s1))
             else do {
               buf' \<leftarrow> wr buf p c;
               if redirected \<and> ctrlc (polls s1) then Some (Done (-1, buf', polled redirected s1))
               else read_loop do_echo redirected ctrlc len (Suc p) buf' (polled redirected s1) })
      else do { buf' \<leftarrow> wr buf p 0; Some (Done (int p, buf', s)) })"
  by pat_completeness auto
termination by (relation "measure (\<lambda>(e, r, c, len, p, b, s). len - p)") auto

declare read_loop.simps [simp del]

definition read_record :: "bool \<Rightarrow> bool \<Rightarrow> (nat \<Rightarrow> bool) \<Rightarrow> mem \<Rightarrow> nat \<Rightarrow> loader \<Rightarrow> (int \<times> mem \<times> loader) io option" where
  "read_record do_echo redirected ctrlc buf len s = read_loop do_echo redirected ctrlc (len - 1) 0 buf s"

lemma read_loop_consumes:
  "read_loop e r c len p buf s = Some (Done (n, buf', s')) \<Longrightarrow>
   length buf' = length buf \<and> (p < len \<longrightarrow> length (inp s') < length (inp s)) \<and> length (inp s') \<le> length (inp s)"
proof (induction e r c len p buf s rule: read_loop.induct)
  case (1 e r c len p buf s)
  show ?case
  proof (cases "p < len \<and> inp s \<noteq> []")
    case False
    then show ?thesis using "1.prems" by (subst (asm) read_loop.simps) (auto split: Option.bind_splits if_splits)
  next
    case True
    then obtain x xs where p: "p < len" and inp: "inp s = x # xs" by (auto simp: neq_Nil_conv)
    note IH = "1.IH" [OF p inp refl]
    show ?thesis
    proof (cases "x \<in> {0, 3, 10, 13} \<or> (r \<and> c (polls s)) \<or> length buf \<le> p")
      case True
      then show ?thesis
        using "1.prems" p inp
        by (subst (asm) read_loop.simps) (auto simp: Let_def rd_out split: if_splits Option.bind_splits)
    next
      case False
      then have "read_loop e r c len (Suc p) (buf[p := x]) (polled r (echo e x (s\<lparr>inp := xs\<rparr>))) = Some (Done (n, buf', s'))"
        using "1.prems" p inp by (subst (asm) read_loop.simps) (auto simp: Let_def mem_simps split: if_splits)
      with False show ?thesis using IH [of "buf[p := x]"] inp by auto
    qed
  qed
qed

text \<open>
  What the board gives: the routine \<^verbatim>\<open>write_buff\<close>, the bank table, whether the console is redirected, the answers of
  the polls. \<open>load_vars\<close> are the local variables of \<^verbatim>\<open>load_serial\<close>.
\<close>

record board =
  wbuff :: "space write_buff"
  fbanks :: "flash_info list"
  redir :: bool
  ctrlc_at :: "nat \<Rightarrow> bool"

record load_vars =
  recbuf :: mem
  binbuf :: mem
  binlen :: int
  raddr :: u32
  start_addr :: u32
  end_addr :: u32
  line_count :: nat

text \<open>Storing the data of one record; the size of \<^verbatim>\<open>memcpy\<close> is the count converted to unsigned.\<close>

definition load_store :: "board \<Rightarrow> u32 \<Rightarrow> load_vars \<Rightarrow> loader \<Rightarrow> (int \<times> loader) option" where
  "load_store bd offset v s = do {
     let store_addr = raddr v + offset;
     b \<leftarrow> addr2info (fbanks bd) store_addr;
     case b of
       Some _ \<Rightarrow> do {
         (rc, d) \<leftarrow> flash_write (wbuff bd) (fbanks bd) (binbuf v) store_addr (word_of_int (binlen v)) (phys s);
         Some (rc, s\<lparr>phys := d\<rparr>) }
     | None \<Rightarrow>
         let n = unat (word_of_int (binlen v) :: u32) in
         if n \<le> length (binbuf v) then Some (0, s\<lparr>phys := stored (phys s) store_addr (take n (binbuf v))\<rparr>)
         else None }"

definition note_range :: "u32 \<Rightarrow> load_vars \<Rightarrow> load_vars" where
  "note_range offset v =
     (let store_addr = raddr v + offset; lst = store_addr + word_of_int (binlen v) - 1
      in v\<lparr>start_addr := (if store_addr < start_addr v then store_addr else start_addr v),
           end_addr := (if lst > end_addr v then lst else end_addr v)\<rparr>)"

text \<open>A dot every 100 lines unless the characters are echoed.\<close>

definition count_line :: "bool \<Rightarrow> load_vars \<Rightarrow> load_vars" where
  "count_line do_echo v = (if do_echo then v else v\<lparr>line_count := Suc (line_count v)\<rparr>)"

definition dot :: "bool \<Rightarrow> load_vars \<Rightarrow> loader \<Rightarrow> loader" where
  "dot do_echo v s = (if \<not> do_echo \<and> Suc (line_count v) mod 100 = 0 then putc (byte_of (CHR ''.'')) s else s)"

definition upper_hex :: "u32 \<Rightarrow> bytes" where
  "upper_hex w = rev (dig_rev 16 (hexd 0) (unat w))"

definition load_report :: "u32 \<Rightarrow> u32 \<Rightarrow> u32 \<Rightarrow> bytes" where
  "load_report first lst sz =
     10 # bytes_of ''## First Load Addr = 0x'' @ hex_field 8 0 (unat first) @
     10 # bytes_of ''## Last  Load Addr = 0x'' @ hex_field 8 0 (unat lst) @
     10 # bytes_of ''## Total Size      = 0x'' @ hex_field 8 0 (unat sz) @ bytes_of '' = '' @
     shown (byte_of (CHR ''d'')) sz @ line '' Bytes''"

definition load_end :: "load_vars \<Rightarrow> loader \<Rightarrow> (u32 \<times> loader) option" where
  "load_end v s = do {
     let sz = end_addr v - start_addr v + 1;
     let s1 = print (load_report (start_addr v) (end_addr v) sz) s;
     g \<leftarrow> setenv (bytes_of ''filesize'') (Some (upper_hex sz)) (genv s1);
     Some (raddr v, s1\<lparr>genv := g\<rparr>) }"

lemma load_store_inp: "load_store bd offset v s = Some (rc, s') \<Longrightarrow> inp s' = inp s"
  by (auto simp: load_store_def Let_def split: Option.bind_splits option.splits if_splits)

lemma dot_simps [simp]: "inp (dot e v s) = inp s" "phys (dot e v s) = phys s" "genv (dot e v s) = genv s"
  "polls (dot e v s) = polls s"
  by (simp_all add: dot_def putc_def)

function load_loop :: "board \<Rightarrow> bool \<Rightarrow> u32 \<Rightarrow> load_vars \<Rightarrow> loader \<Rightarrow> (u32 \<times> loader) io option" where
  "load_loop bd do_echo offset v s = do {
     r \<leftarrow> read_record do_echo (redir bd) (ctrlc_at bd) (recbuf v) (SREC_MAXRECLEN + 1) s;
     case r of Waits \<Rightarrow> Some Waits
     | Done (n, recbuf', s1) \<Rightarrow>
         if n < 0 then Some (Done (- 1, s1))
         else do {
           (typ, binlen', raddr', binbuf') \<leftarrow> srec_decode recbuf' 0 (binlen v) (raddr v) (binbuf v);
           let v1 = v\<lparr>recbuf := recbuf', binlen := binlen', raddr := raddr', binbuf := binbuf'\<rparr>;
           if typ < 0 then Some (Done (- 1, s1))
           else if typ \<in> {SREC_DATA2, SREC_DATA3, SREC_DATA4} then do {
             (rc, s2) \<leftarrow> load_store bd offset v1 s1;
             if rc \<noteq> 0 then Some (Done (- 1, print (flash_perror rc) s2))
             else load_loop bd do_echo offset (count_line do_echo (note_range offset v1)) (dot do_echo v1 s2) }
           else if typ \<in> {SREC_END2, SREC_END3, SREC_END4} then map_option Done (load_end v1 s1)
           else load_loop bd do_echo offset (count_line do_echo v1) (dot do_echo v1 s1) } }"
  by pat_completeness auto
termination
  by (relation "measure (\<lambda>(bd, e, off, v, s). length (inp s))")
    (auto simp: read_record_def SREC_MAXRECLEN_def dest!: read_loop_consumes load_store_inp)

declare load_loop.simps [simp del]

text \<open>\<open>v\<close> holds what the uninitialised local variables contain.\<close>

definition load_serial :: "board \<Rightarrow> bool \<Rightarrow> u32 \<Rightarrow> load_vars \<Rightarrow> loader \<Rightarrow> (u32 \<times> loader) io option" where
  "load_serial bd do_echo offset v s =
     load_loop bd do_echo offset (v\<lparr>start_addr := - 1, end_addr := 0, line_count := 0\<rparr>) s"

text \<open>\<open>drain\<close>: characters that have arrived by one of the 100 polls with \<^verbatim>\<open>tstc\<close> are dropped.\<close>

fun drain :: "(nat \<Rightarrow> bool) \<Rightarrow> nat \<Rightarrow> bytes \<Rightarrow> bytes" where
  "drain tstc 0 cs = cs"
| "drain tstc (Suc k) cs = drain tstc k (if tstc k then drop 1 cs else cs)"

definition echo_wanted :: "gd \<Rightarrow> bool option" where
  "echo_wanted g = do {
     r \<leftarrow> getenv (bytes_of ''loads_echo'') g;
     case r of None \<Rightarrow> Some False
     | Some p \<Rightarrow> do { c \<leftarrow> rd (env_mem g) p; Some (c = byte_of (CHR ''1'')) } }"

definition do_load_serial :: "board \<Rightarrow> (nat \<Rightarrow> bool) \<Rightarrow> load_vars \<Rightarrow> bytes list \<Rightarrow> loader \<Rightarrow> (int \<times> loader) io option" where
  "do_load_serial bd tstc v argv s = do {
     do_echo \<leftarrow> echo_wanted (genv s);
     offset \<leftarrow> (if length argv = 2 then map_option fst (str_toul (argv ! 1) 16) else Some 0);
     r \<leftarrow> load_serial bd do_echo offset v (print (line ''## Ready for S-Record download ...'') s);
     Some (case r of Waits \<Rightarrow> Waits
       | Done (addr, s1) \<Rightarrow>
           let s2 = s1\<lparr>inp := drain tstc 100 (inp s1)\<rparr> in
           if addr = - 1 then Done (1, print (line ''## S-Record download aborted'') s2)
           else Done (0, (print (bytes_of ''## Start Addr      = 0x'' @ hex_field 8 0 (unat addr) @ [10]) s2)
                          \<lparr>genv := (genv s2)\<lparr>load_addr := addr\<rparr>\<rparr>)) }"

section \<open>Saving\<close>

definition SREC3_START :: bytes where "SREC3_START = bytes_of ''S0030000FC'' @ [10]"
definition SREC3_FORMAT :: bytes where "SREC3_FORMAT = bytes_of ''S3%02X%08lX%s%02X'' @ [10]"
definition SREC3_END :: bytes where "SREC3_END = bytes_of ''S70500000000FA'' @ [10]"
definition SREC_BYTES_PER_RECORD :: nat where "SREC_BYTES_PER_RECORD = 16"

text \<open>
  The objects \<^verbatim>\<open>save_serial\<close> passes to \<^verbatim>\<open>sprintf\<close>, one behind the other in one memory: \<^verbatim>\<open>record\<close> (48 bytes), \<^verbatim>\<open>data\<close> (33
  bytes) and the format.
\<close>

definition DATA_AT :: addr where "DATA_AT = 48"
definition FORMAT_AT :: addr where "FORMAT_AT = 81"

definition save_locals :: "bytes \<Rightarrow> bytes \<Rightarrow> mem" where
  "save_locals rec dat = rec @ dat @ SREC3_FORMAT @ [0]"

text \<open>\<^verbatim>\<open>write_record\<close> of the string at \<open>p\<close>, and of a literal; then the poll.\<close>

function put_string :: "mem \<Rightarrow> addr \<Rightarrow> loader \<Rightarrow> loader option" where
  "put_string m p s = do {
     c \<leftarrow> rd m p;
     if c = 0 then Some s else put_string m (Suc p) (putc c s) }"
  by pat_completeness auto
termination by (relation "measure (\<lambda>(m, p, s). length m - p)") auto

declare put_string.simps [simp del]

definition write_record :: "(nat \<Rightarrow> bool) \<Rightarrow> mem \<Rightarrow> addr \<Rightarrow> loader \<Rightarrow> (int \<times> loader) option" where
  "write_record ctrlc m p s = do {
     s1 \<leftarrow> put_string m p s;
     Some (if ctrlc (polls s1) then -1 else 0, polled True s1) }"

text \<open>\<^verbatim>\<open>save_vars\<close> are the variables of the loop; \<open>collect\<close> is the first half of its body, \<open>dump\<close> the second.\<close>

record save_vars =
  saddr :: u32
  scount :: u32
  reclen :: nat
  checksum :: u32
  locals :: mem

definition collect :: "space \<Rightarrow> save_vars \<Rightarrow> save_vars option" where
  "collect mem v =
     (if scount v \<noteq> 0 then do {
        let c = mem (saddr v + of_nat (reclen v));
        m1 \<leftarrow> wr (locals v) (DATA_AT + 2 * reclen v) (digits ! unat (drop_bit 4 c AND 0x0f));
        m2 \<leftarrow> wr m1 (DATA_AT + 2 * reclen v + 1) (digits ! unat (c AND 0x0f));
        m3 \<leftarrow> wr m2 (DATA_AT + 2 * reclen v + 2) 0;
        Some (v\<lparr>checksum := checksum v + ucast c, locals := m3, reclen := Suc (reclen v), scount := scount v - 1\<rparr>) }
      else Some v)"

definition record_checksum :: "u32 \<Rightarrow> u32 \<Rightarrow> u32 \<Rightarrow> u32" where
  "record_checksum acc len addr =
     NOT (acc + (len AND 0xff) + (drop_bit 8 len AND 0xff)
       + (addr AND 0xff) + (drop_bit 8 addr AND 0xff) + (drop_bit 16 addr AND 0xff) + (drop_bit 24 addr AND 0xff)) AND 0xff"

definition dump :: "(nat \<Rightarrow> bool) \<Rightarrow> save_vars \<Rightarrow> loader \<Rightarrow> (int \<times> save_vars \<times> loader) option" where
  "dump ctrlc v s =
     (if reclen v = SREC_BYTES_PER_RECORD \<or> scount v = 0 then do {
        (rc, m, s') \<leftarrow>
          (if reclen v \<noteq> 0 then do {
             let len = of_nat (4 + reclen v + 1);
             (n, m) \<leftarrow> sprintf 0 FORMAT_AT
               [AWord len, AWord (saddr v), APtr (Some DATA_AT), AWord (record_checksum (checksum v) len (saddr v))] (locals v);
             (rc, s') \<leftarrow> write_record ctrlc m 0 s;
             Some (rc, m, s') }
           else Some (0, locals v, s));
        Some (rc, v\<lparr>locals := m, saddr := saddr v + of_nat (reclen v), checksum := 0, reclen := 0\<rparr>, s') }
      else Some (0, v, s))"

lemma collect_count: "collect mem v = Some v' \<Longrightarrow> scount v' = (if scount v = 0 then 0 else scount v - 1)"
  by (auto simp: collect_def Let_def split: if_splits Option.bind_splits)

lemma dump_count: "dump ctrlc v s = Some (rc, v', s') \<Longrightarrow> scount v' = scount v"
  by (auto simp: dump_def Let_def split: if_splits Option.bind_splits)

function save_loop :: "(nat \<Rightarrow> bool) \<Rightarrow> save_vars \<Rightarrow> loader \<Rightarrow> (int \<times> save_vars \<times> loader) option" where
  "save_loop ctrlc v s = do {
     v1 \<leftarrow> collect (phys s) v;
     (rc, v2, s1) \<leftarrow> dump ctrlc v1 s;
     if rc \<noteq> 0 then Some (-1, v2, s1)
     else if scount v2 \<noteq> 0 then save_loop ctrlc v2 s1
     else Some (0, v2, s1) }"
  by pat_completeness auto
termination
  by (relation "measure (\<lambda>(c, v, s). unat (scount v))")
    (auto dest!: collect_count dump_count simp: unat_minus_one unat_gt_0 split: if_splits)

declare save_loop.simps [simp del]

text \<open>\<open>rec\<close> and \<open>dat\<close> are the uninitialised contents of the two buffers.\<close>

definition save_serial :: "(nat \<Rightarrow> bool) \<Rightarrow> bytes \<Rightarrow> bytes \<Rightarrow> u32 \<Rightarrow> u32 \<Rightarrow> loader \<Rightarrow> (int \<times> loader) option" where
  "save_serial ctrlc rec dat address count s = do {
     (rc, s1) \<leftarrow> write_record ctrlc (SREC3_START @ [0]) 0 s;
     if rc \<noteq> 0 then Some (-1, s1)
     else do {
       (rc, v, s2) \<leftarrow> save_loop ctrlc \<lparr>saddr = address, scount = count, reclen = 0, checksum = 0, locals = save_locals rec dat\<rparr> s1;
       if rc \<noteq> 0 then Some (-1, s2)
       else do {
         (rc, s3) \<leftarrow> write_record ctrlc (SREC3_END @ [0]) 0 s2;
         Some (if rc \<noteq> 0 then -1 else 0, s3) } } }"

definition do_save_serial :: "(nat \<Rightarrow> bool) \<Rightarrow> bytes \<Rightarrow> bytes \<Rightarrow> bytes list \<Rightarrow> loader \<Rightarrow> (int \<times> loader) io option" where
  "do_save_serial ctrlc rec dat argv s = do {
     offset \<leftarrow> (if length argv \<ge> 2 then map_option fst (str_toul (argv ! 1) 16) else Some 0);
     sz \<leftarrow> (if length argv = 3 then map_option fst (str_toul (argv ! 2) 16) else Some 0);
     let s1 = print (line ''## Ready for S-Record upload, press ENTER to proceed ...'') s;
     if 13 \<notin> set (inp s1) then Some Waits
     else do {
       (rc, s2) \<leftarrow> save_serial ctrlc rec dat offset sz (s1\<lparr>inp := tl (dropWhile (\<lambda>c. c \<noteq> 13) (inp s1))\<rparr>);
       Some (Done (0, print (if rc \<noteq> 0 then line ''## S-Record upload aborted'' else line ''## S-Record upload complete'') s2)) } }"

end
