(* ===== verification/SrecProps.thy ===== *)
theory SrecProps
  imports Srec
begin

text \<open>
  The format of a transfer, and what \<^verbatim>\<open>saves\<close> prints: the decoder reads a well-formed record back to its address and its
  data (\<open>srec_decode_s3\<close>), \<^verbatim>\<open>sprintf\<close> prints that record (\<open>sprintf_s3\<close>), and \<^verbatim>\<open>save_serial\<close> prints the
  image of the whole range (\<open>save_serial_ok\<close>).
\<close>

section \<open>Hexadecimal bytes\<close>

definition hex2 :: "u8 \<Rightarrow> bytes" where
  "hex2 b = hex_field 2 0 (unat b)"

definition hexs :: "bytes \<Rightarrow> bytes" where
  "hexs bs = concat (map hex2 bs)"

lemma hexs_simps [simp]: "hexs [] = []" "hexs (b # bs) = hex2 b @ hexs bs" "hexs (bs @ cs) = hexs bs @ hexs cs"
  by (simp_all add: hexs_def)

lemma length_hex2 [simp]: "length (hex2 b) = 2"
  by (simp add: hex2_def)

lemma length_hexs [simp]: "length (hexs bs) = 2 * length bs"
  by (induction bs) simp_all

lemma hex2_digits: "hex2 b = [hexd 0 (unat b div 16), hexd 0 (unat b mod 16)]"
proof -
  have "unat b < 256" using unsigned_less [of b, where 'a = nat] by simp
  then have "unat b div 16 mod 16 = unat b div 16" by simp
  moreover have "hex_field (Suc (Suc 0)) 0 (unat b) = [hexd 0 (unat b div 16 mod 16), hexd 0 (unat b mod 16)]"
    by (simp only: hex_field_Suc hex_field_0 append.simps)
  ultimately show ?thesis by (simp only: hex2_def numeral_2_eq_2)
qed

lemma hex1_bin_digit: "k < 16 \<Longrightarrow> hex1_bin (hexd 0 k) = int k"
proof -
  have "\<forall>k<16. hex1_bin (hexd 0 k) = int k" unfolding all_less_16 by code_simp
  then show "k < 16 \<Longrightarrow> hex1_bin (hexd 0 k) = int k" by blast
qed

lemma hexd_printable: "k < 16 \<Longrightarrow> hexd 0 k \<notin> {0, 3, 10, 13}"
proof -
  have "\<forall>k<16. hexd 0 k \<notin> {0, 3, 10, 13}" unfolding all_less_16 by code_simp
  then show "k < 16 \<Longrightarrow> hexd 0 k \<notin> {0, 3, 10, 13}" by blast
qed

lemma unat_byte: "unat (b :: u8) < 256"
  using unsigned_less [of b, where 'a = nat] by simp

lemma hex2_bin_hexs:
  assumes "is_cstr m p (hex2 b @ rest)"
  shows "hex2_bin m p = Some (uint b)" "is_cstr m (p + 2) rest"
proof -
  have k: "unat b div 16 < 16" "unat b mod 16 < 16" using unat_byte [of b] by auto
  have i: "uint b = int (unat b div 16) * 16 + int (unat b mod 16)"
    unfolding uint_nat by (metis div_mult_mod_eq of_nat_add of_nat_mult of_nat_numeral)
  show "hex2_bin m p = Some (uint b)"
    using assms k by (simp add: hex2_digits hex2_bin_def mem_simps hex1_bin_digit i)
  show "is_cstr m (p + 2) rest" using is_cstr_drop [OF assms, of 2] by simp
qed

lemma word_of_uint8: "(word_of_int (uint (b :: u8)) :: u8) = b"
  by simp

lemma addr_bytes_hexs:
  "is_cstr m p (hexs bs @ rest) \<Longrightarrow> addr_bytes (length bs) m p ck a =
     Some (Inr (p + 2 * length bs, ck + sum_list bs, foldl (\<lambda>a b. push_bit 8 a + ucast b) a bs))"
proof (induction bs arbitrary: p ck a)
  case (Cons b bs)
  have c: "is_cstr m p (hex2 b @ (hexs bs @ rest))" using Cons.prems by simp
  have u: "(word_of_int (uint b) :: u32) = ucast b" by simp
  show ?case
    using Cons.IH [OF hex2_bin_hexs(2) [OF c]] hex2_bin_hexs(1) [OF c] by (simp add: u algebra_simps)
qed simp

lemma data_bytes_hexs:
  "is_cstr m p (hexs bs @ rest) \<Longrightarrow> i + length bs \<le> length data \<Longrightarrow> data_bytes (length bs) i m p ck data =
     Some (Inr (p + 2 * length bs, ck + sum_list bs, blit data i bs))"
proof (induction bs arbitrary: p ck i data)
  case (Cons b bs)
  have c: "is_cstr m p (hex2 b @ (hexs bs @ rest))" using Cons.prems by simp
  show ?case
    using Cons.IH [OF hex2_bin_hexs(2) [OF c]] hex2_bin_hexs(1) [OF c] Cons.prems(2) by (simp add: algebra_simps mem_simps)
qed simp

section \<open>Addresses\<close>

lemma hex_field_append: "hex_field (n + k) lc w = hex_field n lc (w div 16 ^ k) @ hex_field k lc w"
proof (induction k arbitrary: w)
  case (Suc k)
  then show ?case by (simp add: hex_field_Suc div_mult2_eq)
qed simp

lemma hex_field_mod: "hex_field n lc (w mod 16 ^ n) = hex_field n lc w"
proof (induction n arbitrary: w)
  case (Suc n)
  have "w mod 16 ^ Suc n div 16 = w div 16 mod 16 ^ n" by (simp add: mod_mult2_eq)
  moreover have "w mod 16 ^ Suc n mod 16 = w mod 16" by (simp add: mod_mult2_eq)
  ultimately show ?case using Suc by (simp add: hex_field_Suc)
qed simp

lemma unat_ucast_drop: "unat (ucast (drop_bit n (w :: u32)) :: u8) = unat w div 2 ^ n mod 256"
  by (simp only: unsigned_ucast_eq unat_drop_bit_eq take_bit_eq_mod) (simp add: drop_bit_eq_div [where 'a = nat])

lemma hex_field_8: "hex_field 8 0 (unat (w :: u32)) = hexs (be32 w)"
proof -
  have u: "hex_field 2 0 (unat (ucast (drop_bit n w) :: u8)) = hex_field 2 0 (unat w div 2 ^ n)" for n
    using hex_field_mod [of 2 0 "unat w div 2 ^ n"] by (simp add: unat_ucast_drop)
  have "hex_field (2 + 2 + 2 + 2) 0 (unat w) =
      hex_field 2 0 (unat w div 2 ^ 24) @ hex_field 2 0 (unat w div 2 ^ 16) @ hex_field 2 0 (unat w div 2 ^ 8) @ hex_field 2 0 (unat w div 2 ^ 0)"
    by (simp only: hex_field_append) (simp add: div_mult2_eq [symmetric])
  then show ?thesis using u [of 24] u [of 16] u [of 8] u [of 0] by (simp add: be32_def hex2_def)
qed

lemma be32_value: "foldl (\<lambda>a b. push_bit 8 a + ucast b) 0 (be32 w) = w"
proof -
  have p: "push_bit 8 x + ucast (b :: u8) = x * 256 + of_nat (unat b)" for x :: u32 and b
    by (simp add: push_bit_eq_mult)
  let ?n = "unat w"
  have "foldl (\<lambda>a b. push_bit 8 a + ucast b) 0 (be32 w) =
      (of_nat (((?n div 2 ^ 24 mod 256 * 256 + ?n div 2 ^ 16 mod 256) * 256 + ?n div 2 ^ 8 mod 256) * 256 + ?n div 2 ^ 0 mod 256) :: u32)"
    using unat_ucast_drop [of 24 w] unat_ucast_drop [of 16 w] unat_ucast_drop [of 8 w] unat_ucast_drop [of 0 w]
    by (simp only: be32_def p foldl.simps of_nat_add of_nat_mult) simp
  also have "((?n div 2 ^ 24 mod 256 * 256 + ?n div 2 ^ 16 mod 256) * 256 + ?n div 2 ^ 8 mod 256) * 256 + ?n div 2 ^ 0 mod 256 = ?n"
  proof -
    have "?n < 2 ^ 32" using unsigned_less [of w, where 'a = nat] by simp
    then have "?n div 2 ^ 24 mod 256 = ?n div 2 ^ 24" by (intro mod_less) simp
    moreover have "?n div 2 ^ 24 = ?n div 2 ^ 16 div 256" "?n div 2 ^ 16 = ?n div 2 ^ 8 div 256" "?n div 2 ^ 8 = ?n div 2 ^ 0 div 256"
      by (simp_all add: div_mult2_eq [symmetric])
    ultimately show ?thesis by (simp only: div_mult_mod_eq) simp
  qed
  finally show ?thesis by simp
qed

section \<open>One record\<close>

definition chk :: "u32 \<Rightarrow> bytes \<Rightarrow> u8" where
  "chk a bs = NOT (of_nat (length bs + 5) + sum_list (be32 a) + sum_list bs)"

text \<open>The text of an \<^verbatim>\<open>S3\<close> record: length, address, data, checksum.\<close>

definition s3_line :: "u32 \<Rightarrow> bytes \<Rightarrow> bytes" where
  "s3_line a bs = bytes_of ''S3'' @ hexs ([of_nat (length bs + 5)] @ be32 a @ bs @ [chk a bs])"

lemma srec_decode_count:
  assumes c: "is_cstr m p (83 # t # hex2 cnt @ hexs ad @ hexs bs @ hex2 ck)"
    and rt: "record_type t (uint cnt) = Some (ty, length ad, n)" and n: "nat n = length bs"
    and ck: "ck = NOT (cnt + sum_list ad + sum_list bs)" and l: "length bs \<le> length data"
  shows "srec_decode m p count0 addr0 data = Some (ty, n, foldl (\<lambda>a b. push_bit 8 a + ucast b) 0 ad, blit data 0 bs)"
proof -
  have s: "skip_to_S m p = Some (Suc p)" using c by (subst skip_to_S.simps) (simp add: mem_simps byte_of_def)
  have v: "rd m (Suc p) = Some t" "t \<noteq> 0" using c by auto
  have c1: "is_cstr m (p + 2) (hex2 cnt @ hexs ad @ hexs bs @ hex2 ck)"
    using is_cstr_drop [OF c, of 2] by simp
  have c2: "is_cstr m (p + 4) (hexs ad @ hexs bs @ hex2 ck)"
    using is_cstr_drop [OF c, of 4] by (simp add: eval_nat_numeral)
  have c3: "is_cstr m (p + 4 + 2 * length ad) (hexs bs @ hex2 ck)" using is_cstr_drop [OF c2, of "2 * length ad"] by simp
  have c4: "is_cstr m (p + 4 + 2 * length ad + 2 * length bs) (hex2 ck @ [])"
    using is_cstr_drop [OF c3, of "2 * length bs"] by simp
  have h1: "hex2_bin m (Suc p + 1) = Some (uint cnt)" using hex2_bin_hexs(1) [OF c1] by simp
  have w: "word_of_int (uint cnt) = cnt" by simp
  have "Suc p + 3 = p + 4" by simp
  then have h2: "addr_bytes (length ad) m (Suc p + 3) cnt 0 =
      Some (Inr (p + 4 + 2 * length ad, cnt + sum_list ad, foldl (\<lambda>a b. push_bit 8 a + ucast b) 0 ad))"
    using addr_bytes_hexs [OF c2, of cnt 0] by (simp only:)
  have h3: "data_bytes (nat n) 0 m (p + 4 + 2 * length ad) k data =
      Some (Inr (p + 4 + 2 * length ad + 2 * length bs, k + sum_list bs, blit data 0 bs))" for k
    using data_bytes_hexs [OF c3, of 0 data k] l n by simp
  have pos: "\<not> uint cnt < 0" "\<not> uint ck < 0" by simp_all
  have k: "word_of_int (uint ck) = NOT (cnt + sum_list ad + sum_list bs)" by (simp add: ck)
  show ?thesis
    unfolding srec_decode_def s v(1) h1 rt h2 h3 w hex2_bin_hexs(1) [OF c4] Option.bind.bind_lunit option.case prod.case sum.case
      if_not_P [OF pos(1)] if_not_P [OF v(2)] if_not_P [OF pos(2)] k
    by simp
qed

lemmas srec_decode_hexs = srec_decode_count [where n = "int (length bs)" for bs, OF _ _ nat_int]

lemma srec_decode_s3:
  assumes c: "is_cstr m p (s3_line a bs)" and l: "length bs \<le> 250" "length bs \<le> length data"
  shows "srec_decode m p count0 addr0 data = Some (SREC_DATA4, int (length bs), a, blit data 0 bs)"
proof -
  define cnt where "cnt = (of_nat (length bs + 5) :: u8)"
  have "unat cnt = length bs + 5" using l unfolding cnt_def by (subst unsigned_of_nat) (simp add: take_bit_nat_eq_self)
  then have n: "uint cnt = int (length bs) + 5" by (simp add: uint_nat)
  have c0: "is_cstr m p (83 # 51 # hex2 cnt @ hexs (be32 a) @ hexs bs @ hex2 (chk a bs))"
    using c by (simp add: s3_line_def cnt_def byte_of_def)
  have rt: "record_type 51 (uint cnt) = Some (SREC_DATA4, length (be32 a), int (length bs))"
    by (simp add: record_type_def byte_of_def n)
  show ?thesis
    unfolding srec_decode_hexs [OF c0 rt _ l(2), unfolded chk_def, folded cnt_def, OF refl] be32_value ..
qed

section \<open>The record \<^verbatim>\<open>saves\<close> prints\<close>

lemma ucast_add_byte: "(ucast (x + y :: u32) :: u8) = ucast x + ucast y"
proof (rule word_uint_eqI)
  have "(uint x + uint y) mod 2 ^ 32 mod 256 = (uint x + uint y) mod 256" by (simp add: mod_mod_cancel)
  then show "uint (ucast (x + y) :: u8) = uint (ucast x + ucast y :: u8)"
    by (simp add: uint_word_ariths unsigned_ucast_eq take_bit_eq_mod mod_simps)
qed

lemma ucast_and_byte: "(ucast (x AND 0xff :: u32) :: u8) = ucast x"
proof (rule bit_word_eqI)
  fix n assume "n < LENGTH(8)"
  then have "bit (255 :: u32) n" using bit_mask_iff [of 8 n, where 'a = "32 word"] by (simp add: mask_eq_exp_minus_1)
  then show "bit (ucast (x AND 0xff) :: u8) n = bit (ucast x :: u8) n" by (simp add: bit_simps)
qed

lemma ucast_not_byte: "(ucast (NOT x :: u32) :: u8) = NOT (ucast x)"
  by (rule bit_word_eqI) (simp add: bit_simps)

lemma ucast_ucast_byte: "(ucast (ucast (b :: u8) :: u32) :: u8) = b"
  by (rule bit_word_eqI) (simp add: bit_simps)

lemma sum_list_ucast: "(ucast (sum_list (map ucast (bs :: bytes)) :: u32) :: u8) = sum_list bs"
  by (induction bs) (simp_all add: ucast_add_byte ucast_ucast_byte)

lemma and_byte_bound: "unat (x AND 0xff :: u32) < 256"
  using word_and_le1 [of x "0xff"] by (simp add: word_le_nat_alt)

lemma record_checksum_chk:
  assumes "length bs \<le> 16"
  shows "hex_field 2 0 (unat (record_checksum (sum_list (map ucast bs)) (of_nat (4 + length bs + 1)) a)) = hex2 (chk a bs)"
    "unat (record_checksum (sum_list (map ucast bs)) (of_nat (4 + length bs + 1)) a) < 256"
proof -
  let ?w = "record_checksum (sum_list (map ucast bs)) (of_nat (4 + length bs + 1)) a"
  show lt: "unat ?w < 256" by (simp only: record_checksum_def and_byte_bound)
  have small: "(of_nat (4 + length bs + 1) :: u32) = of_nat (length bs + 5)" "length bs + 5 < 2 ^ 32" using assms by (simp_all add: algebra_simps)
  have len: "ucast (drop_bit 8 (of_nat (4 + length bs + 1) :: u32)) = (0 :: u8)"
    unfolding small(1) using small(2) assms by (simp only: drop_bit_small) simp
  have low: "ucast (of_nat (4 + length bs + 1) :: u32) = (of_nat (length bs + 5) :: u8)"
    unfolding small(1) using small(2) by (rule ucast_of_nat_small)
  have "(ucast ?w :: u8) = NOT (sum_list bs + of_nat (length bs + 5) + 0 + ucast a + ucast (drop_bit 8 a)
      + ucast (drop_bit 16 a) + ucast (drop_bit 24 a))"
    by (simp only: record_checksum_def ucast_and_byte ucast_not_byte ucast_add_byte sum_list_ucast len low)
  also have "\<dots> = chk a bs" by (simp add: chk_def be32_def algebra_simps)
  finally have u: "(ucast ?w :: u8) = chk a bs" .
  have "unat (ucast ?w :: u8) = unat ?w" using lt by (simp add: unsigned_ucast_eq take_bit_nat_eq_self)
  then show "hex_field 2 0 (unat ?w) = hex2 (chk a bs)" by (simp only: hex2_def u [symmetric])
qed

lemma format_bytes: "SREC3_FORMAT = [83, 51, 37, 48, 50, 88, 37, 48, 56, 108, 88, 37, 115, 37, 48, 50, 88, 10]"
  by (simp add: SREC3_FORMAT_def byte_of_def)

text \<open>The steps of the interpreter with the new positions as equations, for \<^verbatim>\<open>%02X\<close> and \<^verbatim>\<open>%08lX\<close>.\<close>

lemma step_char:
  assumes "is_cstr m fmt (c # rest)" "c \<noteq> 37" "p < fmt" "p < lim" "fmt' = Suc fmt" "p' = Suc p"
  shows "vsn_loop buf lim fmt args (m, p) = vsn_loop buf lim fmt' args (blit m p [c], p') \<and> is_cstr (blit m p [c]) fmt' rest"
  using vsn_char [OF assms(1-4)] assms(5,6) by blast

lemma step_02X:
  assumes "is_cstr m fmt (37 # 48 # 50 # 88 # rest)" "unat w < 256" "p + 2 \<le> fmt" "p + 2 \<le> lim" "fmt' = fmt + 4" "p' = p + 2"
  shows "vsn_loop buf lim fmt (AWord w # args) (m, p) = vsn_loop buf lim fmt' args (blit m p (hex_field 2 0 (unat w)), p')
    \<and> is_cstr (blit m p (hex_field 2 0 (unat w))) fmt' rest"
proof -
  have "is_cstr m fmt (37 # 48 # 50 # [] @ 88 # rest)" using assms(1) by (simp only: append.simps)
  from vsn_hex [OF this, of 2 w p lim buf args] show ?thesis using assms(2-6) by (simp del: is_cstr.simps blit.simps)
qed

lemma step_08lX:
  fixes w :: u32
  assumes "is_cstr m fmt (37 # 48 # 56 # 108 # 88 # rest)" "p + 8 \<le> fmt" "p + 8 \<le> lim" "fmt' = fmt + 5" "p' = p + 8"
  shows "vsn_loop buf lim fmt (AWord w # args) (m, p) = vsn_loop buf lim fmt' args (blit m p (hex_field 8 0 (unat w)), p')
    \<and> is_cstr (blit m p (hex_field 8 0 (unat w))) fmt' rest"
proof -
  have "is_cstr m fmt (37 # 48 # 56 # [108] @ 88 # rest)" using assms(1) by (simp only: append.simps)
  moreover have "unat w < 16 ^ 8" using unsigned_less [of w, where 'a = nat] by simp
  ultimately show ?thesis using vsn_hex [of m fmt 56 "[108]" rest 8 w p lim buf args] assms(2-5)
    by (simp add: add.commute del: is_cstr.simps blit.simps)
qed

lemma step_s:
  assumes "is_cstr m fmt (37 # 115 # rest)" "is_cstr m a s" "p + length s \<le> fmt" "p + length s \<le> a" "p + length s \<le> lim"
    "length m < 2 ^ 32" "fmt' = fmt + 2" "p' = p + length s"
  shows "vsn_loop buf lim fmt (APtr (Some a) # args) (m, p) = vsn_loop buf lim fmt' args (blit m p s, p')
    \<and> is_cstr (blit m p s) fmt' rest"
  using vsn_s [OF assms(1-6)] assms(7,8) by blast

lemma sprintf_s3:
  fixes a :: u32
  assumes f: "is_cstr m 81 SREC3_FORMAT" and s: "is_cstr m 48 s" and l: "length s \<le> 32" "length m = 100"
    and w: "unat len < 256" "unat c < 256"
  defines "out \<equiv> [83, 51] @ hex_field 2 0 (unat len) @ hex_field 8 0 (unat a) @ s @ hex_field 2 0 (unat c) @ [10]"
  shows "sprintf 0 81 [AWord len, AWord a, APtr (Some 48), AWord c] m = Some (int (length s + 15), blit m 0 (out @ [0]))"
proof -
  let ?L = "2147483647 :: nat"
  have 1: "vsn_loop 0 ?L 81 [AWord len, AWord a, APtr (Some 48), AWord c] (m, 0)
      = vsn_loop 0 ?L 82 [AWord len, AWord a, APtr (Some 48), AWord c] (blit m 0 [83], 1)
    \<and> is_cstr (blit m 0 [83]) 82 [51, 37, 48, 50, 88, 37, 48, 56, 108, 88, 37, 115, 37, 48, 50, 88, 10]"
    by (rule step_char [OF f [unfolded format_bytes]]) simp_all
  let ?m1 = "blit m 0 [83]"
  have 2: "vsn_loop 0 ?L 82 [AWord len, AWord a, APtr (Some 48), AWord c] (?m1, 1)
      = vsn_loop 0 ?L 83 [AWord len, AWord a, APtr (Some 48), AWord c] (blit ?m1 1 [51], 2)
    \<and> is_cstr (blit ?m1 1 [51]) 83 [37, 48, 50, 88, 37, 48, 56, 108, 88, 37, 115, 37, 48, 50, 88, 10]"
    by (rule step_char [OF 1 [THEN conjunct2]]) simp_all
  let ?m2 = "blit ?m1 1 [51]"
  let ?h = "hex_field 2 0 (unat len)"
  have 3: "vsn_loop 0 ?L 83 [AWord len, AWord a, APtr (Some 48), AWord c] (?m2, 2)
      = vsn_loop 0 ?L 87 [AWord a, APtr (Some 48), AWord c] (blit ?m2 2 ?h, 4)
    \<and> is_cstr (blit ?m2 2 ?h) 87 [37, 48, 56, 108, 88, 37, 115, 37, 48, 50, 88, 10]"
    by (rule step_02X [OF 2 [THEN conjunct2] w(1)]) simp_all
  let ?m3 = "blit ?m2 2 ?h"
  let ?ad = "hex_field 8 0 (unat a)"
  have 4: "vsn_loop 0 ?L 87 [AWord a, APtr (Some 48), AWord c] (?m3, 4)
      = vsn_loop 0 ?L 92 [APtr (Some 48), AWord c] (blit ?m3 4 ?ad, 12)
    \<and> is_cstr (blit ?m3 4 ?ad) 92 [37, 115, 37, 48, 50, 88, 10]"
    by (rule step_08lX [OF 3 [THEN conjunct2]]) simp_all
  let ?m4 = "blit ?m3 4 ?ad"
  have s4: "is_cstr ?m4 48 s" using s by (simp add: is_cstr_blit del: blit.simps)
  have 5: "vsn_loop 0 ?L 92 [APtr (Some 48), AWord c] (?m4, 12) = vsn_loop 0 ?L 94 [AWord c] (blit ?m4 12 s, 12 + length s)
    \<and> is_cstr (blit ?m4 12 s) 94 [37, 48, 50, 88, 10]"
    by (rule step_s [OF 4 [THEN conjunct2] s4]) (use l in simp_all)
  let ?m5 = "blit ?m4 12 s"
  let ?c = "hex_field 2 0 (unat c)"
  have 6: "vsn_loop 0 ?L 94 [AWord c] (?m5, 12 + length s) = vsn_loop 0 ?L 98 [] (blit ?m5 (12 + length s) ?c, 14 + length s)
    \<and> is_cstr (blit ?m5 (12 + length s) ?c) 98 [10]"
    by (rule step_02X [OF 5 [THEN conjunct2] w(2)]) (use l in simp_all)
  let ?m6 = "blit ?m5 (12 + length s) ?c"
  have 7: "vsn_loop 0 ?L 98 [] (?m6, 14 + length s) = vsn_loop 0 ?L 99 [] (blit ?m6 (14 + length s) [10], 15 + length s)
    \<and> is_cstr (blit ?m6 (14 + length s) [10]) 99 []"
    by (rule step_char [OF 6 [THEN conjunct2]]) (use l in simp_all)
  have all: "blit ?m6 (14 + length s) [10] = blit m 0 out"
  proof -
    have "out = [83] @ [51] @ ?h @ ?ad @ s @ ?c @ [10]" by (simp add: out_def)
    then show ?thesis by (simp only: blit_append length_hex_field list.size) (simp add: numeral_2_eq_2 eval_nat_numeral del: blit.simps)
  qed
  have "vsn_loop 0 ?L 81 [AWord len, AWord a, APtr (Some 48), AWord c] (m, 0) = Some ([], (blit m 0 out, 15 + length s))"
    unfolding 1 [THEN conjunct1] 2 [THEN conjunct1] 3 [THEN conjunct1] 4 [THEN conjunct1] 5 [THEN conjunct1] 6 [THEN conjunct1]
      7 [THEN conjunct1] vsn_end [OF 7 [THEN conjunct2, unfolded all]] all ..
  moreover have "length out = 15 + length s" by (simp add: out_def)
  then have "blit m 0 (out @ [0]) = (blit m 0 out)[15 + length s := 0]" by (simp add: blit_snoc)
  ultimately show ?thesis
    using l by (simp add: sprintf_def vsprintf_def vsnprintf_internal_def ADDCH_def mem_simps)
qed

section \<open>The text of an image\<close>

definition block :: "space \<Rightarrow> u32 \<Rightarrow> nat \<Rightarrow> bytes" where
  "block d a n = map (\<lambda>i. d (a + of_nat i)) [0..<n]"

lemma length_block [simp]: "length (block d a n) = n"
  by (simp add: block_def)

lemma block_add: "block d a (n + k) = block d a n @ block d (a + of_nat n) k"
  by (rule nth_equalityI) (auto simp: block_def nth_append add.assoc simp flip: of_nat_add)

function records :: "u32 \<Rightarrow> bytes \<Rightarrow> bytes" where
  "records a bs = (if bs = [] then []
     else s3_line a (take 16 bs) @ 10 # records (a + of_nat (length (take 16 bs))) (drop 16 bs))"
  by pat_completeness auto
termination by (relation "measure (\<lambda>(a, bs). length bs)") (auto simp: neq_Nil_conv)

declare records.simps [simp del]

lemma records_Nil [simp]: "records a [] = []"
  by (simp add: records.simps)

text \<open>All \<^verbatim>\<open>saves\<close> sends for the bytes \<open>bs\<close> from \<open>a\<close> on.\<close>

definition srec_image :: "u32 \<Rightarrow> bytes \<Rightarrow> bytes" where
  "srec_image a bs = SREC3_START @ records a bs @ SREC3_END"

section \<open>\<^verbatim>\<open>saves\<close>\<close>

lemma put_string_ok: "is_cstr m p s \<Longrightarrow> put_string m p st = Some (print s st)"
proof (induction s arbitrary: p st)
  case Nil
  then show ?case by (subst put_string.simps) (simp add: mem_simps print_def)
next
  case (Cons c s)
  then show ?case by (subst put_string.simps) (simp add: mem_simps putc_def print_def)
qed

lemma write_record_ok:
  "is_cstr m p s \<Longrightarrow> write_record ctrlc m p st = Some (if ctrlc (polls st) then -1 else 0, polled True (print s st))"
  by (simp add: write_record_def put_string_ok)

definition printed :: "bytes \<Rightarrow> loader \<Rightarrow> loader \<Rightarrow> bool" where
  "printed bs s s' \<longleftrightarrow> (\<exists>k. s' = (print bs s)\<lparr>polls := k\<rparr>)"

lemma printed_trans: "printed xs s s1 \<Longrightarrow> printed ys s1 s2 \<Longrightarrow> printed (xs @ ys) s s2"
  by (auto simp: printed_def print_def)

lemma printed_refl: "printed [] s s"
  unfolding printed_def by (rule exI [of _ "polls s"]) (simp add: print_def)

lemma printed_polled: "printed bs s (polled True (print bs s))"
  by (auto simp: printed_def polled_def)

lemma printed_phys: "printed bs s s' \<Longrightarrow> phys s' = phys s"
  by (auto simp: printed_def print_def)

lemma hexd_digits: "k < 16 \<Longrightarrow> hexd 0 k = digits ! k"
  by (simp add: hexd_def)

lemma nibble_low: "unat (c AND 0x0f :: u8) = unat c mod 16"
proof -
  have "unat (c AND mask 4) = take_bit 4 (unat c)" by (simp only: take_bit_eq_mask [symmetric] unsigned_take_bit_eq)
  then show ?thesis by (simp add: mask_eq_exp_minus_1 take_bit_eq_mod)
qed

lemma nibble_high: "unat (drop_bit 4 c AND 0x0f :: u8) = unat c div 16"
proof -
  have "unat (drop_bit 4 c AND 0x0f) = unat (drop_bit 4 c) mod 16" by (rule nibble_low)
  also have "unat (drop_bit 4 c) = unat c div 16" by (simp only: unat_drop_bit_eq) (simp add: drop_bit_eq_div)
  finally show ?thesis using unat_byte [of c] by simp
qed

lemma hex2_nibbles: "hex2 c = [digits ! unat (drop_bit 4 c AND 0x0f), digits ! unat (c AND 0x0f)]"
proof -
  have h: "unat c div 16 < 16" "unat c mod 16 < 16" using unat_byte [of c] by auto
  show ?thesis unfolding hex2_digits nibble_low [of c] nibble_high [of c] hexd_digits [OF h(1)] hexd_digits [OF h(2)] ..
qed

lemma hexs_clean: "set (hexs bs) \<inter> {0, 3, 10, 13} = {}"
proof (induction bs)
  case (Cons b bs)
  have "hexd 0 (unat b div 16) \<notin> {0, 3, 10, 13}" "hexd 0 (unat b mod 16) \<notin> {0, 3, 10, 13}"
    using unat_byte [of b] by (intro hexd_printable; simp)+
  then show ?case using Cons by (auto simp: hex2_digits)
qed simp

text \<open>The variables of the loop when \<open>bs\<close> has been collected for the record that starts at \<open>saddr v\<close>.\<close>

definition save_inv :: "space \<Rightarrow> save_vars \<Rightarrow> bytes \<Rightarrow> bool" where
  "save_inv d v bs \<longleftrightarrow> length (locals v) = 100 \<and> is_cstr (locals v) 81 SREC3_FORMAT \<and> reclen v = length bs \<and>
     bs = block d (saddr v) (length bs) \<and> checksum v = sum_list (map ucast bs) \<and> slice (locals v) 48 (2 * length bs) = hexs bs"

lemma slice_snoc_blit:
  assumes "slice m p (length s) = s" "0 \<notin> set s" "0 \<notin> set t" "p + length s + length t < length m"
  shows "is_cstr (blit m (p + length s) (t @ [0])) p (s @ t)"
proof -
  let ?m = "blit m (p + length s) (t @ [0])"
  have "slice ?m p (length s + (length t + 1)) = slice ?m p (length s) @ slice ?m (p + length s) (length t + 1)"
    by (rule slice_append)
  also have "slice ?m p (length s) = s" using assms(1) by (subst slice_blit_other) auto
  also have "slice ?m (p + length s) (length t + 1) = t @ [0]"
    using slice_blit_same [of "p + length s" "t @ [0]" m] assms(4) by simp
  finally show ?thesis using assms by (simp add: is_cstr_iff)
qed

lemma collect_ok:
  assumes inv: "save_inv d v bs" and n: "scount v \<noteq> 0" "length bs < 16"
  defines "c \<equiv> d (saddr v + of_nat (length bs))"
  shows "\<exists>v'. collect d v = Some v' \<and> save_inv d v' (bs @ [c]) \<and> is_cstr (locals v') 48 (hexs (bs @ [c])) \<and>
    scount v' = scount v - 1 \<and> saddr v' = saddr v"
proof -
  let ?m = "blit (locals v) (48 + 2 * length bs) (hex2 c @ [0])"
  let ?v = "v\<lparr>checksum := checksum v + ucast c, locals := ?m, reclen := Suc (reclen v), scount := scount v - 1\<rparr>"
  have l: "length (locals v) = 100" "reclen v = length bs" using inv by (auto simp: save_inv_def)
  have "collect d v = Some ?v"
    using n l by (simp add: collect_def DATA_AT_def mem_simps hex2_nibbles c_def Let_def)
  moreover have z: "0 \<notin> set (hexs xs)" for xs using hexs_clean [of xs] by auto
  then have "0 \<notin> set (hex2 c)" using z [of "[c]"] by simp
  then have s: "is_cstr ?m 48 (hexs (bs @ [c]))"
    using slice_snoc_blit [of "locals v" 48 "hexs bs" "hex2 c"] inv n(2) z [of bs] l(1) by (simp add: save_inv_def)
  moreover have "save_inv d ?v (bs @ [c])"
  proof -
    have "is_cstr ?m 81 SREC3_FORMAT" using inv n(2) by (subst is_cstr_blit) (auto simp: save_inv_def)
    moreover have "slice ?m 48 (2 * length (bs @ [c])) = hexs (bs @ [c])"
    proof -
      have "take (2 * length (bs @ [c])) (slice ?m 48 (Suc (length (hexs (bs @ [c]))))) = hexs (bs @ [c])"
        using s unfolding is_cstr_iff by simp
      then show ?thesis by (simp add: slice_def min_def)
    qed
    moreover have "block d (saddr v) (length bs + 1) = bs @ [c]"
      unfolding block_add using inv by (simp add: save_inv_def) (simp add: block_def c_def)
    moreover have "checksum v + ucast c = sum_list (map ucast (bs @ [c]))" using inv by (simp add: save_inv_def)
    ultimately show ?thesis using l by (simp add: save_inv_def)
  qed
  ultimately show ?thesis by auto
qed

lemma s3_line_printed:
  assumes "length bs \<le> 16"
  shows "[83, 51] @ hex_field 2 0 (unat (of_nat (4 + length bs + 1) :: u32)) @ hex_field 8 0 (unat a) @ hexs bs @
    hex_field 2 0 (unat (record_checksum (sum_list (map ucast bs)) (of_nat (4 + length bs + 1)) a)) @ [10] = s3_line a bs @ [10]"
proof -
  have "unat (of_nat (4 + length bs + 1) :: u32) = length bs + 5" using assms by (subst unat_small) auto
  moreover have "unat (of_nat (length bs + 5) :: u8) = length bs + 5"
    using assms by (subst unsigned_of_nat) (simp add: take_bit_nat_eq_self)
  ultimately have e: "hex_field 2 0 (unat (of_nat (4 + length bs + 1) :: u32)) = hex2 (of_nat (length bs + 5))"
    by (simp only: hex2_def)
  show ?thesis
    unfolding e record_checksum_chk(1) [OF assms] hex_field_8 by (simp add: s3_line_def byte_of_def)
qed

lemma s3_line_clean: "set (s3_line a bs) \<inter> {0, 3, 10, 13} = {}"
  using hexs_clean [of "[of_nat (length bs + 5)] @ be32 a @ bs @ [chk a bs]"] by (simp add: s3_line_def byte_of_def)

lemma length_s3_line [simp]: "length (s3_line a bs) = 14 + 2 * length bs"
  by (simp add: s3_line_def del: hexs_simps)

lemma dump_ok:
  assumes inv: "save_inv d v bs" and cs: "is_cstr (locals v) 48 (hexs bs)" and n: "0 < length bs" "length bs \<le> 16"
    and full: "length bs = 16 \<or> scount v = 0" and nc: "\<And>k. \<not> ctrlc k"
  shows "\<exists>v' s'. dump ctrlc v s = Some (0, v', s') \<and> save_inv d v' [] \<and> scount v' = scount v \<and>
    saddr v' = saddr v + of_nat (length bs) \<and> printed (s3_line (saddr v) bs @ [10]) s s'"
proof -
  let ?len = "of_nat (4 + length bs + 1) :: u32"
  let ?L = "s3_line (saddr v) bs @ [10]"
  let ?m = "blit (locals v) 0 (?L @ [0])"
  have l: "length (locals v) = 100" "is_cstr (locals v) 81 SREC3_FORMAT" "reclen v = length bs"
    "checksum v = sum_list (map ucast bs)" using inv by (auto simp: save_inv_def)
  have len: "unat ?len < 256" using n by (subst unat_small) auto
  have e: "length (hexs bs) \<le> 32" using n by simp
  have sp: "sprintf 0 81 [AWord ?len, AWord (saddr v), APtr (Some 48), AWord (record_checksum (sum_list (map ucast bs)) ?len (saddr v))]
      (locals v) = Some (int (length (hexs bs) + 15), ?m)"
    using sprintf_s3 [OF l(2) cs e l(1) len record_checksum_chk(2) [OF n(2)], of "saddr v"]
    by (simp only: s3_line_printed [OF n(2)])
  have z: "0 \<notin> set ?L" using s3_line_clean [of "saddr v" bs] by auto
  have "is_cstr ?m 0 ?L" using is_cstr_blit_same [OF z, of 0 "locals v"] l n by simp
  note wr = write_record_ok [OF this, of ctrlc s]
  let ?v = "v\<lparr>locals := ?m, saddr := saddr v + of_nat (length bs), checksum := 0, reclen := 0\<rparr>"
  have "dump ctrlc v s = Some (0, ?v, polled True (print ?L s))"
    unfolding dump_def Let_def l(3,4) DATA_AT_def FORMAT_AT_def SREC_BYTES_PER_RECORD_def
    using full n nc by (simp add: sp [simplified] wr [simplified])
  moreover have "is_cstr ?m 81 SREC3_FORMAT" using l n by (subst is_cstr_blit) auto
  then have "save_inv d ?v []" using l by (simp add: save_inv_def block_def)
  ultimately show ?thesis using printed_polled [of ?L s] by auto
qed

lemma records_step:
  assumes "length xs = 16 \<or> ys = []" "0 < length xs" "length xs \<le> 16"
  shows "records a (xs @ ys) = (s3_line a xs @ [10]) @ records (a + of_nat (length xs)) ys"
  using assms by (subst records.simps) auto

lemma save_loop_ok:
  assumes nc: "\<And>k. \<not> ctrlc k"
  shows "save_inv (phys s) v bs \<Longrightarrow> length bs < 16 \<Longrightarrow> scount v \<noteq> 0 \<Longrightarrow>
    \<exists>v' s'. save_loop ctrlc v s = Some (0, v', s') \<and>
      printed (records (saddr v) (bs @ block (phys s) (saddr v + of_nat (length bs)) (unat (scount v)))) s s'"
proof (induction "unat (scount v)" arbitrary: v s bs rule: less_induct)
  case less
  let ?c = "phys s (saddr v + of_nat (length bs))"
  let ?bs = "bs @ [?c]"
  from collect_ok [OF less.prems(1,3,2)] obtain v1 where v1: "collect (phys s) v = Some v1" "save_inv (phys s) v1 ?bs"
    "is_cstr (locals v1) 48 (hexs ?bs)" "scount v1 = scount v - 1" "saddr v1 = saddr v" by blast
  have n: "unat (scount v1) = unat (scount v) - 1" "0 < unat (scount v)"
    using less.prems(3) v1(4) by (auto simp: unat_minus_one unat_gt_0)
  have blk: "block (phys s) (saddr v + of_nat (length bs)) (unat (scount v)) =
      ?c # block (phys s) (saddr v + of_nat (length ?bs)) (unat (scount v1))"
    using block_add [of "phys s" "saddr v + of_nat (length bs)" 1 "unat (scount v) - 1"] n
    by (simp add: block_def [of _ _ "Suc 0"] algebra_simps)
  show ?case
  proof (cases "length ?bs = 16 \<or> scount v1 = 0")
    case True
    from dump_ok [OF v1(2,3) _ _ True, where s = s and ctrlc = ctrlc] nc less.prems(2) obtain v2 s2 where v2: "dump ctrlc v1 s = Some (0, v2, s2)"
      "save_inv (phys s) v2 []" "scount v2 = scount v1" "saddr v2 = saddr v + of_nat (length ?bs)"
      "printed (s3_line (saddr v) ?bs @ [10]) s s2" using v1(5) by auto
    have R: "records (saddr v) (?bs @ block (phys s) (saddr v + of_nat (length ?bs)) (unat (scount v1))) =
        (s3_line (saddr v) ?bs @ [10]) @ records (saddr v2) (block (phys s) (saddr v2) (unat (scount v2)))"
      using True less.prems(2) unfolding v2(3,4) by (intro records_step) (auto simp: block_def)
    show ?thesis
    proof (cases "scount v1 = 0")
      case True
      then have "save_loop ctrlc v s = Some (0, v2, s2)" using v1(1) v2 by (subst save_loop.simps) simp
      then show ?thesis using R v2 blk True by (auto simp: block_def)
    next
      case False
      have lt: "unat (scount v2) < unat (scount v)" using n v2(3) by simp
      from less.hyps [OF lt, of s2 "[]"] False v2(2,3) obtain v' s' where h: "save_loop ctrlc v2 s2 = Some (0, v', s')"
        "printed (records (saddr v2) (block (phys s) (saddr v2) (unat (scount v2)))) s2 s'"
        using printed_phys [OF v2(5)] by auto
      have "save_loop ctrlc v s = Some (0, v', s')" using v1(1) v2 h False by (subst save_loop.simps) simp
      then show ?thesis using printed_trans [OF v2(5) h(2)] R blk by auto
    qed
  next
    case False
    have d: "dump ctrlc v1 s = Some (0, v1, s)"
      using False v1(2) by (simp add: dump_def SREC_BYTES_PER_RECORD_def save_inv_def)
    have "\<exists>v' s'. save_loop ctrlc v1 s = Some (0, v', s') \<and>
        printed (records (saddr v1) (?bs @ block (phys s) (saddr v1 + of_nat (length ?bs)) (unat (scount v1)))) s s'"
      using False v1(2) n less.prems(2) by (intro less.hyps [of v1 s ?bs]) auto
    then show ?thesis using v1(1,5) d False blk by (subst save_loop.simps) auto
  qed
qed

lemma save_serial_ok:
  assumes nc: "\<And>k. \<not> ctrlc k" and l: "length rec = 48" "length dat = 33"
  shows "\<exists>s'. save_serial ctrlc rec dat address count s = Some (0, s') \<and>
    printed (srec_image address (block (phys s) address (unat count))) s s'"
proof -
  have h: "is_cstr (SREC3_START @ [0]) 0 SREC3_START" "is_cstr (SREC3_END @ [0]) 0 SREC3_END"
    by (simp_all add: SREC3_START_def SREC3_END_def byte_of_def)
  let ?s1 = "polled True (print SREC3_START s)"
  let ?v = "\<lparr>saddr = address, scount = count, reclen = 0, checksum = 0, locals = save_locals rec dat\<rparr>"
  have f: "length SREC3_FORMAT = 18" "0 \<notin> set SREC3_FORMAT" by (simp_all add: format_bytes)
  have "is_cstr (save_locals rec dat) 81 SREC3_FORMAT"
    using l f by (simp add: is_cstr_iff save_locals_def slice_def)
  then have inv: "save_inv (phys ?s1) ?v []" using l f by (simp add: save_inv_def save_locals_def block_def)
  have "\<exists>v' s2. save_loop ctrlc ?v ?s1 = Some (0, v', s2) \<and> printed (records address (block (phys s) address (unat count))) ?s1 s2"
  proof (cases "count = 0")
    case True
    have "save_loop ctrlc ?v ?s1 = Some (0, ?v\<lparr>saddr := address, checksum := 0, reclen := 0\<rparr>, ?s1)"
      by (subst save_loop.simps) (simp add: True collect_def dump_def)
    then show ?thesis using True printed_refl [of ?s1] by (auto simp: block_def)
  next
    case False
    then show ?thesis using save_loop_ok [OF nc inv] by auto
  qed
  then obtain v' s2 where s2: "save_loop ctrlc ?v ?s1 = Some (0, v', s2)"
    "printed (records address (block (phys s) address (unat count))) ?s1 s2" by blast
  let ?s3 = "polled True (print SREC3_END s2)"
  have "save_serial ctrlc rec dat address count s = Some (0, ?s3)"
    using nc s2(1) by (simp add: save_serial_def write_record_ok [OF h(1)] write_record_ok [OF h(2)])
  moreover have "printed (SREC3_START @ records address (block (phys s) address (unat count)) @ SREC3_END) s ?s3"
    by (rule printed_trans [OF printed_polled printed_trans [OF s2(2) printed_polled]])
  ultimately show ?thesis by (auto simp: srec_image_def)
qed

end
