(* ===== verification/SrecLoad.thy ===== *)
theory SrecLoad
  imports SrecProps EnvProps
begin

text \<open>
  The properties of \<^verbatim>\<open>loads\<close>: lines of a transfer are read, decoded and stored one by one, the transfer \<^verbatim>\<open>saves\<close> prints
  is loaded back to the same bytes, and the decoder stays inside its buffers on any line.
\<close>

section \<open>\<^verbatim>\<open>loads\<close>\<close>

lemma read_loop_line:
  "inp s = L @ 10 # rest \<Longrightarrow> set L \<inter> {0, 3, 10, 13} = {} \<Longrightarrow> p + length L < len \<Longrightarrow> len \<le> length buf \<Longrightarrow>
   \<exists>s'. read_loop e False c len p buf s = Some (Done (int (p + length L), blit buf p (L @ [0]), s')) \<and>
     inp s' = rest \<and> phys s' = phys s \<and> genv s' = genv s"
proof (induction L arbitrary: p buf s)
  case Nil
  then show ?case by (subst read_loop.simps) (simp add: Let_def mem_simps)
next
  case (Cons x L)
  let ?s = "polled False (echo e x (s\<lparr>inp := L @ 10 # rest\<rparr>))"
  have "\<exists>s'. read_loop e False c len (Suc p) (buf[p := x]) ?s = Some (Done (int (Suc p + length L), blit (buf[p := x]) (Suc p) (L @ [0]), s')) \<and>
     inp s' = rest \<and> phys s' = phys ?s \<and> genv s' = genv ?s"
    by (rule Cons.IH) (use Cons.prems in auto)
  then show ?case using Cons.prems by (subst read_loop.simps) (simp add: Let_def mem_simps)
qed

definition load_wf :: "load_vars \<Rightarrow> bool" where
  "load_wf v \<longleftrightarrow> length (recbuf v) = 517 \<and> length (binbuf v) = 255"

lemma read_record_line:
  assumes "inp s = L @ 10 # rest" "set L \<inter> {0, 3, 10, 13} = {}" "length L < 516" "length buf = 517"
  shows "\<exists>s'. read_record e False c buf (SREC_MAXRECLEN + 1) s = Some (Done (int (length L), blit buf 0 (L @ [0]), s')) \<and>
     inp s' = rest \<and> phys s' = phys s \<and> genv s' = genv s \<and> is_cstr (blit buf 0 (L @ [0])) 0 L"
proof -
  have "0 \<notin> set L" using assms(2) by auto
  then have "is_cstr (blit buf 0 (L @ [0])) 0 L" using assms(3,4) by (intro is_cstr_blit_same) auto
  then show ?thesis using read_loop_line [OF assms(1,2), of 0 516 buf e c] assms(3,4)
    by (auto simp: read_record_def SREC_MAXRECLEN_def)
qed

text \<open>One line through the loop: \<open>after_line\<close> is the body of the loop once the record \<open>r\<close> has been read.\<close>

definition after_line :: "board \<Rightarrow> bool \<Rightarrow> u32 \<Rightarrow> load_vars \<Rightarrow> mem \<Rightarrow> loader \<Rightarrow> (u32 \<times> loader) io option" where
  "after_line bd e offset v r s1 = do {
      (typ, binlen', raddr', binbuf') \<leftarrow> srec_decode r 0 (binlen v) (raddr v) (binbuf v);
      let v1 = v\<lparr>recbuf := r, binlen := binlen', raddr := raddr', binbuf := binbuf'\<rparr>;
      if typ < 0 then Some (Done (- 1, s1))
      else if typ \<in> {SREC_DATA2, SREC_DATA3, SREC_DATA4} then do {
        (rc, s2) \<leftarrow> load_store bd offset v1 s1;
        if rc \<noteq> 0 then Some (Done (- 1, print (flash_perror rc) s2))
        else load_loop bd e offset (count_line e (note_range offset v1)) (dot e v1 s2) }
      else if typ \<in> {SREC_END2, SREC_END3, SREC_END4} then map_option Done (load_end v1 s1)
      else load_loop bd e offset (count_line e v1) (dot e v1 s1) }"

lemma load_loop_line:
  assumes v: "load_wf v" and bd: "\<not> redir bd" and s: "inp s = L @ 10 # rest" "set L \<inter> {0, 3, 10, 13} = {}" "length L < 516"
  shows "\<exists>r s1. is_cstr r 0 L \<and> length r = 517 \<and> inp s1 = rest \<and> phys s1 = phys s \<and> genv s1 = genv s \<and>
    load_loop bd e offset v s = after_line bd e offset v r s1"
proof -
  have l: "length (recbuf v) = 517" using v by (simp add: load_wf_def)
  from read_record_line [OF s l, of e "ctrlc_at bd"] obtain s1 where
    s1: "read_record e False (ctrlc_at bd) (recbuf v) (SREC_MAXRECLEN + 1) s =
        Some (Done (int (length L), blit (recbuf v) 0 (L @ [0]), s1))"
      "inp s1 = rest" "phys s1 = phys s" "genv s1 = genv s" "is_cstr (blit (recbuf v) 0 (L @ [0])) 0 L" by blast
  show ?thesis
    by (rule exI [of _ "blit (recbuf v) 0 (L @ [0])"], rule exI [of _ s1])
      (use s1 l bd in \<open>subst load_loop.simps, simp add: after_line_def\<close>)
qed

lemma load_start:
  assumes v: "load_wf v" and bd: "\<not> redir bd" and s: "inp s = SREC3_START @ rest"
  shows "\<exists>v' s'. load_loop bd e offset v s = load_loop bd e offset v' s' \<and> load_wf v' \<and> inp s' = rest \<and> phys s' = phys s \<and>
    genv s' = genv s \<and> start_addr v' = start_addr v \<and> end_addr v' = end_addr v"
proof -
  let ?L = "bytes_of ''S0030000FC''"
  have L: "?L = 83 # 48 # hex2 3 @ hexs [0, 0] @ hexs [] @ hex2 0xFC"
    by (simp add: byte_of_def hex2_digits hexd_def digits_def)
  have s': "inp s = ?L @ 10 # rest" using s by (simp add: SREC3_START_def)
  have clean: "set ?L \<inter> {0, 3, 10, 13} = {}" by (simp add: byte_of_def)
  from load_loop_line [OF v bd s' clean, of e offset] obtain r s1 where r: "is_cstr r 0 ?L" "length r = 517"
    "inp s1 = rest" "phys s1 = phys s" "genv s1 = genv s" and
    step: "load_loop bd e offset v s = after_line bd e offset v r s1" by auto
  have dec: "srec_decode r 0 (binlen v) (raddr v) (binbuf v) = Some (SREC_START, 0, 0, binbuf v)"
    using srec_decode_hexs [OF r(1) [unfolded L], of SREC_START "binbuf v" "binlen v" "raddr v"]
    by (simp add: record_type_def byte_of_def)
  let ?v = "v\<lparr>recbuf := r, binlen := 0, raddr := 0\<rparr>"
  have "load_loop bd e offset v s = load_loop bd e offset (count_line e ?v) (dot e ?v s1)"
    unfolding step by (simp add: after_line_def dec srec_codes Let_def)
  moreover have "load_wf (count_line e ?v)" using v r(2) by (simp add: load_wf_def count_line_def)
  ultimately show ?thesis using r by (intro exI [of _ "count_line e ?v"] exI [of _ "dot e ?v s1"]) (simp add: count_line_def)
qed

lemma load_s3:
  assumes v: "load_wf v" and bd: "\<not> redir bd" and s: "inp s = (s3_line a bs @ [10]) @ rest" and n: "length bs \<le> 16"
    and ram: "addr2info (fbanks bd) (a + offset) = Some None"
  shows "\<exists>v' s'. load_loop bd e offset v s = load_loop bd e offset v' s' \<and> load_wf v' \<and> inp s' = rest \<and>
    phys s' = stored (phys s) (a + offset) bs \<and> genv s' = genv s \<and>
    start_addr v' = min (start_addr v) (a + offset) \<and> end_addr v' = max (end_addr v) (a + offset + of_nat (length bs) - 1)"
proof -
  have s': "inp s = s3_line a bs @ 10 # rest" using s by simp
  have len: "length (s3_line a bs) < 516" using n by simp
  from load_loop_line [OF v bd s' s3_line_clean len, of e offset] obtain r s1 where r: "is_cstr r 0 (s3_line a bs)" "length r = 517"
    "inp s1 = rest" "phys s1 = phys s" "genv s1 = genv s" "load_loop bd e offset v s = after_line bd e offset v r s1" by auto
  have lb: "length bs \<le> length (binbuf v)" "length (binbuf v) = 255" using v n by (auto simp: load_wf_def)
  have n250: "length bs \<le> 250" using n by simp
  note dec = srec_decode_s3 [OF r(1) n250 lb(1), of "binlen v" "raddr v"]
  let ?v = "v\<lparr>recbuf := r, binlen := int (length bs), raddr := a, binbuf := blit (binbuf v) 0 bs\<rparr>"
  let ?s = "s1\<lparr>phys := stored (phys s1) (a + offset) bs\<rparr>"
  have "take (length bs) (blit (binbuf v) 0 bs) = bs" using slice_blit_same [of 0 bs "binbuf v"] lb by (simp add: slice_def)
  moreover have "unat (of_nat (length bs) :: u32) = length bs" using n by (subst unat_small) auto
  ultimately have st: "load_store bd offset ?v s1 = Some (0, ?s)"
    using ram lb by (simp add: load_store_def Let_def)
  let ?v' = "count_line e (note_range offset ?v)"
  have "load_loop bd e offset v s = load_loop bd e offset ?v' (dot e ?v ?s)"
    unfolding r(6) by (simp add: after_line_def dec srec_codes st Let_def)
  moreover have "load_wf ?v'" using r(2) lb by (simp add: load_wf_def count_line_def note_range_def Let_def)
  moreover have "start_addr ?v' = min (start_addr v) (a + offset) \<and> end_addr ?v' = max (end_addr v) (a + offset + of_nat (length bs) - 1)"
    by (auto simp: count_line_def note_range_def Let_def min_def max_def)
  ultimately show ?thesis using r by (intro exI [of _ ?v'] exI [of _ "dot e ?v ?s"]) simp
qed

lemma last_mono_word:
  fixes b :: u32
  assumes "0 < n" "n \<le> k" "k < 2 ^ 32" "unat b + k \<le> 2 ^ 32"
  shows "b + of_nat n - 1 \<le> b + of_nat k - 1"
proof -
  have u: "unat (of_nat n :: u32) = n" "unat (of_nat k :: u32) = k" using assms by (auto intro: unat_small)
  have "unat (b + of_nat n - 1) = unat b + n - 1"
    using unat_last [of "of_nat n" b] assms u by (simp add: of_nat_zero_small)
  moreover have "unat (b + of_nat k - 1) = unat b + k - 1"
    using unat_last [of "of_nat k" b] assms u by (simp add: of_nat_zero_small)
  ultimately show ?thesis using assms by (simp add: word_le_nat_alt)
qed

lemma unat_plus_small:
  fixes b :: u32
  assumes "n < 2 ^ 32" "unat b + n < 2 ^ 32"
  shows "unat (b + of_nat n) = unat b + n"
  using assms unat_small [OF assms(1)] by (subst unat_add_lem [THEN iffD1]) auto

text \<open>The address range that is left after the first \<open>k\<close> bytes.\<close>

lemma rest_of_range:
  fixes b :: u32
  assumes "0 < k" "0 < n" "k + n < 2 ^ 32" "unat b + (k + n) \<le> 2 ^ 32"
  shows "unat (b + of_nat k) = unat b + k"
    and "unat (x - (b + of_nat k)) < n \<Longrightarrow> unat (x - b) < k + n"
    and "b \<le> b + of_nat k"
    and "b + of_nat k - 1 \<le> b + of_nat (k + n) - 1"
proof -
  have k: "k < 2 ^ 32" using assms by linarith
  show *: "unat (b + of_nat k) = unat b + k" using k assms by (intro unat_plus_small) auto
  show "b \<le> b + of_nat k" by (simp add: word_le_nat_alt *)
  show "b + of_nat k - 1 \<le> b + of_nat (k + n) - 1" using assms by (intro last_mono_word) auto
  assume x: "unat (x - (b + of_nat k)) < n"
  have "unat ((x - (b + of_nat k)) + of_nat k) = unat (x - (b + of_nat k)) + k"
    using x k assms(3) by (intro unat_plus_small) auto
  moreover have "(x - (b + of_nat k)) + of_nat k = x - b" by simp
  ultimately show "unat (x - b) < k + n" using x by simp
qed

lemma records_cons:
  assumes "bs \<noteq> []"
  obtains xs ys where "bs = xs @ ys" "xs \<noteq> []" "length xs \<le> 16"
    "records a bs = (s3_line a xs @ [10]) @ records (a + of_nat (length xs)) ys"
proof
  show "bs = take 16 bs @ drop 16 bs" by simp
  show "take 16 bs \<noteq> []" using assms by simp
  show "length (take 16 bs) \<le> 16" by simp
  show "records a bs = (s3_line a (take 16 bs) @ [10]) @ records (a + of_nat (length (take 16 bs))) (drop 16 bs)"
    using assms by (subst records.simps) simp
qed

definition takes :: "board \<Rightarrow> bool \<Rightarrow> u32 \<Rightarrow> load_vars \<Rightarrow> loader \<Rightarrow> u32 \<Rightarrow> bytes \<Rightarrow> bytes \<Rightarrow> load_vars \<Rightarrow> loader \<Rightarrow> bool" where
  "takes bd e offset v s b bs rest v' s' \<longleftrightarrow>
     load_loop bd e offset v s = load_loop bd e offset v' s' \<and> load_wf v' \<and> inp s' = rest \<and>
     phys s' = stored (phys s) b bs \<and> genv s' = genv s \<and>
     start_addr v' = min (start_addr v) b \<and> end_addr v' = max (end_addr v) (b + of_nat (length bs) - 1)"

lemma takes_append:
  assumes "takes bd e offset v s b xs r v1 s1" "takes bd e offset v1 s1 (b + of_nat (length xs)) ys rest v2 s2"
    "xs \<noteq> []" "ys \<noteq> []" "length xs + length ys < 2 ^ 32" "unat b + (length xs + length ys) \<le> 2 ^ 32"
  shows "takes bd e offset v s b (xs @ ys) rest v2 s2"
proof -
  have pos: "0 < length xs" "0 < length ys" using assms(3,4) by auto
  note r = rest_of_range [OF pos assms(5,6)]
  have st: "stored (stored (phys s) b xs) (b + of_nat (length xs)) ys = stored (phys s) b (xs @ ys)"
    by (rule stored_append) (use assms(5) in simp)
  have e: "b + of_nat (length xs) + of_nat (length ys) - 1 = b + of_nat (length xs + length ys) - 1" by simp
  have mx: "max (max E (b + of_nat (length xs) - 1)) (b + of_nat (length xs + length ys) - 1) =
      max E (b + of_nat (length xs + length ys) - 1)" for E
    using r(4) by (simp only: max.assoc max_absorb2)
  have mn: "min (min S b) (b + of_nat (length xs)) = min S b" for S
    using r(3) by (simp only: min.assoc min_absorb1)
  show ?thesis
    using assms(1,2) unfolding takes_def e length_append
    by (simp only: st mx mn simp_thms)
qed

lemma load_records:
  assumes bd: "\<not> redir bd"
  shows "load_wf v \<Longrightarrow> inp s = records a bs @ rest \<Longrightarrow> \<forall>x. unat (x - (a + offset)) < length bs \<longrightarrow> addr2info (fbanks bd) x = Some None \<Longrightarrow>
    unat (a + offset) + length bs \<le> 2 ^ 32 \<Longrightarrow> length bs < 2 ^ 32 \<Longrightarrow> bs \<noteq> [] \<Longrightarrow>
    \<exists>v' s'. takes bd e offset v s (a + offset) bs rest v' s'"
proof (induction "length bs" arbitrary: a bs v s rule: less_induct)
  case less
  obtain xs ys where bs: "bs = xs @ ys" "xs \<noteq> []" "length xs \<le> 16"
    and R: "records a bs = (s3_line a xs @ [10]) @ records (a + of_nat (length xs)) ys"
    using records_cons [OF less.prems(6)] by blast
  have ram: "addr2info (fbanks bd) (a + offset) = Some None"
    using less.prems(3) bs(1,2) by (simp add: less.prems(3))
  have L: "inp s = (s3_line a xs @ [10]) @ (records (a + of_nat (length xs)) ys @ rest)"
    using less.prems(2) unfolding R by (simp only: append_assoc)
  from load_s3 [OF less.prems(1) bd L bs(3) ram, of e] obtain v1 s1 where
    1: "takes bd e offset v s (a + offset) xs (records (a + of_nat (length xs)) ys @ rest) v1 s1"
    unfolding takes_def by blast
  show ?case
  proof (cases "ys = []")
    case True
    then show ?thesis using 1 bs(1) by (intro exI [of _ v1] exI [of _ s1]) simp
  next
    case False
    have pos: "0 < length xs" "0 < length ys" using bs(2) False by auto
    have small: "length xs + length ys < 2 ^ 32" "unat (a + offset) + (length xs + length ys) \<le> 2 ^ 32"
      using less.prems(4,5) bs(1) by auto
    note r = rest_of_range [OF pos small]
    have b: "a + of_nat (length xs) + offset = a + offset + of_nat (length xs)" by simp
    have "\<exists>v' s'. takes bd e offset v1 s1 (a + of_nat (length xs) + offset) ys rest v' s'"
    proof (rule less.hyps)
      show "length ys < length bs" using pos bs(1) by simp
      show "load_wf v1" "inp s1 = records (a + of_nat (length xs)) ys @ rest" using 1 by (simp_all add: takes_def)
      show "\<forall>x. unat (x - (a + of_nat (length xs) + offset)) < length ys \<longrightarrow> addr2info (fbanks bd) x = Some None"
        unfolding b using r(2) less.prems(3) bs(1) by (metis length_append)
      show "unat (a + of_nat (length xs) + offset) + length ys \<le> 2 ^ 32" unfolding b r(1) using small(2) by linarith
      show "length ys < 2 ^ 32" using small(1) by linarith
      show "ys \<noteq> []" by (rule False)
    qed
    then obtain v2 s2 where 2: "takes bd e offset v1 s1 (a + offset + of_nat (length xs)) ys rest v2 s2"
      unfolding b by blast
    have "takes bd e offset v s (a + offset) bs rest v2 s2"
      unfolding bs(1) by (rule takes_append [OF 1 2 bs(2) False small])
    then show ?thesis by blast
  qed
qed


lemma range_size:
  fixes b n :: u32
  assumes "0 < k" "k < 2 ^ 32"
  shows "max 0 (b + of_nat k - 1) - min (- 1) b + 1 = of_nat k"
proof -
  have "min (- 1) b = b" using word_n1_ge [of b] by (simp add: min_absorb2)
  then show ?thesis by (simp add: max_def)
qed

text \<open>The variable \<^verbatim>\<open>load_end\<close> sets.\<close>

definition filesize :: bytes where
  "filesize = bytes_of ''filesize''"

lemma filesize_plain: "plain_name filesize"
  by (simp add: filesize_def plain_name_def wf_name_def byte_of_def)

lemma dig_rev_hex_clean: "set (dig_rev 16 (hexd 0) n) \<inter> {0, 3, 10, 13} = {}"
proof (induction n rule: less_induct)
  case (less n)
  have "hexd 0 (n mod 16) \<notin> {0, 3, 10, 13}" by (rule hexd_printable) simp
  then show ?case using less by (subst dig_rev.simps) simp
qed

lemma upper_hex_clean: "0 \<notin> set (upper_hex w)"
  using dig_rev_hex_clean [of "unat w"] by (auto simp: upper_hex_def)

lemma load_end_ok:
  assumes "env_inv (genv s) es" "fits (ENV_SIZE (genv s)) (del_var filesize es @ [(filesize, upper_hex (end_addr v - start_addr v + 1))])"
  shows "\<exists>s'. load_end v s = Some (raddr v, s') \<and> phys s' = phys s \<and> inp s' = inp s \<and>
    env_inv (genv s') (del_var filesize es @ [(filesize, upper_hex (end_addr v - start_addr v + 1))])"
proof -
  let ?h = "upper_hex (end_addr v - start_addr v + 1)"
  have c: "0 \<notin> set x" if "x \<in> set [?h]" for x using that upper_hex_clean by simp
  obtain g where g: "do_setenv_raw [Some (bytes_of ''setenv''), Some filesize, Some ?h] (genv s) = Some (g, 0)"
    "env_inv g (del_var filesize es @ [(filesize, ?h)])"
    using setenv_put [where vals = "[?h]", OF assms(1) filesize_plain _ c, where cmd = "Some (bytes_of ''setenv'')"] assms(2)
    by (auto simp del: bytes_of_Cons)
  have "setenv filesize (Some ?h) (genv s) = Some g"
    unfolding setenv_def g(1) by simp
  then show ?thesis using g(2)
    by (simp add: load_end_def Let_def flip: filesize_def del: bytes_of_Cons)
qed


lemma load_last:
  assumes v: "load_wf v" and bd: "\<not> redir bd" and s: "inp s = SREC3_END @ rest"
    and env: "env_inv (genv s) es"
      "fits (ENV_SIZE (genv s)) (del_var filesize es @ [(filesize, upper_hex (end_addr v - start_addr v + 1))])"
  shows "\<exists>s'. load_loop bd e offset v s = Some (Done (0, s')) \<and> phys s' = phys s \<and> inp s' = rest \<and>
    env_inv (genv s') (del_var filesize es @ [(filesize, upper_hex (end_addr v - start_addr v + 1))])"
proof -
  let ?L = "bytes_of ''S70500000000FA''"
  have L: "?L = 83 # 55 # hex2 5 @ hexs [0, 0, 0, 0] @ hexs [] @ hex2 0xFA"
    by (simp add: byte_of_def hex2_digits hexd_def digits_def)
  have s': "inp s = ?L @ 10 # rest" using s by (simp add: SREC3_END_def)
  have clean: "set ?L \<inter> {0, 3, 10, 13} = {}" by (simp add: byte_of_def)
  from load_loop_line [OF v bd s' clean, of e offset] obtain r s1 where r: "is_cstr r 0 ?L" "inp s1 = rest"
    "phys s1 = phys s" "genv s1 = genv s" "load_loop bd e offset v s = after_line bd e offset v r s1" by auto
  have dec: "srec_decode r 0 (binlen v) (raddr v) (binbuf v) = Some (SREC_END4, 0, 0, binbuf v)"
    using srec_decode_hexs [OF r(1) [unfolded L], of SREC_END4 "binbuf v" "binlen v" "raddr v"]
    by (simp add: record_type_def byte_of_def)
  let ?v = "v\<lparr>recbuf := r, binlen := 0, raddr := 0\<rparr>"
  obtain s2 where s2: "load_end ?v s1 = Some (0, s2)" "phys s2 = phys s1" "inp s2 = inp s1"
    "env_inv (genv s2) (del_var filesize es @ [(filesize, upper_hex (end_addr v - start_addr v + 1))])"
    using load_end_ok [of s1 es ?v] env unfolding r(4) by auto
  have "load_loop bd e offset v s = Some (Done (0, s2))"
    unfolding r(5) by (simp add: after_line_def dec srec_codes s2(1) Let_def)
  then show ?thesis using s2 r(2,3) by auto
qed

lemma load_image:
  assumes wf: "load_wf v" and bd: "\<not> redir bd" and s: "inp s = srec_image a bs @ rest"
    and ram: "\<forall>x. unat (x - (a + offset)) < length bs \<longrightarrow> addr2info (fbanks bd) x = Some None"
    and range: "unat (a + offset) + length bs \<le> 2 ^ 32" "length bs < 2 ^ 32" "bs \<noteq> []"
    and env: "env_inv (genv s) es" "fits (ENV_SIZE (genv s)) (del_var filesize es @ [(filesize, upper_hex (of_nat (length bs)))])"
  shows "\<exists>s'. load_serial bd e offset v s = Some (Done (0, s')) \<and> phys s' = stored (phys s) (a + offset) bs \<and> inp s' = rest \<and>
    env_inv (genv s') (del_var filesize es @ [(filesize, upper_hex (of_nat (length bs)))])"
proof -
  let ?v = "v\<lparr>start_addr := - 1, end_addr := 0, line_count := 0\<rparr>"
  have wf0: "load_wf ?v" using wf by (simp add: load_wf_def)
  have s0: "inp s = SREC3_START @ (records a bs @ SREC3_END @ rest)" using s by (simp only: srec_image_def append_assoc)
  obtain v1 s1 where 1: "load_loop bd e offset ?v s = load_loop bd e offset v1 s1" "load_wf v1"
    "inp s1 = records a bs @ SREC3_END @ rest" "phys s1 = phys s" "genv s1 = genv s" "start_addr v1 = - 1" "end_addr v1 = 0"
    using load_start [OF wf0 bd s0, of e offset] by auto
  obtain v2 s2 where "takes bd e offset v1 s1 (a + offset) bs (SREC3_END @ rest) v2 s2"
    using load_records [OF bd 1(2,3) ram range, of e] by blast
  then have 2: "load_loop bd e offset v1 s1 = load_loop bd e offset v2 s2" "load_wf v2" "inp s2 = SREC3_END @ rest"
    "phys s2 = stored (phys s) (a + offset) bs" "genv s2 = genv s"
    "start_addr v2 = min (- 1) (a + offset)" "end_addr v2 = max 0 (a + offset + of_nat (length bs) - 1)"
    by (simp_all add: takes_def 1)
  have sz: "end_addr v2 - start_addr v2 + 1 = of_nat (length bs)"
    unfolding 2(6,7) using range by (intro range_size) auto
  from load_last [OF 2(2) bd 2(3), of es e offset] obtain s3 where "load_loop bd e offset v2 s2 = Some (Done (0, s3))"
    "phys s3 = phys s2" "inp s3 = rest" "env_inv (genv s3) (del_var filesize es @ [(filesize, upper_hex (of_nat (length bs)))])"
    using env unfolding sz 2(5) by auto
  then show ?thesis using 1(1) 2(1,4) by (auto simp: load_serial_def)
qed

section \<open>Any line\<close>

lemma hex1_bin_range: "- 1 \<le> hex1_bin c \<and> hex1_bin c < 16 \<and> (c = 0 \<longrightarrow> hex1_bin c = - 1)"
  by (simp add: hex1_bin_def byte_of_def word_le_def)

text \<open>A string is read over two digits at a time, and not over its end.\<close>

lemma hex2_bin_total:
  assumes "is_cstr m p s"
  shows "\<exists>v. hex2_bin m p = Some v \<and> v \<le> 255 \<and> (0 \<le> v \<longrightarrow> (\<exists>t. is_cstr m (p + 2) t))"
proof (cases s)
  case Nil
  then show ?thesis using assms hex1_bin_range [of 0] by (simp add: hex2_bin_def Let_def mem_simps)
next
  case (Cons c cs)
  then have c: "rd m p = Some c" "is_cstr m (Suc p) cs" using assms by auto
  show ?thesis
  proof (cases cs)
    case Nil
    then show ?thesis using c hex1_bin_range [of 0] by (simp add: hex2_bin_def Let_def mem_simps)
  next
    case (Cons d ds)
    then have d: "rd m (Suc p) = Some d" "is_cstr m (p + 2) ds" using c by auto
    have "hex1_bin c * 16 + hex1_bin d \<le> 255" using hex1_bin_range [of c] hex1_bin_range [of d] by linarith
    then show ?thesis using c d by (auto simp: hex2_bin_def Let_def mem_simps)
  qed
qed

lemma skip_to_S_total: "is_cstr m p s \<Longrightarrow> \<exists>q t. skip_to_S m p = Some q \<and> is_cstr m q t"
proof (induction s arbitrary: p)
  case Nil
  then show ?case by (subst skip_to_S.simps) (auto simp: mem_simps intro: exI [of _ "[]"])
next
  case (Cons c s)
  then show ?case by (subst skip_to_S.simps) (auto simp: mem_simps)
qed

lemma addr_bytes_total:
  "is_cstr m p s \<Longrightarrow> \<exists>r. addr_bytes n m p ch a = Some r \<and> (\<forall>q ch' a'. r = Inr (q, ch', a') \<longrightarrow> (\<exists>t. is_cstr m q t))"
proof (induction n arbitrary: p s ch a)
  case 0
  then show ?case by auto
next
  case (Suc n)
  obtain v where v: "hex2_bin m p = Some v" "0 \<le> v \<Longrightarrow> \<exists>t. is_cstr m (p + 2) t" using hex2_bin_total [OF Suc.prems] by blast
  show ?case
  proof (cases "v < 0")
    case True
    then show ?thesis using v by simp
  next
    case False
    then obtain t where t: "is_cstr m (p + 2) t" using v by auto
    show ?thesis using Suc.IH [OF t, of "ch + word_of_int v" "push_bit 8 a + word_of_int v"] v(1) False by simp
  qed
qed

definition kept :: "nat \<Rightarrow> mem \<Rightarrow> mem \<Rightarrow> bool" where
  "kept n d d' \<longleftrightarrow> length d' = length d \<and> drop n d' = drop n d"

lemma data_bytes_total:
  "is_cstr m p s \<Longrightarrow> i + n \<le> length d \<Longrightarrow>
   \<exists>r. data_bytes n i m p ch d = Some r \<and>
     (case r of Inl d' \<Rightarrow> kept (i + n) d d' | Inr (q, ch', d') \<Rightarrow> kept (i + n) d d' \<and> (\<exists>t. is_cstr m q t))"
proof (induction n arbitrary: p s ch i d)
  case 0
  then show ?case by (auto simp: kept_def)
next
  case (Suc n)
  obtain v where v: "hex2_bin m p = Some v" "0 \<le> v \<Longrightarrow> \<exists>t. is_cstr m (p + 2) t" using hex2_bin_total [OF Suc.prems(1)] by blast
  show ?case
  proof (cases "v < 0")
    case True
    then show ?thesis using v by (simp add: kept_def)
  next
    case False
    then obtain t where t: "is_cstr m (p + 2) t" using v by auto
    have l: "i < length d" "Suc i + n \<le> length (d[i := word_of_int v])" using Suc.prems by auto
    have k: "kept (Suc i + n) (d[i := word_of_int v]) d' = kept (i + Suc n) d d'" for d'
      by (simp add: kept_def)
    show ?thesis using Suc.IH [OF t l(2), of "ch + word_of_int v"] v(1) False l(1) unfolding k by (simp add: mem_simps)
  qed
qed

lemma record_type_count: "record_type t c = Some (ty, n, c') \<Longrightarrow> c \<le> 255 \<Longrightarrow> c' \<le> 252"
  by (auto simp: record_type_def split: if_splits)

lemma srec_decode_total:
  assumes s: "is_cstr m p s" and l: "252 \<le> length d"
  shows "\<exists>ty c a d'. srec_decode m p c0 a0 d = Some (ty, c, a, d') \<and> kept 252 d d' \<and> (0 \<le> ty \<and> ty \<noteq> SREC_EMPTY \<longrightarrow> c \<le> 252)"
proof -
  obtain q t where q: "skip_to_S m p = Some q" "is_cstr m q t" using skip_to_S_total [OF s] by blast
  show ?thesis
  proof (cases t)
    case Nil
    then show ?thesis using q by (simp add: srec_decode_def kept_def mem_simps)
  next
    case (Cons v ts)
    then have v: "rd m q = Some v" "v \<noteq> 0" "is_cstr m (q + 1) ts" using q by auto
    obtain c where c: "hex2_bin m (q + 1) = Some c" "c \<le> 255" "0 \<le> c \<Longrightarrow> \<exists>t. is_cstr m (q + 3) t"
      using hex2_bin_total [OF v(3)] by (auto simp: eval_nat_numeral)
    show ?thesis
    proof (cases "c < 0 \<or> record_type v c = None")
      case True
      then show ?thesis using q(1) v c(1) by (auto simp: srec_decode_def kept_def srec_codes mem_simps)
    next
      case False
      then obtain ty n c' where rt: "record_type v c = Some (ty, n, c')" by auto
      note c' = record_type_count [OF rt c(2)]
      obtain t1 where t1: "is_cstr m (q + 3) t1" using c(3) False by auto
      obtain r where r: "addr_bytes n m (q + 3) (word_of_int c) 0 = Some r"
        "\<And>q ch' a'. r = Inr (q, ch', a') \<Longrightarrow> \<exists>t. is_cstr m q t" using addr_bytes_total [OF t1] by blast
      have c1: "hex2_bin m (Suc q) = Some c" using c(1) by simp
      note start = srec_decode_def q(1) v(1) c1 rt r(1)
      show ?thesis
      proof (cases r)
        case (Inl a)
        then show ?thesis using False v(2) by (simp add: start kept_def srec_codes)
      next
        case (Inr x)
        obtain q1 ch1 a where x: "x = (q1, ch1, a)" by (cases x)
        then obtain t2 where t2: "is_cstr m q1 t2" using r(2) Inr by blast
        have n: "0 + nat c' \<le> length d" using c' l by simp
        have k: "kept 252 d d'" if "kept (0 + nat c') d d'" for d'
        proof -
          have e: "drop 252 y = drop (252 - nat c') (drop (nat c') y)" for y :: mem using c' by simp
          show ?thesis using that unfolding kept_def by (simp only: e add_0)
        qed
        obtain z where z: "data_bytes (nat c') 0 m q1 ch1 d = Some z"
          "case z of Inl d' \<Rightarrow> kept (0 + nat c') d d' | Inr (q, ch', d') \<Rightarrow> kept (0 + nat c') d d' \<and> (\<exists>t. is_cstr m q t)"
          using data_bytes_total [OF t2 n] by blast
        show ?thesis
        proof (cases z)
          case (Inl d')
          then show ?thesis using False v(2) k [of d'] z(2) by (simp add: start Inr x z(1) srec_codes)
        next
          case 2: (Inr y)
          obtain q2 ch2 d' where y: "y = (q2, ch2, d')" by (cases y)
          then obtain t3 where t3: "is_cstr m q2 t3" and kd: "kept 252 d d'" using z(2) 2 k by auto
          obtain ck where "hex2_bin m q2 = Some ck" using hex2_bin_total [OF t3] by blast
          then show ?thesis using False v(2) kd c' by (simp add: start Inr x z(1) 2 y srec_codes)
        qed
      qed
    qed
  qed
qed

section \<open>Theorems\<close>

text \<open>C6: a transfer is a round trip. What \<open>save_serial\<close> prints for \<open>count\<close> bytes at \<open>address\<close>, typed into
  \<open>load_serial\<close> (another machine, another state) with any offset, is accepted: the same bytes are stored at
  \<open>address + offset\<close> and nothing else of memory changes, all the input is used up, the start address is 0, and the
  environment has \<^verbatim>\<open>filesize\<close> set to the count in hexadecimal. The target range is memory, does not wrap, and
  the variable fits.\<close>

theorem saves_loads:
  assumes "\<And>k. \<not> ctrlc k" "length rec = 48" "length dat = 33"
    and "save_serial ctrlc rec dat address count s = Some (rc, s')"
    and "inp t = drop (length (outp s)) (outp s')" "load_wf v" "\<not> redir bd" "count \<noteq> 0"
    and "\<forall>x. unat (x - (address + offset)) < unat count \<longrightarrow> addr2info (fbanks bd) x = Some None"
    and "unat (address + offset) + unat count \<le> 2 ^ 32" "env_inv (genv t) es"
    and "fits (ENV_SIZE (genv t)) (del_var filesize es @ [(filesize, upper_hex count)])"
  shows "rc = 0 \<and> (\<exists>t'. load_serial bd e offset v t = Some (Done (0, t')) \<and>
    phys t' = stored (phys t) (address + offset) (block (phys s) address (unat count)) \<and> inp t' = [] \<and>
    env_inv (genv t') (del_var filesize es @ [(filesize, upper_hex count)]))"
proof -
  let ?bs = "block (phys s) address (unat count)"
  obtain s1 where s1: "save_serial ctrlc rec dat address count s = Some (0, s1)" "printed (srec_image address ?bs) s s1"
    using save_serial_ok assms(1-3) by blast
  have out: "rc = 0" "s' = s1" using assms(4) s1(1) by simp_all
  have i: "inp t = srec_image address ?bs @ []"
    using assms(5) s1(2) unfolding out by (auto simp: printed_def print_def)
  have c: "of_nat (length ?bs) = count" by simp
  have ne: "?bs \<noteq> []" using assms(8) by (auto simp: block_def unat_gt_0 dest: unat_eq_zero [THEN iffD1])
  have lt: "length ?bs < 2 ^ 32" using unsigned_less [of count, where 'a = nat] by simp
  have ram: "\<forall>x. unat (x - (address + offset)) < length ?bs \<longrightarrow> addr2info (fbanks bd) x = Some None" using assms(9) by simp
  have range: "unat (address + offset) + length ?bs \<le> 2 ^ 32" using assms(10) by simp
  have f: "fits (ENV_SIZE (genv t)) (del_var filesize es @ [(filesize, upper_hex (of_nat (length ?bs)))])" unfolding c by (rule assms(12))
  show ?thesis
    using load_image [OF assms(6,7) i ram range lt ne assms(11) f, of e] out(1) unfolding c by blast
qed

definition sample_board :: board where
  "sample_board = \<lparr>wbuff = store_bytes, fbanks = [board_bank], redir = False, ctrlc_at = (\<lambda>_. False)\<rparr>"

definition sample_vars_load :: load_vars where
  "sample_vars_load = \<lparr>recbuf = replicate 517 0, binbuf = replicate 255 0, binlen = 0, raddr = 0, start_addr = 0, end_addr = 0, line_count = 0\<rparr>"

lemma sample_load_wf: "load_wf sample_vars_load"
  by (simp add: load_wf_def sample_vars_load_def)

lemma sample_ram:
  assumes "unat (x - 0x80000110) < 2"
  shows "addr2info [board_bank] x = Some None"
proof -
  have "unat (x - 0x80000110) = 0 \<or> unat (x - 0x80000110) = 1" using assms by linarith
  then have "x - 0x80000110 = 0 \<or> x - 0x80000110 = 1" by (simp add: word_unat_eq_iff)
  then have "x = 0x80000110 \<or> x = 0x80000111" by (auto simp: algebra_simps)
  then show ?thesis by (auto simp: addr2info_def bank_end_def at_def board_bank_def FLASH_UNKNOWN_def)
qed

lemma saves_loads_witness:
  "\<exists>t'. load_serial sample_board True 0x100 sample_vars_load
       \<lparr>inp = srec_image 0x80000010 [7, 7], outp = [], polls = 0, phys = (\<lambda>_. 0), genv = sample_gd\<rparr> = Some (Done (0, t')) \<and>
     phys t' 0x80000111 = 7 \<and> env_inv (genv t') (sample_vars @ [(filesize, bytes_of ''2'')])"
proof -
  let ?s = "\<lparr>inp = [], outp = [], polls = 0, phys = (\<lambda>_. 7), genv = sample_gd\<rparr>"
  let ?t = "\<lparr>inp = srec_image 0x80000010 [7, 7], outp = [], polls = 0, phys = (\<lambda>_. 0), genv = sample_gd\<rparr>"
  have b: "block (\<lambda>_. 7) 0x80000010 2 = [7, 7]" by (simp add: block_def eval_nat_numeral)
  obtain s' where s': "save_serial (\<lambda>_. False) (replicate 48 0) (replicate 33 0) 0x80000010 2 ?s = Some (0, s')"
    "printed (srec_image 0x80000010 [7, 7]) ?s s'"
    using save_serial_ok [of "\<lambda>_. False" "replicate 48 0" "replicate 33 0" "0x80000010" 2 ?s] by (auto simp: b)
  have i: "inp ?t = drop (length (outp ?s)) (outp s')" using s'(2) by (auto simp: printed_def print_def)
  have h: "upper_hex 2 = bytes_of ''2''" by (simp add: upper_hex_def dig_rev.simps hexd_def digits_def byte_of_def)
  have d: "del_var filesize sample_vars = sample_vars"
    by (simp add: del_var_def sample_vars_def filesize_def byte_of_def)
  have f: "fits (ENV_SIZE (genv ?t)) (del_var filesize sample_vars @ [(filesize, upper_hex 2)])"
    unfolding d h by (simp add: sample_size fits_def sample_vars_def filesize_def)
  have ram: "\<forall>x. unat (x - (0x80000010 + 0x100)) < unat (2 :: u32) \<longrightarrow> addr2info (fbanks sample_board) x = Some None"
    using sample_ram by (simp add: sample_board_def)
  have "\<exists>t'. load_serial sample_board True 0x100 sample_vars_load ?t = Some (Done (0, t')) \<and>
      phys t' = stored (phys ?t) (0x80000010 + 0x100) (block (phys ?s) 0x80000010 (unat (2 :: u32))) \<and> inp t' = [] \<and>
      env_inv (genv t') (del_var filesize sample_vars @ [(filesize, upper_hex 2)])"
    using saves_loads [OF _ _ _ s'(1) i sample_load_wf _ _ ram _ _ f, of True] sample_inv by (simp add: sample_board_def)
  then show ?thesis by (auto simp: b d h stored_def)
qed

text \<open>C17: the decoder is safe on any line. Whatever NUL-terminated string it is given, with room for 252 bytes of data, it
  reads nothing over the end of the line, writes nothing past 252 bytes of the buffer, and an accepted record has at
  most 252 bytes of data; \<open>load_serial\<close> gives it 255.\<close>

theorem srec_decode_safe:
  assumes "is_cstr m p s" "252 \<le> length d"
  shows "\<exists>ty c a d'. srec_decode m p c0 a0 d = Some (ty, c, a, d') \<and> length d' = length d \<and> drop 252 d' = drop 252 d \<and>
    (0 \<le> ty \<and> ty \<noteq> SREC_EMPTY \<longrightarrow> c \<le> 252)"
  using srec_decode_total [OF assms] unfolding kept_def by blast

lemma srec_decode_safe_witness:
  "\<exists>ty c a d'. srec_decode (bytes_of ''xS9zz'' @ [0]) 0 5 6 (replicate 252 0) = Some (ty, c, a, d') \<and> length d' = length (replicate 252 (0 :: u8)) \<and>
    drop 252 d' = drop 252 (replicate 252 0) \<and> (0 \<le> ty \<and> ty \<noteq> SREC_EMPTY \<longrightarrow> c \<le> 252)"
proof -
  have c: "is_cstr (bytes_of ''xS9zz'' @ [0]) 0 (bytes_of ''xS9zz'')" by (simp add: byte_of_def mem_simps)
  show ?thesis by (rule srec_decode_safe [OF c]) simp
qed

text \<open>C38: a record that is too short for its own address is accepted. The line \<^verbatim>\<open>S1010000FE\<close>, whose length byte is 1 where 3
  is the least, has a right checksum and a count of -2; \<open>load_serial\<close> hands that to \<^verbatim>\<open>memcpy\<close> as a
  size of almost 4 GB, so that one line of input makes the loader overrun its buffer.\<close>

theorem short_record_overruns:
  assumes "load_wf v" "\<not> redir bd" "inp s = bytes_of ''S1010000FE'' @ 10 # rest" "addr2info (fbanks bd) offset = Some None"
  shows "load_serial bd e offset v s = None"
proof -
  let ?L = "bytes_of ''S1010000FE''"
  let ?v = "v\<lparr>start_addr := - 1, end_addr := 0, line_count := 0\<rparr>"
  have L: "?L = 83 # 49 # hex2 1 @ hexs [0, 0] @ hexs [] @ hex2 0xFE"
    by (simp add: byte_of_def hex2_digits hexd_def digits_def)
  have wf: "load_wf ?v" using assms(1) by (simp add: load_wf_def)
  have clean: "set ?L \<inter> {0, 3, 10, 13} = {}" by (simp add: byte_of_def)
  from load_loop_line [OF wf assms(2,3) clean, of e offset] obtain r s1 where r: "is_cstr r 0 ?L"
    "load_loop bd e offset ?v s = after_line bd e offset ?v r s1" by auto
  have dec: "srec_decode r 0 c a d = Some (SREC_DATA2, - 2, 0, d)" for c a d
    using srec_decode_count [OF r(1) [unfolded L], of SREC_DATA2 "- 2" d c a]
    by (simp add: record_type_def byte_of_def)
  show ?thesis
    unfolding load_serial_def r(2) using assms(1,4)
    by (simp add: after_line_def dec srec_codes load_store_def load_wf_def Let_def)
qed

lemma short_record_overruns_witness:
  "load_serial sample_board True 0x80000110 sample_vars_load
     \<lparr>inp = bytes_of ''S1010000FE'' @ [10], outp = [], polls = 0, phys = (\<lambda>_. 0), genv = sample_gd\<rparr> = None"
proof -
  have "addr2info [board_bank] 0x80000110 = Some None" by (rule sample_ram) simp
  then show ?thesis
    by (intro short_record_overruns [where rest = "[]"]) (simp_all add: sample_load_wf sample_board_def del: bytes_of_Cons)
qed

end
