(* ===== verification/NetBase.thy ===== *)
theory NetBase
  imports ParserProps FlashProps
begin

text \<open>
  The base of the network stack, \<^verbatim>\<open>net/net.c\<close> and a part of \<^verbatim>\<open>net/eth.c\<close>: the state, checksums, the headers that are put
  in front of a packet, ARP requests, sending of UDP packets, and starting again after a failure. The driver of
  an Ethernet device is outside: a frame handed to it is appended to \<open>sent\<close>, and whether its \<^verbatim>\<open>init\<close> succeeds is the
  field \<open>eth_works\<close>. The timer reads \<open>clock\<close>, the same value for all readings in one pass. Messages on
  the console and LEDs are not modelled; where a message prints a string of a packet the string is read. The
  target is big-endian, so \<^verbatim>\<open>htons\<close> and \<^verbatim>\<open>htonl\<close> are the identity. Configuration: \<^verbatim>\<open>CONFIG_NET_MULTI\<close>, no
  \<^verbatim>\<open>CONFIG_NET_RETRY_COUNT\<close>.
\<close>

section \<open>Constants\<close>

definition ETHER_HDR_SIZE :: nat where "ETHER_HDR_SIZE = 14"
definition E802_HDR_SIZE :: nat where "E802_HDR_SIZE = 22"
definition VLAN_ETHER_HDR_SIZE :: nat where "VLAN_ETHER_HDR_SIZE = 18"
definition IP_HDR_SIZE_NO_UDP :: nat where "IP_HDR_SIZE_NO_UDP = 20"
definition IP_HDR_SIZE :: nat where "IP_HDR_SIZE = 28"
definition ARP_HDR_SIZE :: nat where "ARP_HDR_SIZE = 28"
definition PROT_IP :: u16 where "PROT_IP = 0x0800"
definition PROT_ARP :: u16 where "PROT_ARP = 0x0806"
definition PROT_RARP :: u16 where "PROT_RARP = 0x8035"
definition PROT_VLAN :: u16 where "PROT_VLAN = 0x8100"
definition ARP_ETHER :: u16 where "ARP_ETHER = 1"
definition ARPOP_REQUEST :: u16 where "ARPOP_REQUEST = 1"
definition ARPOP_REPLY :: u16 where "ARPOP_REPLY = 2"
definition RARPOP_REPLY :: u16 where "RARPOP_REPLY = 4"
definition VLAN_NONE :: u16 where "VLAN_NONE = 4095"
definition VLAN_IDMASK :: u16 where "VLAN_IDMASK = 0x0fff"
definition PKTSIZE_ALIGN :: nat where "PKTSIZE_ALIGN = 1536"
definition ARP_TIMEOUT :: u32 where "ARP_TIMEOUT = 5"
definition ARP_TIMEOUT_COUNT :: int where "ARP_TIMEOUT_COUNT = 5"
definition NetBcastAddr :: bytes where "NetBcastAddr = replicate 6 0xff"
definition NetEtherNullAddr :: bytes where "NetEtherNullAddr = replicate 6 0"

lemmas net_sizes = ETHER_HDR_SIZE_def E802_HDR_SIZE_def VLAN_ETHER_HDR_SIZE_def IP_HDR_SIZE_NO_UDP_def IP_HDR_SIZE_def
  ARP_HDR_SIZE_def

lemmas net_protocols = PROT_IP_def PROT_ARP_def PROT_RARP_def PROT_VLAN_def ARP_ETHER_def ARPOP_REQUEST_def ARPOP_REPLY_def
  RARPOP_REPLY_def VLAN_NONE_def VLAN_IDMASK_def

section \<open>State\<close>

datatype loop_state = NETLOOP_CONTINUE | NETLOOP_RESTART | NETLOOP_SUCCESS | NETLOOP_FAIL

text \<open>The routines \<^verbatim>\<open>packetHandler\<close> and \<^verbatim>\<open>timeHandler\<close> can point to, and the variables \<^verbatim>\<open>NetArpWaitPacketMAC\<close> can.\<close>

datatype rxhand = Rx_Tftp | Rx_Ping | Rx_startAgain
datatype thand = T_Tftp | T_Ping | T_startAgain
datatype mac_var = ServerEther | PingMac

datatype tftp_state = STATE_RRQ | STATE_DATA | STATE_TOO_LARGE | STATE_BAD_MAGIC | STATE_OACK

record tftp =
  TftpServerPort :: u32
  TftpOurPort :: u32
  TftpTimeoutCount :: int
  TftpBlock :: u32
  TftpLastBlock :: u32
  TftpBlockWrap :: u32
  TftpBlockWrapOffset :: u32
  TftpState :: tftp_state
  tftp_filename :: bytes
  tftp_file :: bool

record net =
  NetOurEther :: bytes
  NetServerEther :: bytes
  ping_mac :: bytes
  NetOurIP :: u32
  NetServerIP :: u32
  NetOurGatewayIP :: u32
  NetOurSubnetMask :: u32
  NetPingIP :: u32
  PingSeqNo :: u16
  NetOurVLAN :: u16
  NetOurNativeVLAN :: u16
  NetIPID :: u32
  NetArpWaitPacketIP :: u32
  NetArpWaitReplyIP :: u32
  NetArpWaitPacketMAC :: "mac_var option"
  NetArpWaitTxPacket :: bytes
  NetArpWaitTxPacketSize :: nat
  NetArpWaitTimerStart :: u32
  NetArpWaitTry :: int
  packetHandler :: "rxhand option"
  timeHandler :: "thand option"
  timeStart :: u32
  timeDelta :: u32
  NetState :: loop_state
  NetRestarted :: bool
  NetDevExists :: bool
  NetRestartWrap :: bool
  NetBootFileXferSize :: u32
  gl_probe_upgrade :: bool
  upgrade_listen :: bool
  gl_cmd_msg :: "mem list"
  NetUipLoop :: bool
  webfailsafe_is_running :: bool
  tf :: tftp
  ram :: space
  netenv :: gd
  sent :: "bytes list"
  eth_names :: "bytes list"
  eth_current :: "nat option"
  first_failed :: "nat option"
  eth_works :: "nat \<Rightarrow> bool"
  clock :: u32
  CFG_HZ :: u32

section \<open>Handlers and devices\<close>

definition NetSetHandler :: "rxhand \<Rightarrow> net \<Rightarrow> net" where
  "NetSetHandler f s = s\<lparr>packetHandler := Some f\<rparr>"

definition NetSetTimeout :: "u32 \<Rightarrow> thand \<Rightarrow> net \<Rightarrow> net" where
  "NetSetTimeout iv f s =
     (if iv = 0 then s\<lparr>timeHandler := None\<rparr>
      else s\<lparr>timeHandler := Some f, timeStart := clock s, timeDelta := iv\<rparr>)"

definition eth_send :: "bytes \<Rightarrow> net \<Rightarrow> net" where
  "eth_send frame s = (if eth_current s = None then s else s\<lparr>sent := sent s @ [frame]\<rparr>)"

text \<open>The devices are a ring. After a full round \<^verbatim>\<open>eth_init\<close> is back at its first device, so it tries at most all of them.\<close>

definition eth_try_another :: "bool \<Rightarrow> net \<Rightarrow> net option" where
  "eth_try_another first_restart s =
     (case eth_current s of None \<Rightarrow> Some s
      | Some c \<Rightarrow> do {
          let ff = (if first_restart then Some c else first_failed s);
          let c' = Suc c mod length (eth_names s);
          act \<leftarrow> env_value (netenv s) (bytes_of ''ethact'');
          g \<leftarrow> (if act \<noteq> Some (eth_names s ! c') then setenv (bytes_of ''ethact'') (Some (eth_names s ! c')) (netenv s)
               else Some (netenv s));
          Some (s\<lparr>first_failed := ff, eth_current := Some c', netenv := g,
                  NetRestartWrap := (if ff = Some c' then True else NetRestartWrap s)\<rparr>) })"

fun eth_init_loop :: "nat \<Rightarrow> nat \<Rightarrow> net \<Rightarrow> net option" where
  "eth_init_loop 0 old s = Some s"
| "eth_init_loop (Suc n) old s =
     (case eth_current s of None \<Rightarrow> Some s
      | Some c \<Rightarrow>
          if eth_works s c then Some s
          else do {
            s1 \<leftarrow> eth_try_another False s;
            if eth_current s1 \<noteq> Some old then eth_init_loop n old s1 else Some s1 })"

definition eth_init :: "net \<Rightarrow> net option" where
  "eth_init s = (case eth_current s of None \<Rightarrow> Some s
     | Some c \<Rightarrow> eth_init_loop (length (eth_names s)) c s)"

definition NetStartAgain :: "net \<Rightarrow> net option" where
  "NetStartAgain s = do {
     nretry \<leftarrow> env_value (netenv s) (bytes_of ''netretry'');
     if nretry = Some (bytes_of ''no'') then Some (s\<lparr>NetState := NETLOOP_FAIL\<rparr>)
     else do {
       s1 \<leftarrow> eth_try_another (\<not> NetRestarted s) s;
       s2 \<leftarrow> eth_init s1;
       Some (if NetRestartWrap s2 then
               let s3 = s2\<lparr>NetRestartWrap := False\<rparr> in
               if NetDevExists s3 \<and> nretry \<noteq> Some (bytes_of ''once'') then
                 NetSetHandler Rx_startAgain (NetSetTimeout (10 * CFG_HZ s3) T_startAgain s3)
               else s3\<lparr>NetState := NETLOOP_FAIL\<rparr>
             else s2\<lparr>NetState := NETLOOP_RESTART\<rparr>) } }"

section \<open>Headers\<close>

text \<open>\<^verbatim>\<open>NetCksum\<close>: the 16-bit words are added in a \<^verbatim>\<open>ulong\<close>, the carries are added twice.\<close>

fun cksum_loop :: "mem \<Rightarrow> addr \<Rightarrow> nat \<Rightarrow> u32 \<Rightarrow> u32 option" where
  "cksum_loop m p 0 xsum = Some xsum"
| "cksum_loop m p (Suc len) xsum = do { w \<leftarrow> rd16 m p; cksum_loop m (p + 2) len (xsum + ucast w) }"

definition fold_carry :: "u32 \<Rightarrow> u32" where
  "fold_carry xsum = (xsum AND 0xffff) + drop_bit 16 xsum"

definition NetCksum :: "mem \<Rightarrow> addr \<Rightarrow> nat \<Rightarrow> u32 option" where
  "NetCksum m p len = do { xsum \<leftarrow> cksum_loop m p len 0; Some (fold_carry (fold_carry xsum) AND 0xffff) }"

definition NetCksumOk :: "mem \<Rightarrow> addr \<Rightarrow> nat \<Rightarrow> bool option" where
  "NetCksumOk m p len = do { c \<leftarrow> NetCksum m p len; Some ((c + 1) AND 0xfffe = 0) }"

definition our_vlan :: "u16 \<Rightarrow> u16" where
  "our_vlan v = (if v = - 1 then VLAN_NONE else v)"

definition NetEthHdrSize :: "net \<Rightarrow> nat" where
  "NetEthHdrSize s =
     (if our_vlan (NetOurVLAN s) AND VLAN_IDMASK = VLAN_NONE then ETHER_HDR_SIZE else VLAN_ETHER_HDR_SIZE)"

definition NetSetEther :: "bytes \<Rightarrow> u16 \<Rightarrow> net \<Rightarrow> bytes" where
  "NetSetEther addr prot s =
     addr @ NetOurEther s @
     (if our_vlan (NetOurVLAN s) AND VLAN_IDMASK = VLAN_NONE then be16 prot
      else be16 PROT_VLAN @ be16 (our_vlan (NetOurVLAN s) AND VLAN_IDMASK) @ be16 prot)"

text \<open>The IP header with the checksum field \<open>cks\<close>, and the UDP header.\<close>

definition ip_header :: "u16 \<Rightarrow> u16 \<Rightarrow> u8 \<Rightarrow> u16 \<Rightarrow> u32 \<Rightarrow> u32 \<Rightarrow> bytes" where
  "ip_header len ident proto cks src dst =
     [0x45, 0] @ be16 len @ be16 ident @ be16 0x4000 @ [255, proto] @ be16 cks @ be32 src @ be32 dst"

definition NetSetIP :: "u32 \<Rightarrow> u32 \<Rightarrow> u32 \<Rightarrow> nat \<Rightarrow> net \<Rightarrow> (bytes \<times> net) option" where
  "NetSetIP dest dport sport len s = do {
     let h = (\<lambda>cks. ip_header (of_nat (IP_HDR_SIZE + len)) (ucast (NetIPID s)) 17 cks (NetOurIP s) dest);
     c \<leftarrow> NetCksum (h 0) 0 (IP_HDR_SIZE_NO_UDP div 2);
     Some (h (ucast (NOT c)) @ be16 (ucast sport) @ be16 (ucast dport) @ be16 (of_nat (8 + len)) @ be16 0,
           s\<lparr>NetIPID := NetIPID s + 1\<rparr>) }"

section \<open>ARP\<close>

definition ArpRequest :: "net \<Rightarrow> net" where
  "ArpRequest s =
     (let reply = (if NetArpWaitPacketIP s AND NetOurSubnetMask s \<noteq> NetOurIP s AND NetOurSubnetMask s
                   then (if NetOurGatewayIP s = 0 then NetArpWaitPacketIP s else NetOurGatewayIP s)
                   else NetArpWaitPacketIP s);
          frame = NetSetEther NetBcastAddr PROT_ARP s @
            be16 ARP_ETHER @ be16 PROT_IP @ [6, 4] @ be16 ARPOP_REQUEST @
            NetOurEther s @ be32 (NetOurIP s) @ replicate 6 0 @ be32 reply
      in eth_send frame (s\<lparr>NetArpWaitReplyIP := reply\<rparr>))"

definition ArpTimeoutCheck :: "net \<Rightarrow> net option" where
  "ArpTimeoutCheck s =
     (if NetArpWaitPacketIP s = 0 then Some s
      else if clock s - NetArpWaitTimerStart s > ARP_TIMEOUT * CFG_HZ s then
        (let s1 = s\<lparr>NetArpWaitTry := NetArpWaitTry s + 1\<rparr> in
         if NetArpWaitTry s1 \<ge> ARP_TIMEOUT_COUNT then NetStartAgain (s1\<lparr>NetArpWaitTry := 0\<rparr>)
         else Some (ArpRequest (s1\<lparr>NetArpWaitTimerStart := clock s\<rparr>)))
      else Some s)"

definition mac_of :: "mac_var \<Rightarrow> net \<Rightarrow> bytes" where
  "mac_of v s = (case v of ServerEther \<Rightarrow> NetServerEther s | PingMac \<Rightarrow> ping_mac s)"

definition set_mac :: "mac_var \<Rightarrow> bytes \<Rightarrow> net \<Rightarrow> net" where
  "set_mac v a s = (case v of ServerEther \<Rightarrow> s\<lparr>NetServerEther := a\<rparr> | PingMac \<Rightarrow> s\<lparr>ping_mac := a\<rparr>)"

text \<open>A frame is kept until the reply to the request comes.\<close>

definition wait_for_arp :: "bytes \<Rightarrow> u32 \<Rightarrow> mac_var \<Rightarrow> net \<Rightarrow> net" where
  "wait_for_arp frame dest mac s =
     ArpRequest (s\<lparr>NetArpWaitPacketIP := dest, NetArpWaitPacketMAC := Some mac, NetArpWaitTxPacket := frame,
                   NetArpWaitTxPacketSize := length frame, NetArpWaitTry := 1, NetArpWaitTimerStart := clock s\<rparr>)"

text \<open>\<open>payload\<close> is what the caller has put behind the place of the headers; \<^verbatim>\<open>ether\<close> is always one of the two variables.\<close>

definition NetSendUDPPacket :: "mac_var \<Rightarrow> u32 \<Rightarrow> u32 \<Rightarrow> u32 \<Rightarrow> bytes \<Rightarrow> net \<Rightarrow> net option" where
  "NetSendUDPPacket ether dest0 dport sport payload s = do {
     let dest = (if dest0 = 0 then 0xFFFFFFFF else dest0);
     let addr = (if dest = 0xFFFFFFFF then NetBcastAddr else mac_of ether s);
     (ip, s1) \<leftarrow> NetSetIP dest dport sport (length payload) s;
     let frame = NetSetEther addr PROT_IP s @ ip @ payload;
     Some (if addr = NetEtherNullAddr then wait_for_arp frame dest ether s1 else eth_send frame s1) }"

section \<open>Settings from the environment\<close>

definition string_to_ip :: "bytes option \<Rightarrow> u32 option" where
  "string_to_ip s =
     (case s of None \<Rightarrow> Some 0
      | Some v \<Rightarrow> do { vs \<leftarrow> parse_numbers 4 10 (Some v); Some (foldl (\<lambda>addr v. push_bit 8 addr OR (v AND 0xff)) 0 vs) })"

definition string_to_VLAN :: "bytes option \<Rightarrow> u16 option" where
  "string_to_VLAN s =
     (case s of None \<Rightarrow> Some VLAN_NONE
      | Some v \<Rightarrow>
          if v = [] \<or> hd v < byte_of (CHR ''0'') \<or> hd v > byte_of (CHR ''9'') then Some VLAN_NONE
          else do { (n, e) \<leftarrow> str_toul v 10; Some (ucast n) })"

definition getenv_IPaddr :: "bytes \<Rightarrow> net \<Rightarrow> u32 option" where
  "getenv_IPaddr var s = do { v \<leftarrow> env_value (netenv s) var; string_to_ip v }"

definition getenv_VLAN :: "bytes \<Rightarrow> net \<Rightarrow> u16 option" where
  "getenv_VLAN var s = do { v \<leftarrow> env_value (netenv s) var; string_to_VLAN v }"

end
