(* ===== verification/Tftp.thy ===== *)
theory Tftp
  imports NetBase
begin

text \<open>
  \<^verbatim>\<open>net/tftp.c\<close>: the client that loads a file into memory, without \<^verbatim>\<open>CFG_DIRECT_FLASH_TFTP\<close> and \<^verbatim>\<open>CONFIG_TFTP_PORT\<close>. A
  packet is a place in the receive buffer, with the ports and the length the UDP header gives; reading or copying
  over the end of the buffer is \<open>None\<close>.
\<close>

definition WELL_KNOWN_PORT :: u32 where "WELL_KNOWN_PORT = 69"
definition TIMEOUT :: u32 where "TIMEOUT = 2"
definition TIMEOUT_COUNT :: int where "TIMEOUT_COUNT = 0"
definition TFTP_RRQ :: u16 where "TFTP_RRQ = 1"
definition TFTP_DATA :: u16 where "TFTP_DATA = 3"
definition TFTP_ACK :: u16 where "TFTP_ACK = 4"
definition TFTP_ERROR :: u16 where "TFTP_ERROR = 5"
definition TFTP_OACK :: u16 where "TFTP_OACK = 6"
definition TFTP_BLOCK_SIZE :: u32 where "TFTP_BLOCK_SIZE = 512"
definition TFTP_SEQUENCE_SIZE :: u32 where "TFTP_SEQUENCE_SIZE = push_bit 16 1"

lemmas tftp_codes = TFTP_RRQ_def TFTP_DATA_def TFTP_ACK_def TFTP_ERROR_def TFTP_OACK_def

definition store_block :: "u32 \<Rightarrow> mem \<Rightarrow> addr \<Rightarrow> u32 \<Rightarrow> net \<Rightarrow> net option" where
  "store_block blk m src len s =
     (let offset = blk * TFTP_BLOCK_SIZE + TftpBlockWrapOffset (tf s); newsize = offset + len in
      if src + unat len \<le> length m then
        Some (s\<lparr>ram := stored (ram s) (load_addr (netenv s) + offset) (slice m src (unat len)),
                NetBootFileXferSize := (if NetBootFileXferSize s < newsize then newsize else NetBootFileXferSize s)\<rparr>)
      else None)"

definition tftp_packet :: "tftp \<Rightarrow> bytes" where
  "tftp_packet t = (case TftpState t of
     STATE_RRQ \<Rightarrow> be16 TFTP_RRQ @ tftp_filename t @ [0] @ bytes_of ''octet'' @ [0] @ bytes_of ''timeout'' @ [0] @ shown (byte_of (CHR ''d'')) TIMEOUT @ [0]
   | STATE_DATA \<Rightarrow> be16 TFTP_ACK @ be16 (ucast (TftpBlock t))
   | STATE_OACK \<Rightarrow> be16 TFTP_ACK @ be16 (ucast (TftpBlock t))
   | STATE_TOO_LARGE \<Rightarrow> be16 TFTP_ERROR @ be16 3 @ bytes_of ''File too large'' @ [0]
   | STATE_BAD_MAGIC \<Rightarrow> be16 TFTP_ERROR @ be16 2 @ bytes_of ''File has bad magic'' @ [0])"

definition TftpSend :: "net \<Rightarrow> net option" where
  "TftpSend s =
     NetSendUDPPacket ServerEther (NetServerIP s) (TftpServerPort (tf s)) (TftpOurPort (tf s)) (tftp_packet (tf s)) s"

text \<open>\<^verbatim>\<open>strcmp\<close> of a literal with the string at \<open>p\<close>: it reads up to the first difference.\<close>

fun same_string :: "bytes \<Rightarrow> mem \<Rightarrow> addr \<Rightarrow> bool option" where
  "same_string [] m p = do { c \<leftarrow> rd m p; Some (c = 0) }"
| "same_string (b # bs) m p = do { c \<leftarrow> rd m p; if c = b then same_string bs m (Suc p) else Some False }"

text \<open>A data packet of \<open>len\<close> bytes at \<open>p\<close>: the block number and its wrap-around, then the first block.\<close>

definition note_block :: "u32 \<Rightarrow> tftp \<Rightarrow> tftp" where
  "note_block blk t =
     (if blk = 0 then t\<lparr>TftpBlock := blk, TftpBlockWrap := TftpBlockWrap t + 1,
                        TftpBlockWrapOffset := TftpBlockWrapOffset t + TFTP_BLOCK_SIZE * TFTP_SEQUENCE_SIZE\<rparr>
      else t\<lparr>TftpBlock := blk\<rparr>)"

definition first_block :: "u32 \<Rightarrow> tftp \<Rightarrow> tftp" where
  "first_block src t =
     (if TftpState t = STATE_RRQ \<or> TftpState t = STATE_OACK then
        t\<lparr>TftpState := STATE_DATA, TftpServerPort := src, TftpLastBlock := 0, TftpBlockWrap := 0, TftpBlockWrapOffset := 0\<rparr>
      else t)"

definition tftp_data :: "mem \<Rightarrow> addr \<Rightarrow> u32 \<Rightarrow> u32 \<Rightarrow> net \<Rightarrow> net option" where
  "tftp_data m p src len s =
     (if len < 2 then Some s
      else do {
        let len = len - 2;
        b \<leftarrow> rd16 m p;
        let t = note_block (ucast b) (tf s);
        let first = (TftpState t = STATE_RRQ \<or> TftpState t = STATE_OACK);
        let t1 = first_block src t;
        if first \<and> TftpBlock t1 \<noteq> 1 then NetStartAgain (s\<lparr>tf := t1\<rparr>)
        else if TftpBlock t1 = TftpLastBlock t1 then Some (s\<lparr>tf := t1\<rparr>)
        else do {
          let s1 = NetSetTimeout (TIMEOUT * CFG_HZ s) T_Tftp (s\<lparr>tf := t1\<lparr>TftpLastBlock := TftpBlock t1\<rparr>\<rparr>);
          s2 \<leftarrow> store_block (TftpBlock t1 - 1) m (p + 2) len s1;
          s3 \<leftarrow> TftpSend s2;
          Some (if len < TFTP_BLOCK_SIZE then s3\<lparr>NetState := NETLOOP_SUCCESS\<rparr> else s3) } })"

definition tftp_error :: "mem \<Rightarrow> addr \<Rightarrow> net \<Rightarrow> net option" where
  "tftp_error m p s = do {
     notfound \<leftarrow> same_string (bytes_of ''File not found'') m (p + 2);
     if notfound then Some (s\<lparr>tf := (tf s)\<lparr>tftp_file := False\<rparr>, NetState := NETLOOP_FAIL\<rparr>)
     else do {
       msg \<leftarrow> str_at m (p + 2);
       code \<leftarrow> rd16 m p;
       NetStartAgain s } }"

definition TftpHandler :: "mem \<Rightarrow> addr \<Rightarrow> u32 \<Rightarrow> u32 \<Rightarrow> u32 \<Rightarrow> net \<Rightarrow> net option" where
  "TftpHandler m pkt dest src len s =
     (if dest \<noteq> TftpOurPort (tf s) then Some s
      else if TftpState (tf s) \<noteq> STATE_RRQ \<and> src \<noteq> TftpServerPort (tf s) then Some s
      else if len < 2 then Some s
      else do {
        proto \<leftarrow> rd16 m pkt;
        if proto = TFTP_OACK then TftpSend (s\<lparr>tf := (tf s)\<lparr>TftpState := STATE_OACK, TftpServerPort := src\<rparr>\<rparr>)
        else if proto = TFTP_DATA then tftp_data m (pkt + 2) src (len - 2) s
        else if proto = TFTP_ERROR then tftp_error m (pkt + 2) s
        else Some s })"

definition TftpTimeout :: "net \<Rightarrow> net option" where
  "TftpTimeout s =
     (let s1 = s\<lparr>tf := (tf s)\<lparr>TftpTimeoutCount := TftpTimeoutCount (tf s) + 1\<rparr>\<rparr> in
      if TftpTimeoutCount (tf s1) > TIMEOUT_COUNT then Some (s1\<lparr>tf := (tf s1)\<lparr>tftp_file := False\<rparr>\<rparr>)
      else TftpSend (NetSetTimeout (TIMEOUT * CFG_HZ s) T_Tftp s1))"

definition default_filename :: "u32 \<Rightarrow> bytes" where
  "default_filename ip = concat (map (\<lambda>n. hex_field 2 0 (unat (drop_bit n ip AND 0xFF))) [0, 8, 16, 24]) @ bytes_of ''.img''"

definition TftpStart :: "net \<Rightarrow> net option" where
  "TftpStart s = do {
     name \<leftarrow> str_at (BootFile (netenv s)) 0;
     let s1 = NetSetHandler Rx_Tftp (NetSetTimeout (TIMEOUT * CFG_HZ s) T_Tftp s);
     TftpSend (s1\<lparr>NetServerEther := NetEtherNullAddr,
       tf := (tf s1)\<lparr>tftp_filename := (if name = [] then default_filename (NetOurIP s) else name),
                     TftpServerPort := WELL_KNOWN_PORT, TftpTimeoutCount := 0, TftpState := STATE_RRQ,
                     TftpOurPort := 1024 + clock s mod 3072, TftpBlock := 0\<rparr>\<rparr>) }"

end
