(* ===== verification/Net.thy ===== *)
theory Net
  imports Tftp
begin

text \<open>
  The rest of \<^verbatim>\<open>net/net.c\<close>: ping, the receiver \<^verbatim>\<open>NetReceive\<close>, and \<^verbatim>\<open>NetLoop\<close> for the protocols \<^verbatim>\<open>TFTP\<close> and \<^verbatim>\<open>PING\<close>
  (without \<^verbatim>\<open>CFG_CMD_CDP\<close>, \<^verbatim>\<open>CONFIG_UDP_CHECKSUM\<close>, \<^verbatim>\<open>CONFIG_NETCONSOLE\<close> and \<^verbatim>\<open>CFG_ATHRHDR_EN\<close>). A received frame is the buffer it is in, of
  \<^verbatim>\<open>PKTSIZE_ALIGN\<close> bytes, and its length.
\<close>

section \<open>Ping\<close>

definition PingSend :: "net \<Rightarrow> net option" where
  "PingSend s0 = do {
     let s = s0\<lparr>ping_mac := NetEtherNullAddr\<rparr>;
     let h = (\<lambda>cks. ip_header (of_nat (IP_HDR_SIZE_NO_UDP + 8)) (ucast (NetIPID s)) 1 cks (NetOurIP s) (NetPingIP s));
     c \<leftarrow> NetCksum (h 0) 0 (IP_HDR_SIZE_NO_UDP div 2);
     let icmp = (\<lambda>cks. be16 0x0800 @ be16 cks @ be16 0 @ be16 (PingSeqNo s));
     d \<leftarrow> NetCksum (icmp 0) 0 4;
     let frame = NetSetEther NetEtherNullAddr PROT_IP s @ h (ucast (NOT c)) @ icmp (ucast (NOT d));
     Some (wait_for_arp frame (NetPingIP s) PingMac (s\<lparr>NetIPID := NetIPID s + 1, PingSeqNo := PingSeqNo s + 1\<rparr>)) }"

definition PingHandler :: "mem \<Rightarrow> addr \<Rightarrow> net \<Rightarrow> net option" where
  "PingHandler m ip s = do {
     tmp \<leftarrow> rd32 m (ip + 12);
     Some (if tmp \<noteq> NetPingIP s then s else s\<lparr>NetState := NETLOOP_SUCCESS\<rparr>) }"

definition PingTimeout :: "net \<Rightarrow> net" where
  "PingTimeout s = s\<lparr>NetState := NETLOOP_FAIL\<rparr>"

definition PingStart :: "net \<Rightarrow> net option" where
  "PingStart s = PingSend (NetSetHandler Rx_Ping (NetSetTimeout (3 * CFG_HZ s) T_Ping s))"

section \<open>\<^verbatim>\<open>NetReceive\<close>\<close>

text \<open>A null packet is an empty memory.\<close>

definition call_handler :: "mem \<Rightarrow> addr \<Rightarrow> u32 \<Rightarrow> u32 \<Rightarrow> u32 \<Rightarrow> net \<Rightarrow> net option" where
  "call_handler m p dest src len s = (case packetHandler s of
     None \<Rightarrow> None
   | Some Rx_Tftp \<Rightarrow> TftpHandler m p dest src len s
   | Some Rx_Ping \<Rightarrow> PingHandler m p s
   | Some Rx_startAgain \<Rightarrow> Some s)"

text \<open>The reply to a request is made in the receive buffer: the Ethernet header at its start, the rest in place.\<close>

definition arp_answer :: "mem \<Rightarrow> addr \<Rightarrow> net \<Rightarrow> net" where
  "arp_answer m a s =
     (let et = NetSetEther (slice m 6 6) PROT_ARP s;
          m1 = blit m 0 et;
          m2 = blit m1 (a + 6) (be16 ARPOP_REPLY);
          m3 = blit m2 (a + 18) (slice m2 (a + 8) 6);
          m4 = blit m3 (a + 24) (slice m3 (a + 14) 4);
          m5 = blit m4 (a + 8) (NetOurEther s);
          m6 = blit m5 (a + 14) (be32 (NetOurIP s))
      in eth_send (slice m6 0 (length et + ARP_HDR_SIZE)) s)"

definition arp_reply :: "mem \<Rightarrow> addr \<Rightarrow> net \<Rightarrow> net option" where
  "arp_reply m a s =
     (if NetArpWaitPacketIP s = 0 then Some s
      else (case NetArpWaitPacketMAC s of None \<Rightarrow> Some s
      | Some v \<Rightarrow> do {
          tmp \<leftarrow> rd32 m (a + 14);
          if tmp \<noteq> NetArpWaitReplyIP s then Some s
          else
            let mac = slice m (a + 8) 6;
                s1 = set_mac v mac s;
                s2 = (if NetArpWaitTxPacketSize s1 > 0 then
                        let pkt = blit (NetArpWaitTxPacket s1) 0 mac in
                        eth_send (take (NetArpWaitTxPacketSize s1) pkt) (s1\<lparr>NetArpWaitTxPacket := pkt\<rparr>)
                      else s1)
            in Some (s2\<lparr>NetArpWaitPacketIP := 0, NetArpWaitTxPacketSize := 0, NetArpWaitPacketMAC := None\<rparr>) }))"

definition receive_arp :: "mem \<Rightarrow> addr \<Rightarrow> int \<Rightarrow> net \<Rightarrow> net option" where
  "receive_arp m a len s =
     (if len < int ARP_HDR_SIZE then Some s
      else do {
        hrd \<leftarrow> rd16 m a;
        pro \<leftarrow> rd16 m (a + 2);
        hln \<leftarrow> rd m (a + 4);
        pln \<leftarrow> rd m (a + 5);
        dst \<leftarrow> rd32 m (a + 24);
        if hrd \<noteq> ARP_ETHER \<or> pro \<noteq> PROT_IP \<or> hln \<noteq> 6 \<or> pln \<noteq> 4 then Some s
        else if NetOurIP s = 0 \<or> dst \<noteq> NetOurIP s then Some s
        else do {
          op \<leftarrow> rd16 m (a + 6);
          if op = ARPOP_REQUEST then Some (arp_answer m a s)
          else if op = ARPOP_REPLY then arp_reply m a s
          else Some s } })"

definition receive_rarp :: "mem \<Rightarrow> addr \<Rightarrow> int \<Rightarrow> net \<Rightarrow> net option" where
  "receive_rarp m a len s =
     (if len < int ARP_HDR_SIZE then Some s
      else do {
        op \<leftarrow> rd16 m (a + 6);
        hrd \<leftarrow> rd16 m a;
        pro \<leftarrow> rd16 m (a + 2);
        hln \<leftarrow> rd m (a + 4);
        pln \<leftarrow> rd m (a + 5);
        if op \<noteq> RARPOP_REPLY \<or> hrd \<noteq> ARP_ETHER \<or> pro \<noteq> PROT_IP \<or> hln \<noteq> 6 \<or> pln \<noteq> 4 then Some s
        else do {
          ours \<leftarrow> rd32 m (a + 24);
          server \<leftarrow> rd32 m (a + 14);
          call_handler [] 0 0 0 0 (s\<lparr>NetOurIP := ours,
            NetServerIP := (if NetServerIP s = 0 then server else NetServerIP s),
            NetServerEther := slice m (a + 8) 6\<rparr>) } })"

definition receive_ip :: "mem \<Rightarrow> addr \<Rightarrow> int \<Rightarrow> net \<Rightarrow> net option" where
  "receive_ip m a len s =
     (if len < int IP_HDR_SIZE then Some s
      else do {
        ip_len \<leftarrow> rd16 m (a + 2);
        if len < uint ip_len then Some s
        else do {
          hl_v \<leftarrow> rd m a;
          off \<leftarrow> rd16 m (a + 6);
          if hl_v AND 0xf0 \<noteq> 0x40 \<or> off AND 0x1fff \<noteq> 0 then Some s
          else do {
            ok \<leftarrow> NetCksumOk m a (IP_HDR_SIZE_NO_UDP div 2);
            dst \<leftarrow> rd32 m (a + 16);
            if \<not> ok \<or> (NetOurIP s \<noteq> 0 \<and> dst \<noteq> NetOurIP s \<and> dst \<noteq> 0xFFFFFFFF) then Some s
            else do {
              ip_p \<leftarrow> rd m (a + 9);
              if ip_p = 1 then do {
                type \<leftarrow> rd m (a + 20);
                if type = 0 then call_handler m a 0 0 0 s else Some s }
              else if ip_p \<noteq> 17 then Some s
              else do {
                udp_dst \<leftarrow> rd16 m (a + 22);
                udp_src \<leftarrow> rd16 m (a + 20);
                udp_len \<leftarrow> rd16 m (a + 24);
                call_handler m (a + IP_HDR_SIZE) (ucast udp_dst) (ucast udp_src) (ucast udp_len - 8) s } } } } })"

definition receive_proto :: "u16 \<Rightarrow> u16 \<Rightarrow> mem \<Rightarrow> addr \<Rightarrow> int \<Rightarrow> net \<Rightarrow> net option" where
  "receive_proto x vlanid0 m a len s =
     (let my = our_vlan (NetOurVLAN s) AND VLAN_IDMASK;
          vlanid = (if vlanid0 = VLAN_NONE then our_vlan (NetOurNativeVLAN s) AND VLAN_IDMASK else vlanid0)
      in if my \<noteq> VLAN_NONE \<and> vlanid \<noteq> my then Some s
      else if x = PROT_ARP then receive_arp m a len s
      else if x = PROT_RARP then receive_rarp m a len s
      else if x = PROT_IP then receive_ip m a len s
      else Some s)"

definition receive_frame :: "mem \<Rightarrow> int \<Rightarrow> net \<Rightarrow> net option" where
  "receive_frame m len s =
     (if len < int ETHER_HDR_SIZE then Some s
      else do {
        x \<leftarrow> rd16 m 12;
        if x < 1514 then do {
          x' \<leftarrow> rd16 m 20;
          receive_proto x' VLAN_NONE m E802_HDR_SIZE (len - int E802_HDR_SIZE) s }
        else if x \<noteq> PROT_VLAN then receive_proto x VLAN_NONE m ETHER_HDR_SIZE (len - int ETHER_HDR_SIZE) s
        else if len < int VLAN_ETHER_HDR_SIZE then Some s
        else if NetOurVLAN s AND VLAN_IDMASK = VLAN_NONE then Some s
        else do {
          cti \<leftarrow> rd16 m 14;
          x' \<leftarrow> rd16 m 16;
          receive_proto x' (cti AND VLAN_IDMASK) m VLAN_ETHER_HDR_SIZE (len - int VLAN_ETHER_HDR_SIZE) s } })"

text \<open>The consumers that come before the monitor's own protocols are arguments.\<close>

record consumers =
  upgrade_hook :: "mem \<Rightarrow> int \<Rightarrow> net \<Rightarrow> net option"
  dev_received :: "mem \<Rightarrow> int \<Rightarrow> net \<Rightarrow> net option"
  NetReceiveHttpd :: "mem \<Rightarrow> int \<Rightarrow> net \<Rightarrow> net option"

definition NetReceive :: "consumers \<Rightarrow> mem \<Rightarrow> int \<Rightarrow> net \<Rightarrow> net option" where
  "NetReceive cs m len s =
     (if gl_probe_upgrade s then do {
        s1 \<leftarrow> upgrade_hook cs m len (s\<lparr>gl_probe_upgrade := False\<rparr>);
        Some (s1\<lparr>gl_probe_upgrade := True\<rparr>) }
      else if NetUipLoop s then dev_received cs m len s
      else if webfailsafe_is_running s then NetReceiveHttpd cs m len s
      else receive_frame m len s)"

section \<open>\<^verbatim>\<open>NetLoop\<close>\<close>

datatype proto_t = TFTP | PING

text \<open>The result is the code of \<^verbatim>\<open>net_check_prereq\<close>; in both places it starts again it returns 2.\<close>

definition net_check_prereq :: "proto_t \<Rightarrow> net \<Rightarrow> (nat \<times> net) option" where
  "net_check_prereq protocol s =
     (if protocol = PING \<and> NetPingIP s = 0 then Some (1, s)
      else if protocol = TFTP \<and> NetServerIP s = 0 then Some (1, s)
      else if NetOurIP s = 0 then Some (1, s)
      else if NetOurEther s = NetEtherNullAddr then
        (if eth_current s = None then Some (1, s) else do { s1 \<leftarrow> NetStartAgain s; Some (2, s1) })
      else Some (0, s))"

text \<open>From the label \<^verbatim>\<open>restart\<close> to the loop; \<open>enetaddr\<close> are the addresses of the devices. \<open>Inl\<close> is the return of -1.\<close>

definition net_restart :: "proto_t \<Rightarrow> net \<Rightarrow> (net + net) option" where
  "net_restart protocol s = do {
     c \<leftarrow> eth_current s;
     gw \<leftarrow> getenv_IPaddr (bytes_of ''gatewayip'') s;
     mask \<leftarrow> getenv_IPaddr (bytes_of ''netmask'') s;
     vlan \<leftarrow> getenv_VLAN (bytes_of ''vlan'') s;
     nvlan \<leftarrow> getenv_VLAN (bytes_of ''nvlan'') s;
     server \<leftarrow> (if protocol = TFTP then getenv_IPaddr (bytes_of ''serverip'') s else Some (NetServerIP s));
     ether \<leftarrow> (if c < length (eth_devices (netenv s)) then Some (eth_devices (netenv s) ! c) else None);
     let s1 = s\<lparr>NetOurEther := ether, NetState := NETLOOP_CONTINUE, NetOurIP := bi_ip_addr (netenv s),
                NetOurGatewayIP := gw, NetOurSubnetMask := mask, NetOurVLAN := vlan, NetOurNativeVLAN := nvlan, NetServerIP := server\<rparr>;
     (code, s2) \<leftarrow> net_check_prereq protocol s1;
     if code = 1 then Some (Inl s2)
     else if code = 2 then Some (Inr s2)
     else do {
       s3 \<leftarrow> (case protocol of TFTP \<Rightarrow> TftpStart (s2\<lparr>NetDevExists := True\<rparr>) | PING \<Rightarrow> PingStart (s2\<lparr>NetDevExists := True\<rparr>));
       Some (Inr (s3\<lparr>NetBootFileXferSize := 0\<rparr>)) } }"

text \<open>The variables set after a successful transfer.\<close>

definition lower_hex :: "u32 \<Rightarrow> bytes" where
  "lower_hex w = shown (byte_of (CHR ''x'')) w"

definition capital_hex :: "u32 \<Rightarrow> bytes" where
  "capital_hex w = rev (dig_rev 16 (hexd 0) (unat w))"

definition net_success :: "net \<Rightarrow> net option" where
  "net_success s =
     (let n = NetBootFileXferSize s in
      if n > 0 then do {
        g1 \<leftarrow> setenv (bytes_of ''filesize'') (Some (lower_hex n)) (netenv s);
        g2 \<leftarrow> (if n \<ge> 0x200000 then setenv (bytes_of ''rootfs_size'') (Some (lower_hex (n - 0x200000))) g1 else Some g1);
        g3 \<leftarrow> setenv (bytes_of ''fileaddr'') (Some (capital_hex (load_addr g2))) g2;
        Some (s\<lparr>netenv := g3\<rparr>) }
      else Some s)"

fun receive_all :: "consumers \<Rightarrow> (mem \<times> int) list \<Rightarrow> net \<Rightarrow> net option" where
  "receive_all cs [] s = Some s"
| "receive_all cs ((m, len) # fs) s = do { s1 \<leftarrow> NetReceive cs m len s; receive_all cs fs s1 }"

definition run_timer :: "thand \<Rightarrow> net \<Rightarrow> net option" where
  "run_timer f s = (case f of
     T_Tftp \<Rightarrow> TftpTimeout s
   | T_Ping \<Rightarrow> Some (PingTimeout s)
   | T_startAgain \<Rightarrow> Some (s\<lparr>NetState := NETLOOP_RESTART\<rparr>))"

text \<open>One pass of the loop: what arrives in it, whether \<^verbatim>\<open>^C\<close> is pressed (or \<^verbatim>\<open>Tftp_stop\<close> set), and the time.\<close>

record net_input =
  frames :: "(mem \<times> int) list"
  stop :: bool
  now :: u32

datatype outcome = Returns int | Goes_on | Restarts

text \<open>The \<^verbatim>\<open>switch\<close> on \<^verbatim>\<open>NetState\<close> at the end of a pass.\<close>

definition net_next :: "net \<Rightarrow> (outcome \<times> net) option" where
  "net_next s = (case NetState s of
     NETLOOP_CONTINUE \<Rightarrow> Some (Goes_on, s)
   | NETLOOP_RESTART \<Rightarrow> Some (Restarts, s\<lparr>NetRestarted := True\<rparr>)
   | NETLOOP_SUCCESS \<Rightarrow> do { s1 \<leftarrow> net_success s; Some (Returns (sint (NetBootFileXferSize s1)), s1) }
   | NETLOOP_FAIL \<Rightarrow> Some (Returns (- 1), s))"

definition net_pass :: "consumers \<Rightarrow> net_input \<Rightarrow> net \<Rightarrow> (outcome \<times> net) option" where
  "net_pass cs i s = do {
     s1 \<leftarrow> receive_all cs (frames i) (s\<lparr>clock := now i\<rparr>);
     if stop i then Some (Returns (- 1), s1)
     else do {
       s2 \<leftarrow> ArpTimeoutCheck s1;
       case timeHandler s2 of
         Some f \<Rightarrow>
           if clock s2 - timeStart s2 > timeDelta s2 then do {
             s3 \<leftarrow> run_timer f (s2\<lparr>timeHandler := None\<rparr>);
             Some (Returns (- 1), s3) }
           else net_next s2
       | None \<Rightarrow> net_next s2 } }"

text \<open>The loop over the inputs of its passes; without a return code it is still running after the last of them.\<close>

fun net_loop :: "consumers \<Rightarrow> proto_t \<Rightarrow> net_input list \<Rightarrow> net \<Rightarrow> (int option \<times> net) option" where
  "net_loop cs protocol [] s = Some (None, s)"
| "net_loop cs protocol (i # is) s = do {
     (r, s1) \<leftarrow> net_pass cs i s;
     case r of Returns rc \<Rightarrow> Some (Some rc, s1)
     | Goes_on \<Rightarrow> net_loop cs protocol is s1
     | Restarts \<Rightarrow> do {
         r2 \<leftarrow> net_restart protocol s1;
         case r2 of Inl s2 \<Rightarrow> Some (Some (- 1), s2) | Inr s2 \<Rightarrow> net_loop cs protocol is s2 } }"

fun find_device :: "nat \<Rightarrow> bytes \<Rightarrow> bytes list \<Rightarrow> nat \<Rightarrow> nat option" where
  "find_device 0 act names c = None"
| "find_device (Suc n) act names c =
     (if names ! c = act then Some c else find_device n act names (Suc c mod length names))"

definition eth_set_current :: "net \<Rightarrow> net option" where
  "eth_set_current s = (case eth_current s of None \<Rightarrow> Some s
     | Some c \<Rightarrow> do {
         act \<leftarrow> env_value (netenv s) (bytes_of ''ethact'');
         case (case act of None \<Rightarrow> None | Some a \<Rightarrow> find_device (length (eth_names s)) a (eth_names s) c) of
           Some d \<Rightarrow> Some (s\<lparr>eth_current := Some d\<rparr>)
         | None \<Rightarrow> do {
             g \<leftarrow> setenv (bytes_of ''ethact'') (Some (eth_names s ! c)) (netenv s);
             Some (s\<lparr>netenv := g\<rparr>) } })"

definition NetLoop :: "consumers \<Rightarrow> proto_t \<Rightarrow> net_input list \<Rightarrow> net \<Rightarrow> (int option \<times> net) option" where
  "NetLoop cs protocol inputs s = do {
     g \<leftarrow> setenv (bytes_of ''ethact'') (Some (bytes_of ''eth0'')) (netenv s);
     s1 \<leftarrow> eth_set_current (s\<lparr>netenv := g, NetRestarted := False, NetDevExists := False, NetArpWaitPacketMAC := None,
              NetArpWaitPacketIP := 0, NetArpWaitReplyIP := 0, NetArpWaitTxPacketSize := 0\<rparr>);
     s2 \<leftarrow> eth_init s1;
     r \<leftarrow> net_restart protocol s2;
     case r of Inl s3 \<Rightarrow> Some (Some (- 1), s3) | Inr s3 \<Rightarrow> net_loop cs protocol inputs s3 }"

end
