(* ===== verification/NetProps.thy ===== *)
theory NetProps
  imports Net
begin

text \<open>
  The properties of \<^verbatim>\<open>net/net.c\<close>: the checksum of every header it makes is accepted by its own test, a UDP packet it sends
  is handed to the handler of a receiver with the same payload, and an address is resolved by ARP in three frames.
\<close>

section \<open>The checksum\<close>

definition fold_nat :: "nat \<Rightarrow> nat" where
  "fold_nat x = x mod 65536 + x div 65536"

lemma unat_low_half: "unat (x AND 0xffff :: u32) = unat x mod 65536"
proof -
  have "x AND 0xffff = take_bit 16 x" by (simp only: take_bit_eq_mask) (simp add: mask_eq_exp_minus_1)
  then have "unat (x AND 0xffff) = take_bit 16 (unat x)" by (simp only: unsigned_take_bit_eq)
  then show ?thesis by (simp add: take_bit_eq_mod)
qed

lemma unat_not: "unat (NOT x :: u32) = 2 ^ 32 - 1 - unat x"
proof -
  have "NOT x = - 1 - x" by (simp add: not_eq_complement)
  moreover have "unat (- 1 - x) = unat (- 1 :: u32) - unat x" by (rule unat_sub) (rule word_n1_ge)
  ultimately show ?thesis by (simp add: unsigned_minus_1_eq_mask mask_eq_exp_minus_1)
qed

lemma fold_carry_nat: "unat (fold_carry x) = fold_nat (unat x)"
proof -
  have a: "unat (x AND 0xffff) = unat x mod 65536"
    by (rule unat_low_half)
  have b: "unat (drop_bit 16 x) = unat x div 65536"
    by (simp add: drop_bit_eq_div unat_div_distrib)
  have "unat x div 65536 < 65536"
    using unsigned_less [of x, where 'a = nat] by (simp add: less_mult_imp_div_less)
  then have "unat (x AND 0xffff) + unat (drop_bit 16 x) < 2 ^ 32" unfolding a b by (simp add: add_less_mono [of _ 65536 _ 65536, simplified])
  then show ?thesis unfolding fold_carry_def fold_nat_def using a b by (simp add: unat_add_lem [THEN iffD1])
qed

lemma fold_nat_cong: "fold_nat x mod 65535 = x mod 65535"
proof -
  have "x = 65535 * (x div 65536) + fold_nat x" by (simp add: fold_nat_def)
  then show ?thesis by (metis mod_mult_self4)
qed

lemma fold_nat_pos: "0 < x \<Longrightarrow> 0 < fold_nat x"
  unfolding fold_nat_def by (metis add_is_0 div_mult_mod_eq mult_0 neq0_conv)

lemma fold_twice_bound:
  assumes "x < 2 ^ 21"
  shows "fold_nat (fold_nat x) \<le> 65535"
proof -
  have "x div 65536 < 32" using assms by (simp add: less_mult_imp_div_less)
  then have l: "fold_nat x < 65536 + 32" using mod_less_divisor [of 65536 x] unfolding fold_nat_def by linarith
  show ?thesis
  proof (cases "fold_nat x < 65536")
    case True
    then show ?thesis by (simp add: fold_nat_def [of "fold_nat x"])
  next
    case False
    then obtain y where y: "fold_nat x = 65536 + y" "y < 32" using l by (metis add_less_cancel_left le_add_diff_inverse not_less)
    then show ?thesis by (simp add: fold_nat_def [of "65536 + y"])
  qed
qed

lemma fold_multiple:
  assumes "0 < x" "x < 2 ^ 21" "x mod 65535 = 0"
  shows "fold_nat (fold_nat x) = 65535"
proof -
  have "fold_nat (fold_nat x) mod 65535 = 0" using assms(3) by (simp add: fold_nat_cong)
  moreover have "0 < fold_nat (fold_nat x)" using assms(1) by (intro fold_nat_pos)
  moreover note fold_twice_bound [OF assms(2)]
  ultimately show ?thesis by (cases "fold_nat (fold_nat x) < 65535") auto
qed

definition cks :: "u32 \<Rightarrow> u32" where
  "cks x = fold_carry (fold_carry x) AND 0xffff"

lemma cks_nat: "unat x < 2 ^ 21 \<Longrightarrow> unat (cks x) = fold_nat (fold_nat (unat x))"
  using fold_twice_bound [of "unat x"] by (simp add: cks_def unat_low_half fold_carry_nat)

lemma unat_through_u16: "unat (ucast (ucast (x :: u32) :: u16) :: u32) = unat x mod 65536"
proof -
  have "unat (ucast (ucast x :: u16) :: u32) = take_bit 32 (take_bit 16 (unat x))"
    by (simp only: unsigned_ucast_eq unsigned_take_bit_eq) simp
  then show ?thesis by (simp add: take_bit_eq_mod)
qed

text \<open>A sum with the complement of its checksum added passes the test.\<close>

lemma cks_complement:
  assumes "0 < unat s" "unat s < 2 ^ 20"
  shows "cks (s + ucast (ucast (NOT (cks s)) :: u16)) = 0xffff"
proof -
  define c where "c = fold_nat (fold_nat (unat s))"
  have s21: "unat s < 2 ^ 21" using assms(2) by simp
  have c: "unat (cks s) = c" unfolding c_def by (rule cks_nat [OF s21])
  have cb: "c \<le> 65535" unfolding c_def by (rule fold_twice_bound [OF s21])
  have "2 ^ 32 - 1 - c = 65535 * 65536 + (65535 - c)" using cb by simp
  then have "(2 ^ 32 - 1 - c) mod 65536 = 65535 - c" using cb by (simp only: mod_mult_self3) simp
  then have f: "unat (ucast (ucast (NOT (cks s)) :: u16) :: u32) = 65535 - c"
    by (simp only: unat_through_u16 unat_not c)
  have t: "unat (s + ucast (ucast (NOT (cks s)) :: u16)) = unat s + (65535 - c)"
    using f assms(2) by (subst unat_add_lem [THEN iffD1]) auto
  have "(unat s + (65535 - c)) mod 65535 = (c + (65535 - c)) mod 65535"
    by (rule mod_add_cong) (simp_all add: c_def fold_nat_cong)
  then have z: "(unat s + (65535 - c)) mod 65535 = 0" using cb by simp
  have "unat (cks (s + ucast (ucast (NOT (cks s)) :: u16))) = 65535"
    using cks_nat [of "s + ucast (ucast (NOT (cks s)) :: u16)"] fold_multiple [OF _ _ z] assms unfolding t by simp
  then show ?thesis by (simp add: word_unat_eq_iff)
qed


section \<open>Reading frames\<close>

lemma of_be16_be16: "of_be16 (ucast (drop_bit 8 w)) (ucast w) = w"
proof (rule bit_word_eqI)
  fix n assume "n < LENGTH(16)"
  then consider "n < 8" | "8 \<le> n" "n < 16" by fastforce
  then show "bit (of_be16 (ucast (drop_bit 8 w)) (ucast w)) n = bit w n"
    by cases (auto simp: of_be16_def bit_simps)
qed

text \<open>Reading in a list that is known from some place on.\<close>

lemma rd_drop: "drop a m = xs @ r \<Longrightarrow> i < length xs \<Longrightarrow> rd m (a + i) = Some (xs ! i)"
proof -
  assume d: "drop a m = xs @ r" and i: "i < length xs"
  have l: "a + i < length m" using arg_cong [OF d, of length] i by simp
  have "m ! (a + i) = drop a m ! i" using l by simp
  then show ?thesis using l i by (simp add: d nth_append)
qed

lemma rd16_drop: "drop a m = xs @ be16 w @ r \<Longrightarrow> rd16 m (a + length xs) = Some w"
  using rd_drop [of a m "xs @ be16 w" r "length xs"] rd_drop [of a m "xs @ be16 w" r "length xs + 1"]
  by (simp add: rd16_def be16_def nth_append of_be16_be16 mem_simps del: rd_eq_Some)

lemma rd32_drop: "drop a m = xs @ be32 w @ r \<Longrightarrow> rd32 m (a + length xs) = Some w"
  using rd_drop [of a m "xs @ be32 w" r "length xs"] rd_drop [of a m "xs @ be32 w" r "length xs + 1"]
    rd_drop [of a m "xs @ be32 w" r "length xs + 2"] rd_drop [of a m "xs @ be32 w" r "length xs + 3"]
  by (simp add: rd32_def be32_def nth_append of_be32_be32 mem_simps add.assoc del: rd_eq_Some)

lemma cksum_step:
  assumes "drop a m = be16 w @ r"
  shows "cksum_loop m a (Suc n) x = cksum_loop m (a + 2) n (x + ucast w)" "drop (a + 2) m = r"
proof -
  show "cksum_loop m a (Suc n) x = cksum_loop m (a + 2) n (x + ucast w)"
    using rd16_drop [of a m "[]" w r] assms by simp
  have "drop (a + 2) m = drop 2 (drop a m)" by simp
  then show "drop (a + 2) m = r" using assms by (simp add: be16_def)
qed

lemma be16_of_be16: "be16 (of_be16 a b) = [a, b]"
proof -
  have "ucast (drop_bit 8 (of_be16 a b)) = a"
    by (rule bit_word_eqI) (auto simp: of_be16_def bit_simps dest: bit_imp_le_length)
  moreover have "ucast (of_be16 a b) = b" by (rule bit_word_eqI) (auto simp: of_be16_def bit_simps)
  ultimately show ?thesis by (simp add: be16_def)
qed

lemma be32_be16: "be32 w = be16 (ucast (drop_bit 16 w)) @ be16 (ucast w)"
proof -
  have "ucast (drop_bit 24 w) = (ucast (drop_bit 8 (ucast (drop_bit 16 w) :: u16)) :: u8)"
    "ucast (drop_bit 16 w) = (ucast (ucast (drop_bit 16 w) :: u16) :: u8)"
    "ucast (drop_bit 8 w) = (ucast (drop_bit 8 (ucast w :: u16)) :: u8)" "ucast w = (ucast (ucast w :: u16) :: u8)"
    by (rule bit_word_eqI, auto simp: bit_simps)+
  then show ?thesis by (simp add: be32_def be16_def)
qed

text \<open>The ten words of an IP header.\<close>

definition ip_words :: "u16 \<Rightarrow> u16 \<Rightarrow> u8 \<Rightarrow> u16 \<Rightarrow> u32 \<Rightarrow> u32 \<Rightarrow> u16 list" where
  "ip_words len ident proto c src dst =
     [0x4500, len, ident, 0x4000, of_be16 255 proto, c, ucast (drop_bit 16 src), ucast src, ucast (drop_bit 16 dst), ucast dst]"

lemma ip_header_words: "ip_header len ident proto c src dst = concat (map be16 (ip_words len ident proto c src dst))"
proof -
  have "[0x45, 0] = be16 0x4500" by (simp add: be16_def)
  then show ?thesis by (simp add: ip_header_def ip_words_def be32_be16 be16_of_be16)
qed

lemma cksum_words:
  "drop a m = concat (map be16 ws) @ r \<Longrightarrow> cksum_loop m a (length ws) x = Some (x + sum_list (map ucast ws))"
proof (induction ws arbitrary: a x)
  case Nil
  then show ?case by simp
next
  case (Cons w ws)
  then have d: "drop a m = be16 w @ (concat (map be16 ws) @ r)" by simp
  show ?case using Cons.IH [OF cksum_step(2) [OF d], of "x + ucast w"] cksum_step(1) [OF d, of "length ws" x]
    by (simp add: add.assoc)
qed

lemma length_ip_header [simp]: "length (ip_header len ident proto c src dst) = 20"
  by (simp add: ip_header_def)

definition ip_sum :: "u16 \<Rightarrow> u16 \<Rightarrow> u8 \<Rightarrow> u32 \<Rightarrow> u32 \<Rightarrow> u32" where
  "ip_sum len ident proto src dst = sum_list (map ucast (ip_words len ident proto 0 src dst))"

lemma ip_cksum:
  assumes "drop a m = ip_header len ident proto c src dst @ r"
  shows "NetCksum m a (IP_HDR_SIZE_NO_UDP div 2) = Some (cks (ip_sum len ident proto src dst + ucast c))"
proof -
  have n: "length (ip_words len ident proto c src dst) = IP_HDR_SIZE_NO_UDP div 2"
    by (simp add: ip_words_def net_sizes)
  have "sum_list (map ucast (ip_words len ident proto c src dst)) = ip_sum len ident proto src dst + ucast c"
    by (simp add: ip_words_def ip_sum_def)
  then show ?thesis using cksum_words [of a m "ip_words len ident proto c src dst" r 0] assms
    by (simp add: ip_header_words n NetCksum_def cks_def)
qed

lemma unat_ucast16: "unat (ucast (w :: u16) :: u32) = unat w"
proof -
  have "unat (ucast w :: u32) = take_bit 32 (unat w)" by (simp only: unsigned_ucast_eq unsigned_take_bit_eq) simp
  moreover have "unat w < 2 ^ 32" using unsigned_less [of w, where 'a = nat] by simp
  ultimately show ?thesis by (simp add: take_bit_nat_eq_self)
qed

lemma sum_words:
  "length ws \<le> 16 \<Longrightarrow> unat (sum_list (map ucast (ws :: u16 list)) :: u32) = sum_list (map unat ws) \<and> sum_list (map unat ws) \<le> length ws * 65535"
proof (induction ws)
  case Nil
  then show ?case by simp
next
  case (Cons w ws)
  then have IH: "unat (sum_list (map ucast ws) :: u32) = sum_list (map unat ws)" "sum_list (map unat ws) \<le> length ws * 65535" by auto
  have w: "unat w \<le> 65535" using unsigned_less [of w, where 'a = nat] by simp
  have "length ws * 65535 \<le> 16 * 65535" using Cons.prems by simp
  then have "unat (ucast w :: u32) + unat (sum_list (map ucast ws) :: u32) < 2 ^ LENGTH(32)" using w IH by (simp add: unat_ucast16)
  then have "unat (ucast w + sum_list (map ucast ws) :: u32) = unat (ucast w :: u32) + unat (sum_list (map ucast ws) :: u32)"
    by (subst (asm) unat_add_lem)
  then show ?case using w IH by (simp add: unat_ucast16)
qed

lemma ip_sum_range: "0 < unat (ip_sum len ident proto src dst) \<and> unat (ip_sum len ident proto src dst) < 2 ^ 20"
proof -
  let ?ws = "ip_words len ident proto 0 src dst"
  have l: "length ?ws = 10" by (simp add: ip_words_def)
  have "unat (0x4500 :: u16) \<le> sum_list (map unat ?ws)" by (simp add: ip_words_def)
  then show ?thesis using sum_words [of ?ws] l unfolding ip_sum_def by simp
qed

text \<open>The header with the complement of its own checksum in place.\<close>

definition ip_full :: "u16 \<Rightarrow> u16 \<Rightarrow> u8 \<Rightarrow> u32 \<Rightarrow> u32 \<Rightarrow> bytes" where
  "ip_full len ident proto src dst = ip_header len ident proto (ucast (NOT (cks (ip_sum len ident proto src dst)))) src dst"

lemma ip_full_ok: "drop a m = ip_full len ident proto src dst @ r \<Longrightarrow> NetCksumOk m a (IP_HDR_SIZE_NO_UDP div 2) = Some True"
  using ip_sum_range [of len ident proto src dst] unfolding NetCksumOk_def ip_full_def
  by (simp add: ip_cksum cks_complement)


section \<open>UDP\<close>

definition ip_id_of :: "net \<Rightarrow> u16" where
  "ip_id_of s = ucast (NetIPID s)"

definition udp_frame :: "bytes \<Rightarrow> u32 \<Rightarrow> u32 \<Rightarrow> u32 \<Rightarrow> bytes \<Rightarrow> net \<Rightarrow> bytes" where
  "udp_frame mac dest dport sport payload s =
     NetSetEther mac PROT_IP s @ ip_full (of_nat (28 + length payload)) (ucast (NetIPID s)) 17 (NetOurIP s) dest @
     be16 (ucast sport) @ be16 (ucast dport) @ be16 (of_nat (8 + length payload)) @ be16 0 @ payload"

lemma NetSetIP_ok:
  "NetSetIP dest dport sport len s =
     Some (ip_full (of_nat (28 + len)) (ucast (NetIPID s)) 17 (NetOurIP s) dest @
             be16 (ucast sport) @ be16 (ucast dport) @ be16 (of_nat (8 + len)) @ be16 0,
           s\<lparr>NetIPID := NetIPID s + 1\<rparr>)"
proof -
  have "NetCksum (ip_header (of_nat (28 + len)) (ucast (NetIPID s)) 17 0 (NetOurIP s) dest) 0 (IP_HDR_SIZE_NO_UDP div 2) =
      Some (cks (ip_sum (of_nat (28 + len)) (ucast (NetIPID s)) 17 (NetOurIP s) dest))"
    using ip_cksum [of 0 "ip_header (of_nat (28 + len)) (ucast (NetIPID s)) 17 0 (NetOurIP s) dest"
        "of_nat (28 + len)" "ucast (NetIPID s)" 17 0 "NetOurIP s" dest "[]"] by simp
  then show ?thesis by (simp add: NetSetIP_def Let_def IP_HDR_SIZE_def ip_full_def)
qed

text \<open>The two ways of \<^verbatim>\<open>NetSendUDPPacket\<close>.\<close>

definition real_dest :: "u32 \<Rightarrow> u32" where
  "real_dest d = (if d = 0 then 0xFFFFFFFF else d)"

definition real_mac :: "mac_var \<Rightarrow> u32 \<Rightarrow> net \<Rightarrow> bytes" where
  "real_mac v d s = (if real_dest d = 0xFFFFFFFF then NetBcastAddr else mac_of v s)"

lemma send_udp:
  "NetSendUDPPacket v d dport sport payload s =
     Some (let frame = udp_frame (real_mac v d s) (real_dest d) dport sport payload s; s1 = s\<lparr>NetIPID := NetIPID s + 1\<rparr>
           in if real_mac v d s = NetEtherNullAddr then wait_for_arp frame (real_dest d) v s1 else eth_send frame s1)"
  by (simp add: NetSendUDPPacket_def NetSetIP_ok Let_def udp_frame_def real_mac_def real_dest_def)


lemma udp_length:
  assumes "n \<le> 65507"
  shows "uint (of_nat (28 + n) :: u16) = 28 + int n" "(ucast (of_nat (8 + n) :: u16) :: u32) - 8 = of_nat n"
proof -
  show "uint (of_nat (28 + n) :: u16) = 28 + int n" using assms
    by (simp only: unsigned_of_nat) (simp add: take_bit_nat_eq_self)
  have "unat (ucast (of_nat (8 + n) :: u16) :: u32) = 8 + n" using assms
    by (simp only: unat_ucast16 unsigned_of_nat) (simp add: take_bit_nat_eq_self)
  then have "(ucast (of_nat (8 + n) :: u16) :: u32) = of_nat (8 + n)" by (metis of_nat_unat ucast_id)
  then show "(ucast (of_nat (8 + n) :: u16) :: u32) - 8 = of_nat n" by simp
qed

lemma receive_ip_udp:
  assumes d: "drop a m = ip_full (of_nat (28 + length payload)) ident 17 src dst @
      be16 sport @ be16 dport @ be16 (of_nat (8 + length payload)) @ be16 0 @ payload @ r"
    and n: "length payload \<le> 65507" "28 + int (length payload) \<le> len"
    and dst: "NetOurIP s = 0 \<or> dst = NetOurIP s \<or> dst = 0xFFFFFFFF"
  shows "receive_ip m a len s = call_handler m (a + 28) (ucast dport) (ucast sport) (of_nat (length payload)) s"
proof -
  let ?L = "of_nat (28 + length payload) :: u16"
  note e = d [unfolded ip_full_def ip_header_def]
  have len: "rd16 m (a + 2) = Some ?L" using rd16_drop [of a m "[0x45, 0]" ?L] e by simp
  have hl: "rd m a = Some 0x45" using rd_drop [OF e, of 0] by simp
  have off: "rd16 m (a + 6) = Some 0x4000" using rd16_drop [of a m "[0x45, 0] @ be16 ?L @ be16 ident" "0x4000"] e by simp
  have p: "rd m (a + 9) = Some 17"
    using rd_drop [of a m "[0x45, 0] @ be16 ?L @ be16 ident @ be16 0x4000 @ [255, 17]" _ 9] e
    by (simp add: nth_append del: rd_eq_Some)
  have ok: "NetCksumOk m a (IP_HDR_SIZE_NO_UDP div 2) = Some True" by (rule ip_full_ok [OF d])
  let ?h = "[0x45, 0] @ be16 ?L @ be16 ident @ be16 0x4000 @ [255, 17] @ be16 (ucast (NOT (cks (ip_sum ?L ident 17 src dst)))) @ be32 src"
  have to: "rd32 m (a + 16) = Some dst" using rd32_drop [of a m ?h dst] e by simp
  have u: "rd16 m (a + 20) = Some sport" "rd16 m (a + 22) = Some dport" "rd16 m (a + 24) = Some (of_nat (8 + length payload))"
    using rd16_drop [of a m "?h @ be32 dst" sport] rd16_drop [of a m "?h @ be32 dst @ be16 sport" dport]
      rd16_drop [of a m "?h @ be32 dst @ be16 sport @ be16 dport" "of_nat (8 + length payload)"] e by simp_all
  show ?thesis
    unfolding receive_ip_def len hl off p ok to u Option.bind.bind_lunit udp_length [OF n(1)]
    using n dst by (auto simp: IP_HDR_SIZE_def)
qed

text \<open>The Ethernet header of a sender is skipped by a receiver with the same VLAN.\<close>

lemma our_vlan_mask: "our_vlan v AND VLAN_IDMASK = v AND VLAN_IDMASK"
  by (simp add: our_vlan_def net_protocols)

lemma vlan_idem: "(v AND VLAN_IDMASK) AND VLAN_IDMASK = v AND VLAN_IDMASK"
  by (simp add: and.assoc)

lemma length_NetSetEther:
  "length mac = 6 \<Longrightarrow> length (NetOurEther s) = 6 \<Longrightarrow> length (NetSetEther mac prot s) = NetEthHdrSize s"
  by (simp add: NetSetEther_def NetEthHdrSize_def net_sizes)

lemma receive_frame_own:
  assumes l: "length mac = 6" "length (NetOurEther s) = 6" and v: "NetOurVLAN r = NetOurVLAN s"
    and m: "m = NetSetEther mac prot s @ body" and prot: "1514 \<le> prot" "prot \<noteq> PROT_VLAN"
    and len: "int (NetEthHdrSize s) \<le> len" and b: "4 \<le> length body"
  shows "receive_frame m len r =
    (if prot = PROT_ARP then receive_arp m (NetEthHdrSize s) (len - int (NetEthHdrSize s)) r
     else if prot = PROT_RARP then receive_rarp m (NetEthHdrSize s) (len - int (NetEthHdrSize s)) r
     else if prot = PROT_IP then receive_ip m (NetEthHdrSize s) (len - int (NetEthHdrSize s)) r
     else Some r)"
proof (cases "NetOurVLAN s AND VLAN_IDMASK = VLAN_NONE")
  case True
  have "drop 0 m = (mac @ NetOurEther s) @ be16 prot @ body" using m True by (simp add: NetSetEther_def our_vlan_mask)
  from rd16_drop [OF this] have "rd16 m 12 = Some prot" using l by simp
  moreover have "\<not> prot < 1514" using prot(1) by simp
  ultimately show ?thesis using True v prot(2) len
    by (simp add: receive_frame_def receive_proto_def NetEthHdrSize_def our_vlan_mask net_sizes Let_def)
next
  case False
  let ?id = "NetOurVLAN s AND VLAN_IDMASK"
  have d: "drop 0 m = (mac @ NetOurEther s) @ be16 PROT_VLAN @ be16 ?id @ be16 prot @ body"
    using m False by (simp add: NetSetEther_def our_vlan_mask)
  have "rd16 m 12 = Some PROT_VLAN" "rd16 m 14 = Some ?id" "rd16 m 16 = Some prot"
    using rd16_drop [OF d] rd16_drop [of 0 m "mac @ NetOurEther s @ be16 PROT_VLAN" ?id "be16 prot @ body"]
      rd16_drop [of 0 m "mac @ NetOurEther s @ be16 PROT_VLAN @ be16 ?id" prot body] d l by simp_all
  moreover have "\<not> PROT_VLAN < 1514" by (simp add: PROT_VLAN_def)
  ultimately show ?thesis using False v prot(2) len
    by (simp add: receive_frame_def receive_proto_def NetEthHdrSize_def our_vlan_mask vlan_idem net_sizes Let_def)
qed


section \<open>ARP\<close>

definition arp_body :: "u16 \<Rightarrow> bytes \<Rightarrow> u32 \<Rightarrow> bytes \<Rightarrow> u32 \<Rightarrow> bytes" where
  "arp_body op sha spa tha tpa = be16 ARP_ETHER @ be16 PROT_IP @ [6, 4] @ be16 op @ sha @ be32 spa @ tha @ be32 tpa"

lemma length_arp_body: "length sha = 6 \<Longrightarrow> length tha = 6 \<Longrightarrow> length (arp_body op sha spa tha tpa) = 28"
  by (simp add: arp_body_def)

lemma slice_middle: "m = xs @ ys @ zs \<Longrightarrow> p = length xs \<Longrightarrow> n = length ys \<Longrightarrow> slice m p n = ys"
  by (simp add: slice_def)

lemma slice_front: "length xs = n \<Longrightarrow> slice (xs @ ys) 0 n = xs"
  by (simp add: slice_def)

lemma blit_middle: "m = xs @ ys @ zs \<Longrightarrow> p = length xs \<Longrightarrow> length bs = length ys \<Longrightarrow> blit m p bs = xs @ bs @ zs"
  by (simp add: blit_splice)

text \<open>What is read of an ARP packet at \<open>a\<close>.\<close>

lemma arp_fields:
  assumes "drop a m = arp_body op sha spa tha tpa @ r" "length sha = 6" "length tha = 6"
  shows "rd16 m a = Some ARP_ETHER" "rd16 m (a + 2) = Some PROT_IP" "rd m (a + 4) = Some 6" "rd m (a + 5) = Some 4"
    "rd16 m (a + 6) = Some op" "rd32 m (a + 14) = Some spa" "rd32 m (a + 24) = Some tpa"
proof -
  note d = assms(1) [unfolded arp_body_def]
  show "rd16 m a = Some ARP_ETHER" using rd16_drop [of a m "[]" ARP_ETHER] d by simp
  show "rd16 m (a + 2) = Some PROT_IP" using rd16_drop [of a m "be16 ARP_ETHER" PROT_IP] d by simp
  show "rd m (a + 4) = Some 6" "rd m (a + 5) = Some 4"
    using rd_drop [of a m "be16 ARP_ETHER @ be16 PROT_IP @ [6, 4]" _ 4] rd_drop [of a m "be16 ARP_ETHER @ be16 PROT_IP @ [6, 4]" _ 5] d
    by (simp_all add: nth_append del: rd_eq_Some)
  show "rd16 m (a + 6) = Some op" using rd16_drop [of a m "be16 ARP_ETHER @ be16 PROT_IP @ [6, 4]" op] d by simp
  show "rd32 m (a + 14) = Some spa"
    using rd32_drop [of a m "be16 ARP_ETHER @ be16 PROT_IP @ [6, 4] @ be16 op @ sha" spa] d assms by simp
  show "rd32 m (a + 24) = Some tpa"
    using rd32_drop [of a m "be16 ARP_ETHER @ be16 PROT_IP @ [6, 4] @ be16 op @ sha @ be32 spa @ tha" tpa] d assms by simp
qed

lemma arp_answer_ok:
  assumes m: "m = et @ arp_body ARPOP_REQUEST sha spa tha tpa @ r" and l: "length sha = 6" "length tha = 6" "length (NetOurEther s) = 6"
    and et: "length et = NetEthHdrSize s" "length (slice m 6 6) = 6"
  shows "arp_answer m (length et) s =
    eth_send (NetSetEther (slice m 6 6) PROT_ARP s @ arp_body ARPOP_REPLY (NetOurEther s) (NetOurIP s) sha spa) s"
proof -
  let ?a = "length et" and ?et = "NetSetEther (slice m 6 6) PROT_ARP s"
  let ?h = "be16 ARP_ETHER @ be16 PROT_IP @ [6, 4]"
  have el: "length ?et = ?a" using length_NetSetEther [OF et(2) l(3)] et(1) by simp
  have 1: "blit m 0 ?et = ?et @ arp_body ARPOP_REQUEST sha spa tha tpa @ r"
  proof -
    have "length et \<le> length m" "drop (length et) m = arp_body ARPOP_REQUEST sha spa tha tpa @ r" by (simp_all add: m)
    moreover from this(1) have "blit m 0 ?et = take 0 m @ ?et @ drop (0 + length ?et) m" using el by (intro blit_splice) linarith
    ultimately show ?thesis by (simp only: take_0 append_Nil el add_0)
  qed
  have 2: "blit (?et @ arp_body ARPOP_REQUEST sha spa tha tpa @ r) (?a + 6) (be16 ARPOP_REPLY) = ?et @ arp_body ARPOP_REPLY sha spa tha tpa @ r"
    by (subst blit_middle [where xs = "?et @ ?h" and ys = "be16 ARPOP_REQUEST" and zs = "sha @ be32 spa @ tha @ be32 tpa @ r"])
      (simp_all add: arp_body_def el)
  have 3: "slice (?et @ arp_body ARPOP_REPLY sha spa tha tpa @ r) (?a + 8) 6 = sha"
    by (rule slice_middle [where xs = "?et @ ?h @ be16 ARPOP_REPLY" and zs = "be32 spa @ tha @ be32 tpa @ r"]) (simp_all add: arp_body_def el l)
  have 4: "blit (?et @ arp_body ARPOP_REPLY sha spa tha tpa @ r) (?a + 18) sha = ?et @ arp_body ARPOP_REPLY sha spa sha tpa @ r"
    by (subst blit_middle [where xs = "?et @ ?h @ be16 ARPOP_REPLY @ sha @ be32 spa" and ys = tha and zs = "be32 tpa @ r"])
      (simp_all add: arp_body_def el l)
  have 5: "slice (?et @ arp_body ARPOP_REPLY sha spa sha tpa @ r) (?a + 14) 4 = be32 spa"
    by (rule slice_middle [where xs = "?et @ ?h @ be16 ARPOP_REPLY @ sha" and zs = "sha @ be32 tpa @ r"]) (simp_all add: arp_body_def el l)
  have 6: "blit (?et @ arp_body ARPOP_REPLY sha spa sha tpa @ r) (?a + 24) (be32 spa) = ?et @ arp_body ARPOP_REPLY sha spa sha spa @ r"
    by (subst blit_middle [where xs = "?et @ ?h @ be16 ARPOP_REPLY @ sha @ be32 spa @ sha" and ys = "be32 tpa" and zs = r])
      (simp_all add: arp_body_def el l)
  have 7: "blit (?et @ arp_body ARPOP_REPLY sha spa sha spa @ r) (?a + 8) (NetOurEther s) =
      ?et @ arp_body ARPOP_REPLY (NetOurEther s) spa sha spa @ r"
    by (subst blit_middle [where xs = "?et @ ?h @ be16 ARPOP_REPLY" and ys = sha and zs = "be32 spa @ sha @ be32 spa @ r"])
      (simp_all add: arp_body_def el l)
  have 8: "blit (?et @ arp_body ARPOP_REPLY (NetOurEther s) spa sha spa @ r) (?a + 14) (be32 (NetOurIP s)) =
      ?et @ arp_body ARPOP_REPLY (NetOurEther s) (NetOurIP s) sha spa @ r"
    by (subst blit_middle [where xs = "?et @ ?h @ be16 ARPOP_REPLY @ NetOurEther s" and ys = "be32 spa" and zs = "sha @ be32 spa @ r"])
      (simp_all add: arp_body_def el l)
  have 9: "slice (?et @ arp_body ARPOP_REPLY (NetOurEther s) (NetOurIP s) sha spa @ r) 0 (?a + ARP_HDR_SIZE) =
      ?et @ arp_body ARPOP_REPLY (NetOurEther s) (NetOurIP s) sha spa"
    by (rule slice_front [of "?et @ arp_body ARPOP_REPLY (NetOurEther s) (NetOurIP s) sha spa", unfolded append_assoc])
      (simp only: length_append el length_arp_body [OF l(3,1)] ARP_HDR_SIZE_def)
  show ?thesis unfolding arp_answer_def Let_def 1 2 3 4 5 6 7 8 el 9 ..
qed

lemma receive_request:
  assumes m: "m = et @ arp_body ARPOP_REQUEST sha spa tha tpa @ r" and l: "length sha = 6" "length tha = 6" "length (NetOurEther s) = 6"
    and et: "length et = NetEthHdrSize s" "length (slice m 6 6) = 6" and len: "28 \<le> len" and us: "NetOurIP s \<noteq> 0" "tpa = NetOurIP s"
  shows "receive_arp m (length et) len s =
    Some (eth_send (NetSetEther (slice m 6 6) PROT_ARP s @ arp_body ARPOP_REPLY (NetOurEther s) (NetOurIP s) sha spa) s)"
proof -
  have d: "drop (length et) m = arp_body ARPOP_REQUEST sha spa tha tpa @ r" using m by simp
  have "\<not> len < int ARP_HDR_SIZE" using len by (simp add: ARP_HDR_SIZE_def)
  then show ?thesis
    unfolding receive_arp_def arp_fields [OF d l(1,2)] Option.bind.bind_lunit arp_answer_ok [OF m l et, symmetric]
    using us by simp
qed

lemma receive_reply:
  assumes d: "drop a m = arp_body ARPOP_REPLY sha spa tha tpa @ r" and l: "length sha = 6" "length tha = 6"
    and len: "28 \<le> len" and us: "NetOurIP s \<noteq> 0" "tpa = NetOurIP s"
    and w: "NetArpWaitPacketIP s \<noteq> 0" "NetArpWaitPacketMAC s = Some v" "spa = NetArpWaitReplyIP s"
      "0 < NetArpWaitTxPacketSize s"
  shows "\<exists>s2. receive_arp m a len s = Some s2 \<and> mac_of v s2 = sha \<and> NetArpWaitPacketIP s2 = 0 \<and>
    (eth_current s \<noteq> None \<longrightarrow> sent s2 = sent s @ [take (NetArpWaitTxPacketSize s) (blit (NetArpWaitTxPacket s) 0 sha)])"
proof -
  have sl: "slice m (a + 8) 6 = sha"
  proof -
    have "slice m (a + 8) 6 = take 6 (drop 8 (drop a m))" by (simp add: slice_def add.commute)
    then show ?thesis by (simp add: d arp_body_def l)
  qed
  have "\<not> len < int ARP_HDR_SIZE" "ARPOP_REPLY \<noteq> ARPOP_REQUEST" using len by (simp_all add: ARP_HDR_SIZE_def net_protocols)
  then have "receive_arp m a len s = arp_reply m a s"
    unfolding receive_arp_def arp_fields [OF d l] Option.bind.bind_lunit using us by simp
  also have "\<exists>s2. arp_reply m a s = Some s2 \<and> mac_of v s2 = sha \<and> NetArpWaitPacketIP s2 = 0 \<and>
    (eth_current s \<noteq> None \<longrightarrow> sent s2 = sent s @ [take (NetArpWaitTxPacketSize s) (blit (NetArpWaitTxPacket s) 0 sha)])"
    unfolding arp_reply_def arp_fields [OF d l] sl Option.bind.bind_lunit w(2) option.case
    using w by (cases v) (simp_all add: Let_def set_mac_def mac_of_def eth_send_def)
  finally show ?thesis .
qed


section \<open>A machine\<close>

definition no_consumers :: consumers where
  "no_consumers = \<lparr>upgrade_hook = (\<lambda>m len s. Some s), dev_received = (\<lambda>m len s. Some s), NetReceiveHttpd = (\<lambda>m len s. Some s)\<rparr>"

definition sample_net :: "bytes \<Rightarrow> u32 \<Rightarrow> net" where
  "sample_net mac ip = \<lparr>NetOurEther = mac, NetServerEther = NetEtherNullAddr, ping_mac = NetEtherNullAddr, NetOurIP = ip,
     NetServerIP = 0xC0A80102, NetOurGatewayIP = 0, NetOurSubnetMask = 0xFFFFFF00, NetPingIP = 0, PingSeqNo = 0,
     NetOurVLAN = - 1, NetOurNativeVLAN = - 1, NetIPID = 0, NetArpWaitPacketIP = 0, NetArpWaitReplyIP = 0,
     NetArpWaitPacketMAC = None, NetArpWaitTxPacket = [], NetArpWaitTxPacketSize = 0, NetArpWaitTimerStart = 0, NetArpWaitTry = 0,
     packetHandler = Some Rx_Tftp, timeHandler = Some T_Tftp, timeStart = 0, timeDelta = 80000000, NetState = NETLOOP_CONTINUE,
     NetRestarted = False, NetDevExists = True, NetRestartWrap = False, NetBootFileXferSize = 0, gl_probe_upgrade = False,
     upgrade_listen = False, gl_cmd_msg = [], NetUipLoop = False, webfailsafe_is_running = False,
     tf = \<lparr>TftpServerPort = 69, TftpOurPort = 1030, TftpTimeoutCount = 0, TftpBlock = 0, TftpLastBlock = 0, TftpBlockWrap = 0,
            TftpBlockWrapOffset = 0, TftpState = STATE_RRQ, tftp_filename = bytes_of ''u-boot.img'', tftp_file = True\<rparr>,
     ram = (\<lambda>_. 0), netenv = sample_gd, sent = [], eth_names = [bytes_of ''eth0''], eth_current = Some 0, first_failed = None,
     eth_works = (\<lambda>_. True), clock = 0, CFG_HZ = 40000000\<rparr>"

section \<open>Theorems\<close>

definition listening :: "net \<Rightarrow> bool" where
  "listening r \<longleftrightarrow> \<not> gl_probe_upgrade r \<and> \<not> NetUipLoop r \<and> \<not> webfailsafe_is_running r"

lemma NetReceive_listening: "listening r \<Longrightarrow> NetReceive cs m len r = receive_frame m len r"
  by (simp add: listening_def NetReceive_def)

text \<open>C7: a UDP packet arrives as it was sent. When the hardware address is known, \<^verbatim>\<open>NetSendUDPPacket\<close> sends one frame; a
  receiver with the same VLAN setting and the destination address accepts it, whatever follows it in the buffer,
  and hands the handler exactly the payload with its length and the two ports (reduced to 16 bits).\<close>

theorem udp_delivered:
  assumes "real_mac v d s \<noteq> NetEtherNullAddr" "length (real_mac v d s) = 6" "length (NetOurEther s) = 6" "eth_current s \<noteq> None"
    and "length payload \<le> 65507" "listening r" "NetOurVLAN r = NetOurVLAN s"
    and "NetOurIP r = 0 \<or> real_dest d = NetOurIP r \<or> real_dest d = 0xFFFFFFFF"
  shows "\<exists>frame s'. NetSendUDPPacket v d dport sport payload s = Some s' \<and> sent s' = sent s @ [frame] \<and>
    (\<forall>junk. NetReceive cs (frame @ junk) (int (length frame)) r =
         call_handler (frame @ junk) (NetEthHdrSize s + 28) (ucast (ucast dport :: u16)) (ucast (ucast sport :: u16))
           (of_nat (length payload)) r \<and>
       slice (frame @ junk) (NetEthHdrSize s + 28) (length payload) = payload)"
proof -
  let ?a = "NetEthHdrSize s" and ?f = "udp_frame (real_mac v d s) (real_dest d) dport sport payload s"
  define ip where "ip = ip_full (of_nat (28 + length payload)) (ucast (NetIPID s)) 17 (NetOurIP s) (real_dest d)"
  define udp where "udp = be16 (ucast sport) @ be16 (ucast dport) @ be16 (of_nat (8 + length payload)) @ be16 0"
  have el: "length (NetSetEther (real_mac v d s) PROT_IP s) = ?a" by (rule length_NetSetEther [OF assms(2,3)])
  have f: "?f @ junk = NetSetEther (real_mac v d s) PROT_IP s @ (ip @ udp @ payload @ junk)" for junk
    by (simp add: udp_frame_def ip_def udp_def)
  have il: "length ip = 20" "length udp = 8" by (simp_all add: ip_def ip_full_def udp_def)
  have fl: "length ?f = ?a + 28 + length payload" using f [of "[]"] el il by simp
  have send: "NetSendUDPPacket v d dport sport payload s = Some (eth_send ?f (s\<lparr>NetIPID := NetIPID s + 1\<rparr>))"
    using assms(1) by (simp add: send_udp Let_def)
  have "NetReceive cs (?f @ junk) (int (length ?f)) r =
      call_handler (?f @ junk) (?a + 28) (ucast (ucast dport :: u16)) (ucast (ucast sport :: u16)) (of_nat (length payload)) r" for junk
  proof -
    have d: "drop ?a (?f @ junk) = ip_full (of_nat (28 + length payload)) (ucast (NetIPID s)) 17 (NetOurIP s) (real_dest d) @
        be16 (ucast sport) @ be16 (ucast dport) @ be16 (of_nat (8 + length payload)) @ be16 0 @ payload @ junk"
      unfolding f using el by (simp add: ip_def udp_def)
    have fr: "receive_frame (?f @ junk) (int (length ?f)) r = receive_ip (?f @ junk) ?a (int (length ?f) - int ?a) r"
      using receive_frame_own [OF assms(2,3,7) f, of "int (length ?f)"] fl il by (simp add: net_protocols)
    have "28 + int (length payload) \<le> int (length ?f) - int ?a" using fl by simp
    from receive_ip_udp [OF d assms(5) this, of r] show ?thesis
      unfolding NetReceive_listening [OF assms(6)] fr using assms(8) by blast
  qed
  moreover have "slice (?f @ junk) (?a + 28) (length payload) = payload" for junk
    unfolding f using el il by (intro slice_middle [where xs = "NetSetEther (real_mac v d s) PROT_IP s @ ip @ udp" and zs = junk]) simp_all
  ultimately show ?thesis using send assms(4) by (intro exI [of _ ?f]) (auto simp: eth_send_def)
qed

lemma mac_len [simp]: "length NetBcastAddr = 6" "length NetEtherNullAddr = 6"
  by (simp_all add: NetBcastAddr_def NetEtherNullAddr_def)

lemma sample_fields:
  "NetOurEther (sample_net m i) = m" "NetOurIP (sample_net m i) = i" "sent (sample_net m i) = []" "eth_current (sample_net m i) = Some 0"
  "NetOurVLAN (sample_net m i) = - 1" "listening (sample_net m i)" "NetServerEther (sample_net m i) = NetEtherNullAddr"
  "NetEthHdrSize (sample_net m i) = 14" "tf (sample_net m i) = tf (sample_net [] 0)"
  by (simp_all add: sample_net_def listening_def NetEthHdrSize_def our_vlan_def net_protocols ETHER_HDR_SIZE_def)

lemma udp_delivered_witness:
  "\<exists>frame s'. NetSendUDPPacket ServerEther 0xFFFFFFFF 69 1030 [1, 2, 3] (sample_net [2, 0, 0, 0, 0, 1] 0xC0A80101) = Some s' \<and>
    sent s' = [frame] \<and>
    (\<forall>junk. NetReceive no_consumers (frame @ junk) (int (length frame)) (sample_net [2, 0, 0, 0, 0, 2] 0xC0A80102) =
         call_handler (frame @ junk) (14 + 28) (ucast (ucast (69 :: u32) :: u16)) (ucast (ucast (1030 :: u32) :: u16))
           (of_nat (length [1, 2, 3 :: u8])) (sample_net [2, 0, 0, 0, 0, 2] 0xC0A80102) \<and>
       slice (frame @ junk) (14 + 28) (length [1, 2, 3 :: u8]) = [1, 2, 3])"
proof -
  let ?s = "sample_net [2, 0, 0, 0, 0, 1] 0xC0A80101" and ?r = "sample_net [2, 0, 0, 0, 0, 2] 0xC0A80102"
  have m: "real_mac ServerEther 0xFFFFFFFF ?s = NetBcastAddr" "NetBcastAddr \<noteq> NetEtherNullAddr" "real_dest 0xFFFFFFFF = 0xFFFFFFFF"
    by (simp_all add: real_mac_def real_dest_def NetBcastAddr_def NetEtherNullAddr_def)
  show ?thesis
    using udp_delivered [of ServerEther "0xFFFFFFFF" ?s "[1, 2, 3]" ?r 69 1030 no_consumers, unfolded m(1,3) sample_fields(1-5,7,8)] m(2) sample_fields(6)
    by simp
qed

text \<open>Whom \<^verbatim>\<open>ArpRequest\<close> asks for.\<close>

definition arp_target :: "net \<Rightarrow> u32 \<Rightarrow> u32" where
  "arp_target s dest = (if dest AND NetOurSubnetMask s \<noteq> NetOurIP s AND NetOurSubnetMask s \<and> NetOurGatewayIP s \<noteq> 0
     then NetOurGatewayIP s else dest)"

lemma wait_for_arp_ok:
  "wait_for_arp frame dest v s =
     eth_send (NetSetEther NetBcastAddr PROT_ARP s @ arp_body ARPOP_REQUEST (NetOurEther s) (NetOurIP s) (replicate 6 0) (arp_target s dest))
       (s\<lparr>NetArpWaitPacketIP := dest, NetArpWaitPacketMAC := Some v, NetArpWaitTxPacket := frame,
          NetArpWaitTxPacketSize := length frame, NetArpWaitTry := 1, NetArpWaitTimerStart := clock s, NetArpWaitReplyIP := arp_target s dest\<rparr>)"
  by (simp add: wait_for_arp_def ArpRequest_def arp_target_def arp_body_def Let_def NetSetEther_def)

lemma ipid_simps:
  "NetSetEther mac prot (s\<lparr>NetIPID := i\<rparr>) = NetSetEther mac prot s" "arp_target (s\<lparr>NetIPID := i\<rparr>) d = arp_target s d"
  by (simp_all add: NetSetEther_def arp_target_def)

lemma src_mac: "length mac = 6 \<Longrightarrow> length (NetOurEther s) = 6 \<Longrightarrow> slice (NetSetEther mac prot s @ body) 6 6 = NetOurEther s"
  by (simp add: slice_def NetSetEther_def)

lemma vlan_size: "NetOurVLAN r = NetOurVLAN s \<Longrightarrow> NetEthHdrSize r = NetEthHdrSize s"
  by (simp add: NetEthHdrSize_def)

lemma arp_frame_received:
  assumes "length mac = 6" "length (NetOurEther s) = 6" "NetOurVLAN r = NetOurVLAN s" "length sha = 6" "length tha = 6" "listening r"
    and "f = NetSetEther mac PROT_ARP s @ arp_body op sha spa tha tpa"
  shows "NetReceive cs (f @ junk) (int (length f)) r = receive_arp (f @ junk) (NetEthHdrSize s) 28 r"
proof -
  have f: "f @ junk = NetSetEther mac PROT_ARP s @ (arp_body op sha spa tha tpa @ junk)" using assms(7) by simp
  have fl: "length f = NetEthHdrSize s + 28"
    using assms length_NetSetEther [OF assms(1,2), of PROT_ARP] by (simp add: length_arp_body)
  show ?thesis
    unfolding NetReceive_listening [OF assms(6)]
    using receive_frame_own [OF assms(1-3) f, of "int (length f)"] fl assms(4,5)
    by (simp add: length_arp_body) (simp add: net_protocols)
qed

text \<open>C10: ARP resolves an unknown address. A packet for an address that is not yet known is kept and a request for the
  destination, or for the gateway when it is outside the subnet, is broadcast; the machine with that address
  answers, and the answer makes the sender store the address and send the packet, now addressed to the answering
  machine. Each side sends exactly one frame per step, whatever else is in the receive buffers.\<close>

theorem arp_resolves:
  assumes "mac_of v s = NetEtherNullAddr" "d \<noteq> 0" "d \<noteq> 0xFFFFFFFF" "NetOurIP s \<noteq> 0" "eth_current s \<noteq> None" "listening s"
    and "length (NetOurEther s) = 6" "length (NetOurEther r) = 6" "eth_current r \<noteq> None" "listening r"
    and "NetOurVLAN r = NetOurVLAN s" "NetOurIP r = arp_target s d" "NetOurIP r \<noteq> 0"
  shows "\<exists>s1 f1 r1 f2 s2. NetSendUDPPacket v d dport sport payload s = Some s1 \<and> sent s1 = sent s @ [f1] \<and>
    NetReceive cs (f1 @ junk1) (int (length f1)) r = Some r1 \<and> sent r1 = sent r @ [f2] \<and>
    NetReceive cs (f2 @ junk2) (int (length f2)) s1 = Some s2 \<and>
    sent s2 = sent s1 @ [udp_frame (NetOurEther r) d dport sport payload s] \<and>
    mac_of v s2 = NetOurEther r \<and> NetArpWaitPacketIP s2 = 0"
proof -
  let ?a = "NetEthHdrSize s"
  define frame where "frame = udp_frame NetEtherNullAddr d dport sport payload s"
  define f1 where "f1 = NetSetEther NetBcastAddr PROT_ARP s @ arp_body ARPOP_REQUEST (NetOurEther s) (NetOurIP s) (replicate 6 0) (arp_target s d)"
  define f2 where "f2 = NetSetEther (NetOurEther s) PROT_ARP r @ arp_body ARPOP_REPLY (NetOurEther r) (NetOurIP r) (NetOurEther s) (NetOurIP s)"
  define s1 where "s1 = wait_for_arp frame d v (s\<lparr>NetIPID := NetIPID s + 1\<rparr>)"
  have dest: "real_dest d = d" "real_mac v d s = NetEtherNullAddr" using assms(1-3) by (simp_all add: real_dest_def real_mac_def)
  have send: "NetSendUDPPacket v d dport sport payload s = Some s1"
    unfolding send_udp Let_def dest frame_def s1_def by (simp only: if_True simp_thms)
  obtain y where y: "eth_current s = Some y" using assms(5) by auto
  have s1: "sent s1 = sent s @ [f1]" "NetOurIP s1 = NetOurIP s" "NetArpWaitPacketIP s1 = d" "NetArpWaitPacketMAC s1 = Some v"
    "NetArpWaitTxPacket s1 = frame" "NetArpWaitTxPacketSize s1 = length frame" "NetArpWaitReplyIP s1 = arp_target s d"
    "eth_current s1 = Some y" "NetOurVLAN s1 = NetOurVLAN s" "listening s1 = listening s"
    by (simp_all add: s1_def wait_for_arp_ok ipid_simps f1_def eth_send_def y listening_def)
  have r: "NetReceive cs (f1 @ junk1) (int (length f1)) r = Some (r\<lparr>sent := sent r @ [f2]\<rparr>)"
  proof -
    let ?et = "NetSetEther NetBcastAddr PROT_ARP s"
    have m: "f1 @ junk1 = ?et @ arp_body ARPOP_REQUEST (NetOurEther s) (NetOurIP s) (replicate 6 0) (arp_target s d) @ junk1"
      by (simp add: f1_def)
    have el: "length ?et = NetEthHdrSize r" using length_NetSetEther [of NetBcastAddr s PROT_ARP] assms(7) vlan_size [OF assms(11)] by simp
    have sm: "slice (f1 @ junk1) 6 6 = NetOurEther s" unfolding m by (rule src_mac) (simp_all add: assms(7))
    have sl: "length (slice (f1 @ junk1) 6 6) = 6" unfolding sm by (rule assms(7))
    have l6: "length (replicate 6 (0 :: u8)) = 6" by simp
    have "receive_arp (f1 @ junk1) (NetEthHdrSize r) 28 r = Some (eth_send f2 r)"
      using receive_request [OF m assms(7) l6 assms(8) el sl order_refl assms(13) assms(12) [symmetric]]
      unfolding sm el f2_def .
    then show ?thesis
      using arp_frame_received [OF _ assms(7,11) assms(7) _ assms(10) f1_def, of cs junk1] assms(9)
      by (simp add: vlan_size [OF assms(11)] eth_send_def)
  qed
  have nv: "NetOurVLAN s1 = NetOurVLAN r" using assms(11) s1(9) by simp
  have l1: "listening s1" using assms(6) s1(10) by simp
  have rec: "NetReceive cs (f2 @ junk2) (int (length f2)) s1 = receive_arp (f2 @ junk2) (NetEthHdrSize r) 28 s1"
    by (rule arp_frame_received [OF assms(7,8) nv assms(8,7) l1 f2_def])
  have d2: "drop (NetEthHdrSize r) (f2 @ junk2) =
      arp_body ARPOP_REPLY (NetOurEther r) (NetOurIP r) (NetOurEther s) (NetOurIP s) @ junk2"
    using length_NetSetEther [OF assms(7,8), of PROT_ARP] by (simp add: f2_def)
  have fr: "blit frame 0 (NetOurEther r) = udp_frame (NetOurEther r) d dport sport payload s" "length frame = length (udp_frame (NetOurEther r) d dport sport payload s)"
    "0 < length frame"
    using assms(8) by (simp_all add: frame_def udp_frame_def NetSetEther_def blit_splice)
  obtain s2 where s2: "receive_arp (f2 @ junk2) (NetEthHdrSize r) 28 s1 = Some s2"
    "sent s2 = sent s1 @ [udp_frame (NetOurEther r) d dport sport payload s]" "mac_of v s2 = NetOurEther r" "NetArpWaitPacketIP s2 = 0"
    using receive_reply [OF d2 assms(8,7) order_refl _ _ _ s1(4)] assms(2,4,12) fr(2,3) unfolding s1 fr(1) by auto
  show ?thesis using send r rec s2 s1(1) by (intro exI [of _ s1] exI [of _ f1] exI [of _ "r\<lparr>sent := sent r @ [f2]\<rparr>"] exI [of _ f2] exI [of _ s2]) simp
qed

lemma arp_resolves_witness:
  "\<exists>s1 f1 r1 f2 s2. NetSendUDPPacket ServerEther 0xC0A80102 69 1030 [1, 2, 3] (sample_net [2, 0, 0, 0, 0, 1] 0xC0A80101) = Some s1 \<and> sent s1 = [] @ [f1] \<and>
    NetReceive no_consumers (f1 @ [7]) (int (length f1)) (sample_net [2, 0, 0, 0, 0, 2] 0xC0A80102) = Some r1 \<and> sent r1 = [] @ [f2] \<and>
    NetReceive no_consumers (f2 @ []) (int (length f2)) s1 = Some s2 \<and>
    sent s2 = sent s1 @ [udp_frame [2, 0, 0, 0, 0, 2] 0xC0A80102 69 1030 [1, 2, 3] (sample_net [2, 0, 0, 0, 0, 1] 0xC0A80101)] \<and>
    NetServerEther s2 = [2, 0, 0, 0, 0, 2] \<and> NetArpWaitPacketIP s2 = 0"
proof -
  let ?s = "sample_net [2, 0, 0, 0, 0, 1] 0xC0A80101" and ?r = "sample_net [2, 0, 0, 0, 0, 2] 0xC0A80102"
  have m: "mac_of ServerEther x = NetServerEther x" for x by (simp add: mac_of_def)
  have a: "arp_target ?s 0xC0A80102 = 0xC0A80102" by (simp add: arp_target_def sample_net_def)
  show ?thesis
    using arp_resolves [of ServerEther ?s "0xC0A80102" ?r 69 1030 "[1, 2, 3]" no_consumers "[7]" "[]", unfolded m a sample_fields(1-5,7)] sample_fields(6)
    by simp
qed

end
