(* ===== verification/TftpProps.thy ===== *)
theory TftpProps
  imports NetProps
begin

text \<open>
  The properties of the TFTP client. A transfer is a run of steps (\<open>tftp_step\<close>): the server may send block 1, and any block
  whose predecessor the client has acknowledged, any number of times and in any order that allows, so packets can be lost,
  repeated and delayed. In every run the memory holds a prefix of the file, when the client reports success it is
  the whole file, and from every state the transfer can be finished.
\<close>

section \<open>The file and its blocks\<close>

definition file_block :: "bytes \<Rightarrow> nat \<Rightarrow> bytes" where
  "file_block f k = take 512 (drop (512 * (k - 1)) f)"

definition blocks :: "bytes \<Rightarrow> nat" where
  "blocks f = length f div 512 + 1"

lemma length_file_block: "length (file_block f k) = min 512 (length f - 512 * (k - 1))"
  by (simp add: file_block_def)

lemma short_block: "1 \<le> k \<Longrightarrow> k \<le> blocks f \<Longrightarrow> length (file_block f k) < 512 \<longleftrightarrow> k = blocks f"
proof -
  assume k: "1 \<le> k" "k \<le> blocks f"
  have "length (file_block f k) < 512 \<longleftrightarrow> length f < k * 512" using k(1) by (cases k) (auto simp: length_file_block min_less_iff_disj)
  also have "\<dots> \<longleftrightarrow> length f div 512 < k" by (rule div_less_iff_less_mult [symmetric]) simp
  also have "\<dots> \<longleftrightarrow> k = blocks f" using k(2) unfolding blocks_def by linarith
  finally show ?thesis .
qed

lemma prefix_block: "take (512 * (k - 1)) f @ file_block f k = take (512 * k) f" if "1 \<le> k"
proof -
  have "512 * k = 512 * (k - 1) + 512" using that by (cases k) auto
  then show ?thesis by (simp only: file_block_def take_add)
qed

lemma whole_file: "take (512 * blocks f) f = f"
proof -
  have "length f < blocks f * 512" unfolding blocks_def by (subst div_less_iff_less_mult [symmetric]) simp_all
  then show ?thesis by (simp add: mult.commute)
qed

text \<open>Storing a block over a prefix of the file that reaches at least to it.\<close>

lemma unat_offset:
  fixes x a :: u32
  assumes "n < 2 ^ 32"
  shows "unat (x - (a + of_nat n)) = (if n \<le> unat (x - a) then unat (x - a) - n else unat (x - a) + 2 ^ 32 - n)"
proof -
  have u: "unat (of_nat n :: u32) = n" using assms by (rule unat_small)
  have e: "x - (a + of_nat n) = (x - a) - of_nat n" by (rule diff_diff_eq [symmetric])
  show ?thesis unfolding e using unat_sub_if_size [of "x - a" "of_nat n"] by (simp only: u word_size word_le_nat_alt) simp
qed

lemma stored_block:
  assumes "1 \<le> k" "k \<le> got + 1" "k \<le> blocks f" "length f < 2 ^ 31"
  shows "stored (stored d a (take (512 * got) f)) (a + of_nat (512 * (k - 1))) (file_block f k) = stored d a (take (512 * max got k) f)"
proof (rule ext)
  fix x
  obtain i where i: "k = Suc i" using assms(1) by (cases k) auto
  define j where "j = unat (x - a)"
  let ?o = "512 * (k - 1)"
  have o: "?o \<le> length f" using assms(1,3) unfolding blocks_def by (cases k) auto
  then have o32: "?o < 2 ^ 32" using assms(4) by simp
  have off: "unat (x - (a + of_nat ?o)) = (if ?o \<le> j then j - ?o else j + 2 ^ 32 - ?o)"
    unfolding j_def by (rule unat_offset [OF o32])
  have fb: "length (file_block f k) \<le> 512" by (simp add: length_file_block)
  show "stored (stored d a (take (512 * got) f)) (a + of_nat ?o) (file_block f k) x = stored d a (take (512 * max got k) f) x"
  proof (cases "?o \<le> j \<and> j - ?o < length (file_block f k)")
    case True
    then have jk: "j < 512 * k" "j < length f" by (auto simp: i length_file_block min_def split: if_splits)
    moreover have "file_block f k ! (j - ?o) = f ! j" using True o by (simp add: file_block_def)
    moreover have "j < 512 * max got k" using jk(1) by (simp add: max_def)
    ultimately show ?thesis using True unfolding stored_def off by (simp add: j_def [symmetric])
  next
    case False
    have n: "\<not> unat (x - (a + of_nat ?o)) < length (file_block f k)" using False fb o assms(4) unfolding off by auto
    have "j < length (take (512 * got) f) \<longleftrightarrow> j < length (take (512 * max got k) f)"
    proof (cases "k \<le> got")
      case True
      then show ?thesis by (simp add: max_def)
    next
      case k: False
      then have "k = got + 1" using assms(2) by simp
      then show ?thesis using False by (auto simp: length_file_block max_def)
    qed
    then show ?thesis using n unfolding stored_def by (auto simp: j_def [symmetric])
  qed
qed


section \<open>Runs\<close>

text \<open>An acknowledgement of block \<open>k\<close> among the frames the client has sent.\<close>

definition acked :: "net \<Rightarrow> nat \<Rightarrow> bool" where
  "acked s k \<longleftrightarrow> k < 65536 \<and> (\<exists>frame\<in>set (sent s). drop (NetEthHdrSize s + 28) frame = be16 TFTP_ACK @ be16 (of_nat k))"

text \<open>Block \<open>k\<close> of the file in the receive buffer, and the packet with which a server accepts the options.\<close>

definition data_packet :: "bytes \<Rightarrow> nat \<Rightarrow> mem \<Rightarrow> addr \<Rightarrow> u32 \<Rightarrow> bool" where
  "data_packet f k m p len \<longleftrightarrow> (\<exists>junk. drop p m = be16 TFTP_DATA @ be16 (of_nat k) @ file_block f k @ junk) \<and>
     len = of_nat (4 + length (file_block f k))"

definition oack_packet :: "mem \<Rightarrow> addr \<Rightarrow> u32 \<Rightarrow> bool" where
  "oack_packet m p len \<longleftrightarrow> rd16 m p = Some TFTP_OACK \<and> 2 \<le> len"

inductive tftp_step :: "bytes \<Rightarrow> u32 \<Rightarrow> net \<Rightarrow> net \<Rightarrow> bool" for f sp where
  data: "1 \<le> k \<Longrightarrow> k \<le> blocks f \<Longrightarrow> k = 1 \<or> acked s (k - 1) \<Longrightarrow> data_packet f k m p len \<Longrightarrow>
    TftpHandler m p (TftpOurPort (tf s)) sp len s = Some s' \<Longrightarrow> tftp_step f sp s s'"
| oack: "TftpState (tf s) \<in> {STATE_RRQ, STATE_OACK} \<Longrightarrow> oack_packet m p len \<Longrightarrow>
    TftpHandler m p (TftpOurPort (tf s)) sp len s = Some s' \<Longrightarrow> tftp_step f sp s s'"
| stray: "dest \<noteq> TftpOurPort (tf s) \<or> len < 2 \<or> (TftpState (tf s) \<noteq> STATE_RRQ \<and> src \<noteq> TftpServerPort (tf s)) \<Longrightarrow>
    TftpHandler m p dest src len s = Some s' \<Longrightarrow> tftp_step f sp s s'"

text \<open>A client that has sent its request to a server whose hardware address is known.\<close>

definition tftp_ready :: "net \<Rightarrow> bool" where
  "tftp_ready s \<longleftrightarrow> TftpState (tf s) = STATE_RRQ \<and> TftpBlock (tf s) = 0 \<and> NetState s = NETLOOP_CONTINUE \<and>
     NetBootFileXferSize s = 0 \<and> eth_current s \<noteq> None \<and> length (NetOurEther s) = 6 \<and>
     length (real_mac ServerEther (NetServerIP s) s) = 6 \<and> real_mac ServerEther (NetServerIP s) s \<noteq> NetEtherNullAddr \<and>
     (\<forall>k. \<not> acked s k)"

section \<open>One packet\<close>

text \<open>The parts of the state a transfer leaves alone.\<close>

definition same_setup :: "net \<Rightarrow> net \<Rightarrow> bool" where
  "same_setup s s' \<longleftrightarrow> TftpOurPort (tf s') = TftpOurPort (tf s) \<and> netenv s' = netenv s \<and> eth_current s' = eth_current s \<and>
     NetOurVLAN s' = NetOurVLAN s \<and> NetOurEther s' = NetOurEther s \<and> NetServerEther s' = NetServerEther s \<and> NetServerIP s' = NetServerIP s"

lemma same_setup_refl: "same_setup s s"
  by (simp add: same_setup_def)

lemma same_setup_trans: "same_setup s1 s2 \<Longrightarrow> same_setup s2 s3 \<Longrightarrow> same_setup s1 s3"
  by (simp add: same_setup_def)

definition can_send :: "net \<Rightarrow> bool" where
  "can_send s \<longleftrightarrow> eth_current s \<noteq> None \<and> length (NetOurEther s) = 6 \<and>
     length (real_mac ServerEther (NetServerIP s) s) = 6 \<and> real_mac ServerEther (NetServerIP s) s \<noteq> NetEtherNullAddr"

lemma can_send_same: "same_setup s s' \<Longrightarrow> can_send s \<Longrightarrow> can_send s'"
proof -
  assume e: "same_setup s s'" and c: "can_send s"
  have "real_mac ServerEther (NetServerIP s') s' = real_mac ServerEther (NetServerIP s) s"
    using e by (simp add: same_setup_def real_mac_def mac_of_def)
  then show ?thesis using e c by (simp add: same_setup_def can_send_def)
qed

lemma be16_eq: "be16 a = be16 b \<longleftrightarrow> a = b"
proof
  assume "be16 a = be16 b"
  then have "(ucast (drop_bit 8 a) :: u8) = ucast (drop_bit 8 b)" "(ucast a :: u8) = ucast b" by (simp_all only: be16_def list.inject)
  then have "of_be16 (ucast (drop_bit 8 a)) (ucast a) = of_be16 (ucast (drop_bit 8 b)) (ucast b)" by (simp only:)
  then show "a = b" by (simp only: of_be16_be16)
qed simp

lemma of_nat_u16: "i < 65536 \<Longrightarrow> j < 65536 \<Longrightarrow> (of_nat i :: u16) = of_nat j \<longleftrightarrow> i = j"
proof -
  assume "i < 65536" "j < 65536"
  then have u: "unat (of_nat i :: u16) = i" "unat (of_nat j :: u16) = j"
    by (simp_all only: unsigned_of_nat) (simp_all add: take_bit_nat_eq_self)
  show ?thesis
  proof
    assume "(of_nat i :: u16) = of_nat j"
    then have "unat (of_nat i :: u16) = unat (of_nat j :: u16)" by (rule arg_cong)
    then show "i = j" unfolding u .
  qed simp
qed

text \<open>Sending an acknowledgement: what is acknowledged after it.\<close>

lemma TftpSend_ack:
  assumes c: "can_send s" and t: "TftpState (tf s) \<in> {STATE_DATA, STATE_OACK}" "ucast (TftpBlock (tf s)) = (of_nat b :: u16)" "b < 65536"
  shows "\<exists>s'. TftpSend s = Some s' \<and> (\<forall>k. acked s' k \<longleftrightarrow> acked s k \<or> k = b) \<and> same_setup s s' \<and> tf s' = tf s \<and> ram s' = ram s \<and>
    NetState s' = NetState s \<and> NetBootFileXferSize s' = NetBootFileXferSize s"
proof -
  define mac where "mac = real_mac ServerEther (NetServerIP s) s"
  define pay where "pay = be16 TFTP_ACK @ be16 (of_nat b)"
  define frame where "frame = udp_frame mac (real_dest (NetServerIP s)) (TftpServerPort (tf s)) (TftpOurPort (tf s)) pay s"
  have mac: "length mac = 6" "mac \<noteq> NetEtherNullAddr" and e: "eth_current s \<noteq> None" "length (NetOurEther s) = 6"
    using c by (simp_all add: can_send_def mac_def)
  have pk: "tftp_packet (tf s) = pay" using t by (auto simp: tftp_packet_def pay_def)
  have send: "TftpSend s = Some (s\<lparr>NetIPID := NetIPID s + 1, sent := sent s @ [frame]\<rparr>)"
    using mac(2) e(1) by (simp add: TftpSend_def pk send_udp Let_def mac_def [symmetric] frame_def [symmetric] eth_send_def)
  have "length (NetSetEther mac PROT_IP s) = NetEthHdrSize s" by (rule length_NetSetEther [OF mac(1) e(2)])
  then have d: "drop (NetEthHdrSize s + 28) frame = pay"
    by (simp add: frame_def udp_frame_def ip_full_def)
  have "acked (s\<lparr>NetIPID := NetIPID s + 1, sent := sent s @ [frame]\<rparr>) k \<longleftrightarrow> acked s k \<or> k = b" for k
    using d t(3) by (auto simp: acked_def NetEthHdrSize_def pay_def be16_eq of_nat_u16)
  then show ?thesis using send by (simp add: same_setup_def)
qed


section \<open>Storing a block\<close>

lemma ucast_of_nat: "(ucast (of_nat n :: u32) :: u16) = of_nat n"
  by transfer simp

lemma ucast_of_nat_up: "k < 65536 \<Longrightarrow> (ucast (of_nat k :: u16) :: u32) = of_nat k"
  by transfer (simp add: take_bit_int_eq_self take_bit_eq_mod)

lemma u32_less: "i < 2 ^ 32 \<Longrightarrow> j < 2 ^ 32 \<Longrightarrow> (of_nat i :: u32) < of_nat j \<longleftrightarrow> i < j"
  using unat_small [of i] unat_small [of j] by (simp only: word_less_nat_alt)

lemma blocks_length: "blocks f \<le> 65535 \<Longrightarrow> length f < 2 ^ 25"
proof -
  assume "blocks f \<le> 65535"
  then have "length f div 512 < 65535" by (simp add: blocks_def)
  then have "length f < 65535 * 512" by (subst (asm) div_less_iff_less_mult) simp_all
  then show ?thesis by simp
qed

lemma block_end: "1 \<le> k \<Longrightarrow> k \<le> blocks f \<Longrightarrow> 512 * (k - 1) + length (file_block f k) = min (512 * k) (length f)"
proof -
  assume k: "1 \<le> k" "k \<le> blocks f"
  then obtain i where i: "k = Suc i" by (cases k) auto
  have "512 * i \<le> length f" using k(2) unfolding i blocks_def by linarith
  then show ?thesis by (simp add: i length_file_block min_def) arith
qed

lemma store_block_ok:
  assumes k: "1 \<le> k" "k \<le> blocks f" "k \<le> got + 1" "blocks f \<le> 65535"
    and t: "TftpBlockWrapOffset (tf s) = 0" and d: "drop p m = file_block f k @ junk" "p + length (file_block f k) \<le> length m"
    and ram: "ram s = stored d0 a (take (512 * got) f)" "load_addr (netenv s) = a"
    and x: "NetBootFileXferSize s = of_nat (min (512 * got) (length f))"
  shows "store_block (of_nat k - 1) m p (of_nat (length (file_block f k))) s =
    Some (s\<lparr>ram := stored d0 a (take (512 * max got k) f), NetBootFileXferSize := of_nat (min (512 * max got k) (length f))\<rparr>)"
proof -
  let ?L = "length (file_block f k)"
  note n = blocks_length [OF k(4)]
  have fb: "?L \<le> 512" by (simp add: length_file_block)
  have L: "unat (of_nat ?L :: u32) = ?L" using fb by (intro unat_small) simp
  have sl: "slice m p ?L = file_block f k" by (simp add: slice_def d(1))
  have off: "(of_nat k - 1) * TFTP_BLOCK_SIZE + TftpBlockWrapOffset (tf s) = of_nat (512 * (k - 1))"
    using k(1) by (simp add: t TFTP_BLOCK_SIZE_def of_nat_diff)
  have size: "(of_nat (512 * (k - 1)) :: u32) + of_nat ?L = of_nat (min (512 * k) (length f))"
    unfolding of_nat_add [symmetric] block_end [OF k(1,2)] ..
  have st: "stored (ram s) (load_addr (netenv s) + of_nat (512 * (k - 1))) (file_block f k) = stored d0 a (take (512 * max got k) f)"
    unfolding ram using stored_block [OF k(1,3,2)] n by simp
  have b: "min (512 * i) (length f) < 2 ^ 32" for i using n by (simp add: min_def)
  have mx: "(if (of_nat (min (512 * got) (length f)) :: u32) < of_nat (min (512 * k) (length f)) then of_nat (min (512 * k) (length f))
      else of_nat (min (512 * got) (length f))) = (of_nat (min (512 * max got k) (length f)) :: u32)"
    unfolding u32_less [OF b b] by (auto simp: max_def min_def)
  show ?thesis unfolding store_block_def Let_def off size L sl st x mx using d(2) by simp
qed


definition tftp_inv :: "bytes \<Rightarrow> u32 \<Rightarrow> net \<Rightarrow> nat \<Rightarrow> net \<Rightarrow> bool" where
  "tftp_inv f sp s0 got s \<longleftrightarrow>
     same_setup s0 s \<and> can_send s \<and> got \<le> blocks f \<and>
     ram s = stored (ram s0) (load_addr (netenv s0)) (take (512 * got) f) \<and>
     NetBootFileXferSize s = of_nat (min (512 * got) (length f)) \<and> (\<forall>k. acked s k \<longrightarrow> k \<le> got) \<and>
     NetState s = (if got = blocks f then NETLOOP_SUCCESS else NETLOOP_CONTINUE) \<and>
     (if got = 0 then (TftpState (tf s) = STATE_RRQ \<or> TftpState (tf s) = STATE_OACK \<and> TftpServerPort (tf s) = sp) \<and> TftpBlock (tf s) = 0
      else TftpState (tf s) = STATE_DATA \<and> TftpServerPort (tf s) = sp \<and> TftpBlockWrapOffset (tf s) = 0 \<and> acked s got \<and>
        (\<exists>l. 1 \<le> l \<and> l \<le> got \<and> TftpLastBlock (tf s) = of_nat l))"

text \<open>What follows the tests of a data packet: the block is stored, acknowledged, and may be the last.\<close>

definition take_block :: "mem \<Rightarrow> addr \<Rightarrow> u32 \<Rightarrow> tftp \<Rightarrow> net \<Rightarrow> net option" where
  "take_block m p len t1 s = do {
     let s1 = NetSetTimeout (TIMEOUT * CFG_HZ s) T_Tftp (s\<lparr>tf := t1\<lparr>TftpLastBlock := TftpBlock t1\<rparr>\<rparr>);
     s2 \<leftarrow> store_block (TftpBlock t1 - 1) m (p + 2) len s1;
     s3 \<leftarrow> TftpSend s2;
     Some (if len < TFTP_BLOCK_SIZE then s3\<lparr>NetState := NETLOOP_SUCCESS\<rparr> else s3) }"

lemma NetSetTimeout_simps [simp]:
  "same_setup s (NetSetTimeout iv h s')  = same_setup s s'" "tf (NetSetTimeout iv h s') = tf s'" "ram (NetSetTimeout iv h s') = ram s'"
  "netenv (NetSetTimeout iv h s') = netenv s'" "NetBootFileXferSize (NetSetTimeout iv h s') = NetBootFileXferSize s'"
  "NetState (NetSetTimeout iv h s') = NetState s'" "acked (NetSetTimeout iv h s') = acked s'"
  by (simp_all add: NetSetTimeout_def same_setup_def acked_def NetEthHdrSize_def fun_eq_iff)

lemma take_block_ok:
  assumes inv: "same_setup s0 s" "can_send s" "ram s = stored (ram s0) (load_addr (netenv s0)) (take (512 * got) f)"
      "NetBootFileXferSize s = of_nat (min (512 * got) (length f))" "\<forall>k. acked s k \<longrightarrow> k \<le> got"
      "NetState s = (if got = blocks f then NETLOOP_SUCCESS else NETLOOP_CONTINUE)" "got \<le> blocks f" "got = 0 \<or> acked s got"
    and t: "TftpState t = STATE_DATA" "TftpServerPort t = sp" "TftpBlockWrapOffset t = 0" "TftpBlock t = of_nat k" "TftpOurPort t = TftpOurPort (tf s)"
    and k: "1 \<le> k" "k \<le> blocks f" "k \<le> got + 1" "blocks f \<le> 65535"
    and d: "drop (p + 2) m = file_block f k @ junk" "p + 2 + length (file_block f k) \<le> length m"
  shows "\<exists>s'. take_block m p (of_nat (length (file_block f k))) t s = Some s' \<and> tftp_inv f sp s0 (max got k) s'"
proof -
  let ?L = "length (file_block f k)"
  define s1 where "s1 = NetSetTimeout (TIMEOUT * CFG_HZ s) T_Tftp (s\<lparr>tf := t\<lparr>TftpLastBlock := TftpBlock t\<rparr>\<rparr>)"
  define s2 where "s2 = s1\<lparr>ram := stored (ram s0) (load_addr (netenv s0)) (take (512 * max got k) f),
    NetBootFileXferSize := of_nat (min (512 * max got k) (length f))\<rparr>"
  have su: "same_setup s s1" using t(5) by (simp add: s1_def) (simp add: same_setup_def)
  have su2: "same_setup s0 s2" using same_setup_trans [OF inv(1) su] by (simp add: s2_def same_setup_def)
  have s1: "TftpBlockWrapOffset (tf s1) = 0" "ram s1 = stored (ram s0) (load_addr (netenv s0)) (take (512 * got) f)"
    "load_addr (netenv s1) = load_addr (netenv s0)" "NetBootFileXferSize s1 = of_nat (min (512 * got) (length f))"
    using inv t by (simp_all add: s1_def same_setup_def)
  have store: "store_block (TftpBlock t - 1) m (p + 2) (of_nat ?L) s1 = Some s2"
    unfolding t(4) s2_def by (rule store_block_ok [OF k s1(1) d s1(2-4)])
  have "same_setup s s2" using su by (simp add: s2_def same_setup_def)
  note c2 = can_send_same [OF this inv(2)]
  have k16: "k < 65536" using k by simp
  have b: "ucast (TftpBlock (tf s2)) = (of_nat k :: u16)"
    unfolding s2_def s1_def using t(4) by (simp add: ucast_of_nat)
  obtain s3 where s3: "TftpSend s2 = Some s3" "\<forall>j. acked s3 j \<longleftrightarrow> acked s2 j \<or> j = k" "same_setup s2 s3" "tf s3 = tf s2" "ram s3 = ram s2"
    "NetState s3 = NetState s2" "NetBootFileXferSize s3 = NetBootFileXferSize s2"
    using TftpSend_ack [OF c2 _ b k16] t(1) by (auto simp: s2_def s1_def)
  have a2: "acked s2 = acked s" by (simp add: s2_def s1_def acked_def NetEthHdrSize_def fun_eq_iff NetSetTimeout_def)
  have short: "(of_nat ?L :: u32) < TFTP_BLOCK_SIZE \<longleftrightarrow> k = blocks f"
    using u32_less [of ?L 512] short_block [OF k(1,2)] by (simp add: TFTP_BLOCK_SIZE_def length_file_block)
  let ?s' = "if (of_nat ?L :: u32) < TFTP_BLOCK_SIZE then s3\<lparr>NetState := NETLOOP_SUCCESS\<rparr> else s3"
  have run: "take_block m p (of_nat ?L) t s = Some ?s'"
    by (simp only: take_block_def Let_def s1_def [symmetric] store s3(1) Option.bind.bind_lunit)
  have su23: "same_setup s2 ?s'" using s3(3) by (simp add: same_setup_def)
  note su3 = same_setup_trans [OF su2 su23] and c' = can_send_same [OF su23 c2]
  have ack': "acked ?s' j \<longleftrightarrow> acked s j \<or> j = k" for j using s3(2) a2 by (simp add: acked_def NetEthHdrSize_def)
  have st: "NetState ?s' = (if max got k = blocks f then NETLOOP_SUCCESS else NETLOOP_CONTINUE)"
    unfolding short using s3(6) inv(6,7) k(2) by (auto simp: s2_def s1_def max_def)
  have "tf ?s' = t\<lparr>TftpLastBlock := TftpBlock t\<rparr>" "ram ?s' = ram s2" "NetBootFileXferSize ?s' = NetBootFileXferSize s2"
    using s3 by (simp_all add: s2_def s1_def)
  moreover have "acked s (max got k) \<or> max got k = k" using inv(8) k(1) by (auto simp: max_def)
  moreover have "1 \<le> k" "k \<le> max got k" "max got k \<le> blocks f" "max got k \<noteq> 0" using k inv(7) by auto
  moreover have "\<forall>j. acked ?s' j \<longrightarrow> j \<le> max got k" using ack' inv(5) by (auto simp: max_def)
  ultimately have "tftp_inv f sp s0 (max got k) ?s'"
    using su3 c' st ack' t unfolding tftp_inv_def s2_def by auto
  with run show ?thesis by blast
qed


section \<open>The handler\<close>

lemma tftp_data_packet:
  assumes d: "data_packet f k m p len" and k: "k < 65536"
  shows "TftpHandler m p (TftpOurPort (tf s)) sp len s =
    (if TftpState (tf s) \<noteq> STATE_RRQ \<and> sp \<noteq> TftpServerPort (tf s) then Some s
     else tftp_data m (p + 2) sp (of_nat (2 + length (file_block f k))) s)"
    "rd16 m (p + 2) = Some (of_nat k)" "\<exists>junk. drop (p + 4) m = file_block f k @ junk" "p + 4 + length (file_block f k) \<le> length m"
proof -
  obtain junk where m: "drop p m = be16 TFTP_DATA @ be16 (of_nat k) @ file_block f k @ junk" and l: "len = of_nat (4 + length (file_block f k))"
    using d by (auto simp: data_packet_def)
  have fb: "length (file_block f k) \<le> 512" by (simp add: length_file_block)
  then have n: "\<not> len < 2" using u32_less [of "4 + length (file_block f k)" 2] by (simp add: l)
  have l2: "len - 2 = of_nat (2 + length (file_block f k))" by (simp add: l)
  have r: "rd16 m p = Some TFTP_DATA" using rd16_drop [of p m "[]" TFTP_DATA] m by simp
  show "TftpHandler m p (TftpOurPort (tf s)) sp len s =
    (if TftpState (tf s) \<noteq> STATE_RRQ \<and> sp \<noteq> TftpServerPort (tf s) then Some s
     else tftp_data m (p + 2) sp (of_nat (2 + length (file_block f k))) s)"
    unfolding TftpHandler_def r Option.bind.bind_lunit l2 using n by (simp add: tftp_codes)
  show "rd16 m (p + 2) = Some (of_nat k)" using rd16_drop [of p m "be16 TFTP_DATA" "of_nat k"] m by simp
  have "drop (p + 4) m = drop 4 (drop p m)" by (simp add: add.commute)
  then have "drop (p + 4) m = file_block f k @ junk" by (simp add: m be16_def eval_nat_numeral)
  then show "\<exists>junk. drop (p + 4) m = file_block f k @ junk" by blast
  have "length (drop p m) = 4 + length (file_block f k) + length junk" by (simp add: m)
  then show "p + 4 + length (file_block f k) \<le> length m" by simp
qed

lemma data_step:
  assumes inv: "tftp_inv f sp s0 got s" and k: "1 \<le> k" "k \<le> blocks f" "k \<le> got + 1" "blocks f \<le> 65535"
    and d: "data_packet f k m p len"
  shows "\<exists>s'. TftpHandler m p (TftpOurPort (tf s)) sp len s = Some s' \<and> tftp_inv f sp s0 (max got k) s'"
proof -
  have k16: "k < 65536" using k by simp
  note P = tftp_data_packet [OF d k16]
  obtain junk where junk: "drop (p + 2 + 2) m = file_block f k @ junk" using P(3) by (auto simp: eval_nat_numeral)
  have lm: "p + 2 + 2 + length (file_block f k) \<le> length m" using P(4) by simp
  have fb: "length (file_block f k) \<le> 512" by (simp add: length_file_block)
  let ?n = "2 + length (file_block f k)"
  have n: "\<not> (of_nat ?n :: u32) < 2" "(of_nat ?n :: u32) - 2 = of_nat (length (file_block f k))"
    using u32_less [of ?n 2] fb by simp_all
  have kn: "(of_nat k :: u32) \<noteq> 0" using k16 k(1) by (simp add: of_nat_zero_small)
  let ?t = "(tf s)\<lparr>TftpBlock := of_nat k\<rparr>"
  have nb: "note_block (ucast (of_nat k :: u16)) (tf s) = ?t" using kn by (simp add: note_block_def ucast_of_nat_up [OF k16])
  have inv0: "same_setup s0 s" "can_send s" "ram s = stored (ram s0) (load_addr (netenv s0)) (take (512 * got) f)"
      "NetBootFileXferSize s = of_nat (min (512 * got) (length f))" "\<forall>k. acked s k \<longrightarrow> k \<le> got"
      "NetState s = (if got = blocks f then NETLOOP_SUCCESS else NETLOOP_CONTINUE)" "got \<le> blocks f" "got = 0 \<or> acked s got"
    using inv by (auto simp: tftp_inv_def split: if_splits)
  have port: "\<not> (TftpState (tf s) \<noteq> STATE_RRQ \<and> sp \<noteq> TftpServerPort (tf s))" using inv by (auto simp: tftp_inv_def split: if_splits)
  have h: "TftpHandler m p (TftpOurPort (tf s)) sp len s = tftp_data m (p + 2) sp (of_nat ?n) s" unfolding P(1) if_not_P [OF port] ..
  show ?thesis
  proof (cases "got = 0")
    case True
    then have st: "TftpState (tf s) = STATE_RRQ \<or> TftpState (tf s) = STATE_OACK" and k1: "k = 1" using inv k by (auto simp: tftp_inv_def)
    let ?t1 = "?t\<lparr>TftpState := STATE_DATA, TftpServerPort := sp, TftpLastBlock := 0, TftpBlockWrap := 0, TftpBlockWrapOffset := 0\<rparr>"
    have fb1: "first_block sp ?t = ?t1" using st by (auto simp: first_block_def)
    have "tftp_data m (p + 2) sp (of_nat ?n) s = take_block m (p + 2) (of_nat (length (file_block f k))) ?t1 s"
      unfolding tftp_data_def if_not_P [OF n(1)] P(2) Option.bind.bind_lunit nb n(2) Let_def fb1 take_block_def
      using k1 by simp
    moreover have "\<exists>s'. take_block m (p + 2) (of_nat (length (file_block f k))) ?t1 s = Some s' \<and> tftp_inv f sp s0 (max got k) s'"
      by (rule take_block_ok [OF inv0 _ _ _ _ _ k junk lm]) simp_all
    ultimately show ?thesis using h by simp
  next
    case False
    then obtain l where st: "TftpState (tf s) = STATE_DATA" "TftpServerPort (tf s) = sp" "TftpBlockWrapOffset (tf s) = 0"
      and l: "1 \<le> l" "l \<le> got" "TftpLastBlock (tf s) = of_nat l" using inv by (auto simp: tftp_inv_def)
    have fb1: "first_block sp ?t = ?t" using st by (simp add: first_block_def)
    show ?thesis
    proof (cases "k = l")
      case True
      have "tftp_data m (p + 2) sp (of_nat ?n) s = Some (s\<lparr>tf := ?t\<rparr>)"
        unfolding tftp_data_def if_not_P [OF n(1)] P(2) Option.bind.bind_lunit nb n(2) Let_def fb1
        using st l True by simp
      moreover have "tftp_inv f sp s0 (max got k) (s\<lparr>tf := ?t\<rparr>)"
      proof -
        have su: "same_setup s (s\<lparr>tf := ?t\<rparr>)" by (simp add: same_setup_def)
        have mx: "max got k = got" using True l(2) by (simp add: max_def)
        have "acked (s\<lparr>tf := ?t\<rparr>) = acked s" by (simp add: acked_def NetEthHdrSize_def fun_eq_iff)
        then show ?thesis
          using inv False st l same_setup_trans [OF inv0(1) su] can_send_same [OF su inv0(2)] unfolding mx tftp_inv_def by auto
      qed
      ultimately show ?thesis using h by simp
    next
      case new: False
      have "(of_nat k :: u32) \<noteq> of_nat l"
      proof
        assume "(of_nat k :: u32) = of_nat l"
        then have "unat (of_nat k :: u32) = unat (of_nat l :: u32)" by (rule arg_cong)
        moreover have "unat (of_nat k :: u32) = k" "unat (of_nat l :: u32) = l"
          using k16 l(2) inv0(7) k(4) by (intro unat_small, simp)+
        ultimately show False using new by simp
      qed
      then have "tftp_data m (p + 2) sp (of_nat ?n) s = take_block m (p + 2) (of_nat (length (file_block f k))) ?t s"
        unfolding tftp_data_def if_not_P [OF n(1)] P(2) Option.bind.bind_lunit nb n(2) Let_def fb1 take_block_def
        using st l by simp
      moreover have "\<exists>s'. take_block m (p + 2) (of_nat (length (file_block f k))) ?t s = Some s' \<and> tftp_inv f sp s0 (max got k) s'"
        by (rule take_block_ok [OF inv0 _ _ _ _ _ k junk lm]) (simp_all add: st)
      ultimately show ?thesis using h by simp
    qed
  qed
qed

lemma oack_step:
  assumes inv: "tftp_inv f sp s0 got s" and st: "TftpState (tf s) \<in> {STATE_RRQ, STATE_OACK}" and o: "oack_packet m p len"
    and h: "TftpHandler m p (TftpOurPort (tf s)) sp len s = Some s'"
  shows "tftp_inv f sp s0 got s'"
proof -
  let ?t = "(tf s)\<lparr>TftpState := STATE_OACK, TftpServerPort := sp\<rparr>"
  let ?s = "s\<lparr>tf := ?t\<rparr>"
  have got: "got = 0" "TftpBlock (tf s) = 0" using inv st by (auto simp: tftp_inv_def split: if_splits)
  have port: "\<not> (TftpState (tf s) \<noteq> STATE_RRQ \<and> sp \<noteq> TftpServerPort (tf s))" using inv by (auto simp: tftp_inv_def split: if_splits)
  have l: "\<not> len < 2" and r: "rd16 m p = Some TFTP_OACK" using o by (simp_all add: oack_packet_def not_less)
  have send: "TftpSend ?s = Some s'"
    using h unfolding TftpHandler_def r Option.bind.bind_lunit if_not_P [OF l] if_not_P [OF port] by simp
  have su: "same_setup s ?s" by (simp add: same_setup_def)
  have c: "can_send ?s" by (rule can_send_same [OF su]) (use inv in \<open>simp add: tftp_inv_def\<close>)
  from TftpSend_ack [OF c, of 0] got(2) send
  have s': "\<forall>k. acked s' k \<longleftrightarrow> acked ?s k \<or> k = 0" "same_setup ?s s'" "tf s' = ?t" "ram s' = ram s" "NetState s' = NetState s"
    "NetBootFileXferSize s' = NetBootFileXferSize s" by auto
  have "same_setup s0 s'" using inv same_setup_trans [OF _ same_setup_trans [OF su s'(2)]] by (simp add: tftp_inv_def)
  moreover have "can_send s'" by (rule can_send_same [OF s'(2) c])
  moreover have "acked ?s = acked s" by (simp add: acked_def NetEthHdrSize_def fun_eq_iff)
  ultimately show ?thesis using inv s' got unfolding tftp_inv_def by auto
qed

lemma stray_step:
  "dest \<noteq> TftpOurPort (tf s) \<or> len < 2 \<or> (TftpState (tf s) \<noteq> STATE_RRQ \<and> src \<noteq> TftpServerPort (tf s)) \<Longrightarrow>
   TftpHandler m p dest src len s = Some s"
  by (auto simp: TftpHandler_def)

lemma inv_step:
  assumes "tftp_inv f sp s0 got s" "tftp_step f sp s s'" "blocks f \<le> 65535"
  shows "\<exists>got'. tftp_inv f sp s0 got' s'"
  using assms(2)
proof cases
  case (data k m p len)
  have "k \<le> got + 1" using data(1,3) assms(1) by (auto simp: tftp_inv_def)
  from data_step [OF assms(1) data(1,2) this assms(3) data(4)] data(5) show ?thesis by auto
next
  case (oack m p len)
  from oack_step [OF assms(1) oack] show ?thesis ..
next
  case (stray dest len src m p)
  from stray_step [OF stray(1), of m p] stray(2) assms(1) show ?thesis by auto
qed

lemma inv_ready: "tftp_ready s \<Longrightarrow> tftp_inv f sp s 0 s"
  by (auto simp: tftp_ready_def tftp_inv_def same_setup_refl can_send_def blocks_def stored_def)

lemma inv_run:
  assumes "tftp_ready s0" "(tftp_step f sp)\<^sup>*\<^sup>* s0 s" "blocks f \<le> 65535"
  shows "\<exists>got. tftp_inv f sp s0 got s"
  using assms(2)
proof (induction rule: rtranclp_induct)
  case base
  show ?case using inv_ready [OF assms(1)] ..
next
  case (step s s')
  then show ?case using inv_step assms(3) by blast
qed


text \<open>The next block can always be delivered.\<close>

lemma next_block:
  assumes inv: "tftp_inv f sp s0 got s" and b: "got < blocks f" "blocks f \<le> 65535"
  shows "\<exists>s'. tftp_step f sp s s' \<and> tftp_inv f sp s0 (Suc got) s'"
proof -
  let ?m = "be16 TFTP_DATA @ be16 (of_nat (Suc got)) @ file_block f (Suc got)"
  let ?len = "of_nat (4 + length (file_block f (Suc got))) :: u32"
  have d: "data_packet f (Suc got) ?m 0 ?len" by (simp add: data_packet_def)
  have k: "1 \<le> Suc got" "Suc got \<le> blocks f" "Suc got \<le> got + 1" using b by simp_all
  obtain s' where s': "TftpHandler ?m 0 (TftpOurPort (tf s)) sp ?len s = Some s'" "tftp_inv f sp s0 (max got (Suc got)) s'"
    using data_step [OF inv k b(2) d] by blast
  have a: "Suc got = 1 \<or> acked s (Suc got - 1)" using inv by (auto simp: tftp_inv_def split: if_splits)
  show ?thesis using tftp_step.data [OF k(1,2) a d s'(1)] s'(2) by (auto simp: max_def)
qed

lemma finish_run:
  "tftp_inv f sp s0 got s \<Longrightarrow> blocks f \<le> 65535 \<Longrightarrow> \<exists>s'. (tftp_step f sp)\<^sup>*\<^sup>* s s' \<and> tftp_inv f sp s0 (blocks f) s'"
proof (induction "blocks f - got" arbitrary: got s)
  case 0
  then show ?case by (auto simp: tftp_inv_def)
next
  case (Suc n)
  then have "got < blocks f" by simp
  from next_block [OF Suc.prems(1) this Suc.prems(2)] obtain s1 where s1: "tftp_step f sp s s1" "tftp_inv f sp s0 (Suc got) s1" by blast
  have "n = blocks f - Suc got" using Suc.hyps(2) by simp
  from Suc.hyps(1) [OF this s1(2) Suc.prems(2)] s1(1) show ?case by (meson converse_rtranclp_into_rtranclp)
qed

lemma inv_success:
  assumes "tftp_inv f sp s0 got s"
  shows "NetState s = NETLOOP_SUCCESS \<longleftrightarrow> got = blocks f"
    and "got = blocks f \<Longrightarrow> ram s = stored (ram s0) (load_addr (netenv s0)) f \<and> NetBootFileXferSize s = of_nat (length f)"
proof -
  show "NetState s = NETLOOP_SUCCESS \<longleftrightarrow> got = blocks f" using assms by (simp add: tftp_inv_def)
  have w: "length f \<le> 512 * blocks f" using arg_cong [OF whole_file [of f], of length] by simp
  show "got = blocks f \<Longrightarrow> ram s = stored (ram s0) (load_addr (netenv s0)) f \<and> NetBootFileXferSize s = of_nat (length f)"
    using assms w by (simp add: tftp_inv_def whole_file min_absorb2)
qed

section \<open>Theorems\<close>

definition sample_client :: net where
  "sample_client = (sample_net [2, 0, 0, 0, 0, 1] 0xC0A80101)\<lparr>NetServerEther := [2, 0, 0, 0, 0, 2]\<rparr>"

lemma client_fields:
  "TftpState (tf sample_client) = STATE_RRQ" "TftpBlock (tf sample_client) = 0" "NetState sample_client = NETLOOP_CONTINUE"
  "NetBootFileXferSize sample_client = 0" "eth_current sample_client = Some 0" "NetOurEther sample_client = [2, 0, 0, 0, 0, 1]"
  "NetServerEther sample_client = [2, 0, 0, 0, 0, 2]" "NetServerIP sample_client = 0xC0A80102" "sent sample_client = []"
  by (simp_all add: sample_client_def sample_net_def)

lemma sample_ready: "tftp_ready sample_client"
proof -
  have d: "real_mac ServerEther 0xC0A80102 sample_client = [2, 0, 0, 0, 0, 2]"
    by (simp add: real_mac_def real_dest_def mac_of_def client_fields)
  have n: "[2, 0, 0, 0, 0, 2] \<noteq> NetEtherNullAddr" by (simp add: NetEtherNullAddr_def numeral_eq_Suc)
  have a: "\<not> acked sample_client k" for k by (simp add: acked_def client_fields)
  show ?thesis using n a by (simp add: tftp_ready_def client_fields d)
qed

lemma sample_memory: "ram sample_client = (\<lambda>_. 0)" "load_addr (netenv sample_client) = 0"
  by (simp_all add: sample_client_def sample_net_def sample_gd_def)





text \<open>C39: a repeated block 0 is counted twice. When block number 0 (the 65536th block) has just been stored, a second copy of its packet,
  which is otherwise ignored, moves everything that follows another 32 MB up.\<close>

theorem wrap_counted_twice:
  assumes "TftpState (tf s) = STATE_DATA" "TftpLastBlock (tf s) = 0" "drop p m = be16 TFTP_DATA @ be16 0 @ rest" "4 \<le> len"
  shows "TftpHandler m p (TftpOurPort (tf s)) (TftpServerPort (tf s)) len s =
    Some (s\<lparr>tf := (tf s)\<lparr>TftpBlock := 0, TftpBlockWrap := TftpBlockWrap (tf s) + 1,
                         TftpBlockWrapOffset := TftpBlockWrapOffset (tf s) + 0x2000000\<rparr>\<rparr>)"
proof -
  have r: "rd16 m p = Some TFTP_DATA" "rd16 m (p + 2) = Some 0"
    using rd16_drop [of p m "[]" TFTP_DATA] rd16_drop [of p m "be16 TFTP_DATA" 0] assms(3) by simp_all
  have l: "\<not> len < 2" "\<not> len - 2 < 2"
  proof -
    have u: "4 \<le> unat len" using assms(4) by (simp add: word_le_nat_alt)
    have "unat (len - 2) = unat len - unat (2 :: u32)" by (rule unat_sub) (use u in \<open>simp add: word_le_nat_alt\<close>)
    then show "\<not> len < 2" "\<not> len - 2 < 2" using u by (simp_all add: word_less_nat_alt)
  qed
  have nb: "note_block (ucast (0 :: u16)) (tf s) = (tf s)\<lparr>TftpBlock := 0, TftpBlockWrap := TftpBlockWrap (tf s) + 1,
      TftpBlockWrapOffset := TftpBlockWrapOffset (tf s) + 0x2000000\<rparr>"
    by (simp add: note_block_def TFTP_BLOCK_SIZE_def TFTP_SEQUENCE_SIZE_def)
  show ?thesis
    unfolding TftpHandler_def r(1) Option.bind.bind_lunit if_not_P [OF l(1)] tftp_data_def if_not_P [OF l(2)] r(2) nb Let_def
    using assms(1,2) by (simp add: tftp_codes first_block_def)
qed

lemma wrap_counted_twice_witness:
  "\<exists>s'. TftpHandler [0, 3, 0, 0, 9] 0 1030 69 5
      (sample_client\<lparr>tf := (tf sample_client)\<lparr>TftpState := STATE_DATA\<rparr>\<rparr>) = Some s' \<and> TftpBlockWrapOffset (tf s') = 0x2000000"
proof -
  let ?s = "sample_client\<lparr>tf := (tf sample_client)\<lparr>TftpState := STATE_DATA\<rparr>\<rparr>"
  have f: "TftpOurPort (tf ?s) = 1030" "TftpServerPort (tf ?s) = 69" "TftpLastBlock (tf ?s) = 0" "TftpBlockWrapOffset (tf ?s) = 0"
    by (simp_all add: sample_client_def sample_net_def)
  have d: "drop 0 [0, 3, 0, 0, 9] = be16 TFTP_DATA @ be16 0 @ [9]" by (simp add: be16_def TFTP_DATA_def)
  have "TftpHandler [0, 3, 0, 0, 9] 0 (TftpOurPort (tf ?s)) (TftpServerPort (tf ?s)) 5 ?s =
    Some (?s\<lparr>tf := (tf ?s)\<lparr>TftpBlock := 0, TftpBlockWrap := TftpBlockWrap (tf ?s) + 1,
       TftpBlockWrapOffset := TftpBlockWrapOffset (tf ?s) + 0x2000000\<rparr>\<rparr>)"
    by (rule wrap_counted_twice [OF _ f(3) d]) simp_all
  then show ?thesis unfolding f by simp
qed




end
