(* ===== verification/Memory.thy ===== *)
theory Memory
  imports Parser FlashCmd FlashProps
begin

text \<open>
  The memory commands of \<^verbatim>\<open>common/cmd_mem.c\<close> (without \<^verbatim>\<open>CONFIG_HAS_DATAFLASH\<close>, \<^verbatim>\<open>CFG_CMD_MMC\<close>, \<^verbatim>\<open>CFG_ALT_MEMTEST\<close>).
  The memory is the whole address space, big-endian; it is the chip of the flash layer, so that a copy to flash goes through
  \<^verbatim>\<open>flash_write\<close>. An access that is not aligned to its size is an address error of the processor, the value \<open>None\<close>.
  A command gets the usage text of its table entry and its words; it gives the code it returns and the state.
\<close>

section \<open>State and accesses\<close>

record memsys =
  fl :: "space flash_state"
  base_address :: u32
  dp_last_addr :: u32
  dp_last_size :: int
  dp_last_length :: u32
  mm_last_addr :: u32
  mm_last_size :: int

abbreviation mem_of :: "memsys \<Rightarrow> space" where
  "mem_of s \<equiv> chip (fl s)"

definition put_mem :: "space \<Rightarrow> memsys \<Rightarrow> memsys" where
  "put_mem m s = s\<lparr>fl := (fl s)\<lparr>chip := m\<rparr>\<rparr>"

definition print_mem :: "bytes \<Rightarrow> memsys \<Rightarrow> memsys" where
  "print_mem t s = s\<lparr>fl := puts_to t (fl s)\<rparr>"

definition mem_usage :: "bytes \<Rightarrow> memsys \<Rightarrow> (int \<times> memsys) option" where
  "mem_usage usage s = Some (1, print_mem (bytes_of ''Usage:'' @ [10] @ usage @ [10]) s)"

definition aligned :: "int \<Rightarrow> u32 \<Rightarrow> bool" where
  "aligned sz a \<longleftrightarrow> unat a mod nat sz = 0"

text \<open>The bytes of a range of the address space.\<close>

definition range_of :: "space \<Rightarrow> u32 \<Rightarrow> nat \<Rightarrow> bytes" where
  "range_of m a n = map (\<lambda>i. m (a + of_nat i)) [0..<n]"

text \<open>Reading and writing an object of \<open>sz\<close> bytes; every size but 4 and 2 is taken for 1.\<close>

definition peek :: "int \<Rightarrow> space \<Rightarrow> u32 \<Rightarrow> u32 option" where
  "peek sz m a =
     (if sz = 4 then if aligned 4 a then Some (of_be32 (m a) (m (a + 1)) (m (a + 2)) (m (a + 3))) else None
      else if sz = 2 then if aligned 2 a then Some (ucast (of_be16 (m a) (m (a + 1)))) else None
      else Some (ucast (m a)))"

definition poke_bytes :: "int \<Rightarrow> u32 \<Rightarrow> bytes" where
  "poke_bytes sz v = (if sz = 4 then be32 v else if sz = 2 then be16 (ucast v) else [ucast v])"

definition poke :: "int \<Rightarrow> u32 \<Rightarrow> u32 \<Rightarrow> space \<Rightarrow> space option" where
  "poke sz a v m =
     (if (sz = 4 \<or> sz = 2) \<and> \<not> aligned sz a then None else Some (stored m a (poke_bytes sz v)))"

definition cmd_get_data_size :: "bytes \<Rightarrow> int \<Rightarrow> int" where
  "cmd_get_data_size arg default_size =
     (let len = length arg in
      if len > 2 \<and> arg ! (len - 2) = byte_of (CHR ''.'') then
        (let c = arg ! (len - 1) in
         if c = byte_of (CHR ''b'') then 1 else if c = byte_of (CHR ''w'') then 2 else if c = byte_of (CHR ''l'') then 4
         else if c = byte_of (CHR ''s'') then -2 else -1)
      else default_size)"

definition hex_arg :: "bytes list \<Rightarrow> nat \<Rightarrow> u32 option" where
  "hex_arg argv i = do { a \<leftarrow> at argv i; (v, e) \<leftarrow> str_toul a 16; Some v }"

definition hex8 :: "u32 \<Rightarrow> bytes" where
  "hex8 w = hex_field 8 32 (unat w)"

section \<open>Display\<close>

text \<open>The items of one line: what is printed and the bytes read.\<close>

function md_items :: "int \<Rightarrow> space \<Rightarrow> u32 \<Rightarrow> nat \<Rightarrow> (bytes \<times> bytes) option" where
  "md_items sz m a k =
     (if k = 0 then Some ([], []) else do {
        v \<leftarrow> peek sz m a;
        (out, ls) \<leftarrow> md_items sz m (a + word_of_int sz) (k - nat (max 1 sz));
        Some (32 # hex_field (nat (2 * sz)) 32 (unat v) @ out, poke_bytes sz v @ ls) })"
  by pat_completeness auto
termination by (relation "measure (\<lambda>(sz, m, a, k). k)") auto

declare md_items.simps [simp del]

definition md_char :: "u8 \<Rightarrow> u8" where
  "md_char c = (if c < 0x20 \<or> c > 0x7e then byte_of (CHR ''.'') else c)"

definition DISP_LINE_LEN :: u32 where "DISP_LINE_LEN = 16"

definition md_line :: "int \<Rightarrow> space \<Rightarrow> u32 \<Rightarrow> u32 \<Rightarrow> bytes option" where
  "md_line sz m a linebytes = do {
     (out, ls) \<leftarrow> md_items sz m a (unat linebytes);
     Some (hex8 a @ byte_of (CHR '':'') # out @ bytes_of ''    '' @ map md_char (take (unat linebytes) ls) @ [10]) }"

text \<open>The \<^verbatim>\<open>do\<close> loop; \<open>ctrlc\<close> gives the answers to the polls of the keyboard, one after each line. The result is the text, the
  address after the last line and the code.\<close>

function md_loop :: "int \<Rightarrow> space \<Rightarrow> (nat \<Rightarrow> bool) \<Rightarrow> nat \<Rightarrow> u32 \<Rightarrow> u32 \<Rightarrow> (bytes \<times> u32 \<times> int) option" where
  "md_loop sz m ctrlc i a nbytes = do {
     let linebytes = (if nbytes > DISP_LINE_LEN then DISP_LINE_LEN else nbytes);
     l \<leftarrow> md_line sz m a linebytes;
     let a' = a + of_nat ((unat linebytes + nat sz - 1) div nat sz * nat sz);
     if ctrlc i then Some (l, a', 1)
     else if nbytes - linebytes = 0 then Some (l, a', 0)
     else do { (ls, a'', rc) \<leftarrow> md_loop sz m ctrlc (Suc i) a' (nbytes - linebytes); Some (l @ ls, a'', rc) } }"
  by pat_completeness auto
termination
proof (relation "measure (\<lambda>(sz, m, ctrlc, i, a, nbytes). unat nbytes)", goal_cases)
  case (2 sz m ctrlc i a nbytes linebytes l a')
  then have "nbytes > 16" by (auto simp: DISP_LINE_LEN_def not_less split: if_splits)
  moreover from this have "unat (nbytes - 16) = unat nbytes - 16" by (subst unat_sub) (simp_all add: order.strict_implies_order)
  moreover have "0 < unat nbytes" using \<open>nbytes > 16\<close> by (simp add: word_less_nat_alt)
  ultimately show ?case using 2(1) by (simp add: DISP_LINE_LEN_def)
qed simp

declare md_loop.simps [simp del]

definition do_mem_md :: "bytes \<Rightarrow> int \<Rightarrow> bytes list \<Rightarrow> (nat \<Rightarrow> bool) \<Rightarrow> memsys \<Rightarrow> (int \<times> memsys) option" where
  "do_mem_md usage flag argv ctrlc s =
     (if length argv < 2 then mem_usage usage s else do {
        fresh \<leftarrow> Some (flag AND CMD_FLAG_REPEAT = 0);
        a0 \<leftarrow> at argv 0;
        let sz = (if fresh then cmd_get_data_size a0 4 else dp_last_size s);
        if fresh \<and> sz < 0 then Some (1, s)
        else do {
          addr \<leftarrow> (if fresh then map_option (\<lambda>v. v + base_address s) (hex_arg argv 1) else Some (dp_last_addr s));
          len \<leftarrow> (if fresh \<and> length argv > 2 then hex_arg argv 2 else Some (dp_last_length s));
          (out, addr', rc) \<leftarrow> md_loop sz (mem_of s) ctrlc 0 addr (len * word_of_int sz);
          Some (rc, (print_mem out s)\<lparr>dp_last_addr := addr', dp_last_length := len, dp_last_size := sz\<rparr>) } })"

section \<open>Modify\<close>

text \<open>\<^verbatim>\<open>mod_mem\<close> reads lines with \<^verbatim>\<open>readline\<close> until one of them is no number. The keys typed are an argument; the code is
  \<open>None\<close> while the command still waits for a key. \<^verbatim>\<open>console_buffer\<close> is passed on from line to line.\<close>

lemma readline_loop_keys: "readline_loop plen keys r = Some (Done r' n, rest) \<Longrightarrow> length rest < length keys"
proof (induction plen keys r rule: readline_loop.induct)
  case (2 plen c keys r)
  then show ?case by (auto split: Option.bind_splits rl_result.splits simp: less_Suc_eq)
qed simp

lemma readline_keys: "readline p keys b = Some (Done r' n, rest) \<Longrightarrow> length rest < length keys"
  by (auto simp: readline_def Let_def dest: readline_loop_keys)

definition mm_prompt :: "int \<Rightarrow> space \<Rightarrow> u32 \<Rightarrow> bytes option" where
  "mm_prompt sz m a = do { v \<leftarrow> peek sz m a; Some (hex8 a @ [byte_of (CHR '':''), 32] @ hex_field (nat (2 * sz)) 32 (unat v)) }"

function mod_mem_loop :: "int \<Rightarrow> bool \<Rightarrow> bytes \<Rightarrow> mem \<Rightarrow> u32 \<Rightarrow> memsys \<Rightarrow> (int option \<times> u32 \<times> memsys) option" where
  "mod_mem_loop sz incrflag keys buf a s = do {
     t \<leftarrow> mm_prompt sz (mem_of s) a;
     (res, rest) \<leftarrow> readline (Some (bytes_of '' ? '')) keys buf;
     case res of
       More r \<Rightarrow> Some (None, a, print_mem (t @ rl_out r) s)
     | Done r n \<Rightarrow> do {
         let s1 = print_mem (t @ rl_out r) s;
         c \<leftarrow> (if n = 1 then rd (rl_buf r) 0 else Some 0);
         if n = 0 \<or> n = 1 \<and> c = byte_of (CHR ''-'') then
           mod_mem_loop sz incrflag rest (rl_buf r)
             (if incrflag then a + word_of_int (if n \<noteq> 0 then - sz else sz) else a) s1
         else do {
           (i, e) \<leftarrow> simple_strtoul 0 16 (rl_buf r);
           if e = 0 then Some (Some 0, a, s1)
           else do {
             m \<leftarrow> poke sz a i (mem_of s1);
             mod_mem_loop sz incrflag rest (rl_buf r) (if incrflag then a + word_of_int sz else a) (put_mem m s1) } } } }"
  by pat_completeness auto
termination by (relation "measure (\<lambda>(sz, incrflag, keys, buf, a, s). length keys)") (auto dest: readline_keys)

declare mod_mem_loop.simps [simp del]

definition mod_mem :: "bytes \<Rightarrow> bool \<Rightarrow> int \<Rightarrow> bytes list \<Rightarrow> bytes \<Rightarrow> mem \<Rightarrow> memsys \<Rightarrow> (int option \<times> memsys) option" where
  "mod_mem usage incrflag flag argv keys buf s =
     (if length argv \<noteq> 2 then map_option (\<lambda>(rc, s'). (Some rc, s')) (mem_usage usage s)
      else do {
        a0 \<leftarrow> at argv 0;
        let fresh = (flag AND CMD_FLAG_REPEAT = 0);
        let sz = (if fresh then cmd_get_data_size a0 4 else mm_last_size s);
        if fresh \<and> sz < 0 then Some (Some 1, s)
        else do {
          addr \<leftarrow> (if fresh then map_option (\<lambda>v. v + base_address s) (hex_arg argv 1) else Some (mm_last_addr s));
          (rc, addr', s') \<leftarrow> mod_mem_loop sz incrflag keys buf addr s;
          Some (rc, if rc = None then s' else s'\<lparr>mm_last_addr := addr', mm_last_size := sz\<rparr>) } })"

definition do_mem_mm :: "bytes \<Rightarrow> int \<Rightarrow> bytes list \<Rightarrow> bytes \<Rightarrow> mem \<Rightarrow> memsys \<Rightarrow> (int option \<times> memsys) option" where
  "do_mem_mm usage flag argv keys buf s = mod_mem usage True flag argv keys buf s"

definition do_mem_nm :: "bytes \<Rightarrow> int \<Rightarrow> bytes list \<Rightarrow> bytes \<Rightarrow> mem \<Rightarrow> memsys \<Rightarrow> (int option \<times> memsys) option" where
  "do_mem_nm usage flag argv keys buf s = mod_mem usage False flag argv keys buf s"

section \<open>Fill, compare, copy\<close>

fun mw_loop :: "int \<Rightarrow> nat \<Rightarrow> u32 \<Rightarrow> u32 \<Rightarrow> space \<Rightarrow> space option" where
  "mw_loop sz 0 a v m = Some m"
| "mw_loop sz (Suc n) a v m = do { m' \<leftarrow> poke sz a v m; mw_loop sz n (a + word_of_int sz) v m' }"

definition do_mem_mw :: "bytes \<Rightarrow> bytes list \<Rightarrow> memsys \<Rightarrow> (int \<times> memsys) option" where
  "do_mem_mw usage argv s =
     (if length argv < 3 \<or> length argv > 4 then mem_usage usage s else do {
        a0 \<leftarrow> at argv 0;
        let sz = cmd_get_data_size a0 4;
        if sz < 1 then Some (1, s)
        else do {
          addr \<leftarrow> hex_arg argv 1;
          v \<leftarrow> hex_arg argv 2;
          n \<leftarrow> (if length argv = 4 then hex_arg argv 3 else Some 1);
          m \<leftarrow> mw_loop sz (unat n) (addr + base_address s) v (mem_of s);
          Some (0, put_mem m s) } })"

definition item_name :: "int \<Rightarrow> bytes" where
  "item_name sz = bytes_of (if sz = 4 then ''word'' else if sz = 2 then ''halfword'' else ''byte'')"

text \<open>The number of equal items before the first difference, and what is printed about that one.\<close>

fun cmp_loop :: "int \<Rightarrow> nat \<Rightarrow> u32 \<Rightarrow> u32 \<Rightarrow> u32 \<Rightarrow> space \<Rightarrow> (u32 \<times> bytes option) option" where
  "cmp_loop sz 0 a1 a2 ngood m = Some (ngood, None)"
| "cmp_loop sz (Suc n) a1 a2 ngood m = do {
     v1 \<leftarrow> peek sz m a1;
     v2 \<leftarrow> peek sz m a2;
     if v1 \<noteq> v2 then
       (let hex = (\<lambda>v. hex_field (nat (2 * sz)) 32 (unat v)) in
        Some (ngood, Some (item_name sz @ bytes_of '' at 0x'' @ hex8 a1 @ bytes_of '' (0x'' @ hex v1 @ bytes_of '') != '' @
          item_name sz @ bytes_of '' at 0x'' @ hex8 a2 @ bytes_of '' (0x'' @ hex v2 @ bytes_of '')'' @ [10])))
     else cmp_loop sz n (a1 + word_of_int sz) (a2 + word_of_int sz) (ngood + 1) m }"

definition cmp_summary :: "int \<Rightarrow> u32 \<Rightarrow> bytes" where
  "cmp_summary sz ngood = bytes_of ''Total of '' @ shown (byte_of (CHR ''d'')) ngood @ [32] @ item_name sz @
     (if ngood = 1 then [] else bytes_of ''s'') @ bytes_of '' were the same'' @ [10]"

definition do_mem_cmp :: "bytes \<Rightarrow> bytes list \<Rightarrow> memsys \<Rightarrow> (int \<times> memsys) option" where
  "do_mem_cmp usage argv s =
     (if length argv \<noteq> 4 then mem_usage usage s else do {
        a0 \<leftarrow> at argv 0;
        let sz = cmd_get_data_size a0 4;
        if sz < 0 then Some (1, s)
        else do {
          addr1 \<leftarrow> hex_arg argv 1;
          addr2 \<leftarrow> hex_arg argv 2;
          n \<leftarrow> hex_arg argv 3;
          (ngood, diff) \<leftarrow> cmp_loop sz (unat n) (addr1 + base_address s) (addr2 + base_address s) 0 (mem_of s);
          Some (if diff = None then 0 else 1,
            print_mem ((case diff of None \<Rightarrow> [] | Some t \<Rightarrow> t) @ cmp_summary sz ngood) s) } })"

fun cp_loop :: "int \<Rightarrow> nat \<Rightarrow> u32 \<Rightarrow> u32 \<Rightarrow> space \<Rightarrow> space option" where
  "cp_loop sz 0 a d m = Some m"
| "cp_loop sz (Suc n) a d m = do {
     v \<leftarrow> peek sz m a;
     m' \<leftarrow> poke sz d v m;
     cp_loop sz n (a + word_of_int sz) (d + word_of_int sz) m' }"

text \<open>A destination in flash is written with \<^verbatim>\<open>flash_write\<close>, given the bytes as they are before.\<close>

definition do_mem_cp :: "space write_buff \<Rightarrow> bytes \<Rightarrow> bytes list \<Rightarrow> memsys \<Rightarrow> (int \<times> memsys) option" where
  "do_mem_cp write_buff usage argv s =
     (if length argv \<noteq> 4 then mem_usage usage s else do {
        a0 \<leftarrow> at argv 0;
        let sz = cmd_get_data_size a0 4;
        if sz < 0 then Some (1, s)
        else do {
          a \<leftarrow> hex_arg argv 1;
          d \<leftarrow> hex_arg argv 2;
          n \<leftarrow> hex_arg argv 3;
          let addr = a + base_address s;
          let dest = d + base_address s;
          if n = 0 then Some (1, print_mem (line ''Zero length ???'') s)
          else do {
            bank \<leftarrow> addr2info (banks (fl s)) dest;
            if bank \<noteq> None then do {
              let s1 = print_mem (bytes_of ''Copy to Flash... '') s;
              let cnt = n * word_of_int sz;
              (rc, m) \<leftarrow> flash_write write_buff (banks (fl s)) (range_of (mem_of s) addr (unat cnt)) dest cnt (mem_of s);
              if rc \<noteq> 0 then Some (1, print_mem (flash_perror rc) (put_mem m s1))
              else Some (0, print_mem (line ''done'') (put_mem m s1)) }
            else do {
              m \<leftarrow> cp_loop sz (unat n) addr dest (mem_of s);
              Some (0, put_mem m s) } } } })"

definition do_mem_base :: "bytes list \<Rightarrow> memsys \<Rightarrow> (int \<times> memsys) option" where
  "do_mem_base argv s = do {
     b \<leftarrow> (if length argv > 1 then hex_arg argv 1 else Some (base_address s));
     Some (0, print_mem (bytes_of ''Base Address: 0x'' @ hex8 b @ [10]) (s\<lparr>base_address := b\<rparr>)) }"

section \<open>Checksum, search\<close>

definition do_mem_crc :: "bytes \<Rightarrow> bytes list \<Rightarrow> memsys \<Rightarrow> (int \<times> memsys) option" where
  "do_mem_crc usage argv s =
     (if length argv < 3 then mem_usage usage s else do {
        a \<leftarrow> hex_arg argv 1;
        let addr = a + base_address s;
        len \<leftarrow> hex_arg argv 2;
        crc \<leftarrow> crc32 0 0 (unat len) (range_of (mem_of s) addr (unat len));
        let s1 = print_mem (bytes_of ''CRC32 for '' @ hex8 addr @ bytes_of '' ... '' @ hex8 (addr + len - 1) @ bytes_of '' ==> '' @ hex8 crc @ [10]) s;
        if length argv > 3 then do {
          p \<leftarrow> hex_arg argv 3;
          m \<leftarrow> poke 4 p crc (mem_of s1);
          Some (0, put_mem m s1) }
        else Some (0, s1) })"

text \<open>The size of a kernel in front of a UBI volume: the search for \<^verbatim>\<open>UBI#\<close> in steps of 64 KiB.\<close>

definition show_word :: "u32 \<Rightarrow> u32 \<Rightarrow> bytes" where
  "show_word a v = hex8 a @ bytes_of '':  '' @ hex8 v @ bytes_of ''  '' @ [10]"

function show_kernel_loop :: "nat \<Rightarrow> u32 \<Rightarrow> space \<Rightarrow> (bytes \<times> u32) option" where
  "show_kernel_loop i addr m =
     (if i < 0xffff then do {
        v \<leftarrow> peek 4 m addr;
        if v = 0x55424923 then Some (show_word addr v @ show_word addr v, of_nat (0x10000 * i))
        else do { (out, k) \<leftarrow> show_kernel_loop (Suc i) (addr + 0x10000) m; Some (show_word addr v @ out, k) } }
      else Some ([], 0))"
  by pat_completeness auto
termination by (relation "measure (\<lambda>(i, addr, m). 0xffff - i)") auto

declare show_kernel_loop.simps [simp del]

definition do_show_kernel :: "bytes \<Rightarrow> bytes list \<Rightarrow> memsys \<Rightarrow> (u32 \<times> memsys) option" where
  "do_show_kernel usage argv s =
     (if length argv < 2 then map_option (\<lambda>(rc, s'). (1, s')) (mem_usage usage s)
      else do {
        addr \<leftarrow> hex_arg argv 1;
        (out, k) \<leftarrow> show_kernel_loop 0 addr (mem_of s);
        Some (k, print_mem (out @ bytes_of ''k_size:0x'' @ hex8 k @ bytes_of ''  '' @ [10]) s) })"

section \<open>Memory test\<close>

text \<open>The memory under test is hardware: \<open>store\<close> says what it does with a word. Both passes run over word addresses from
  \<open>a\<close> below \<open>end\<close>; when \<open>end\<close> is among the last three addresses, the address wraps and the pass never ends.\<close>

partial_function (option) mtest_write :: "(u32 \<Rightarrow> u32 \<Rightarrow> space \<Rightarrow> space) \<Rightarrow> u32 \<Rightarrow> u32 \<Rightarrow> u32 \<Rightarrow> u32 \<Rightarrow> space \<Rightarrow> space option" where
  "mtest_write store incr end a val m =
     (if a < end then (if aligned 4 a then mtest_write store incr end (a + 4) (val + incr) (store a val m) else None) else Some m)"

definition mem_error :: "u32 \<Rightarrow> u32 \<Rightarrow> u32 \<Rightarrow> bytes" where
  "mem_error a readback val = [10] @ bytes_of ''Mem error @ 0x'' @ hex_field 8 0 (unat a) @ bytes_of '': found '' @
     hex_field 8 0 (unat readback) @ bytes_of '', expected '' @ hex_field 8 0 (unat val) @ [10]"

partial_function (option) mtest_read :: "u32 \<Rightarrow> u32 \<Rightarrow> u32 \<Rightarrow> u32 \<Rightarrow> space \<Rightarrow> bytes list \<Rightarrow> bytes list option" where
  "mtest_read incr end a val m errs =
     (if a < end then do {
        readback \<leftarrow> peek 4 m a;
        mtest_read incr end (a + 4) (val + incr) m (if readback \<noteq> val then errs @ [mem_error a readback val] else errs) }
      else Some errs)"

definition next_pattern :: "u32 \<Rightarrow> u32" where
  "next_pattern p = (if p AND 0x80000000 \<noteq> 0 then - p else NOT p)"

text \<open>One round: the memory after it, and the errors it reports.\<close>

definition mtest_round :: "(u32 \<Rightarrow> u32 \<Rightarrow> space \<Rightarrow> space) \<Rightarrow> u32 \<Rightarrow> u32 \<Rightarrow> u32 \<Rightarrow> u32 \<Rightarrow> space \<Rightarrow> (space \<times> bytes list) option" where
  "mtest_round store incr pattern first end m = do {
     m1 \<leftarrow> mtest_write store incr end first pattern m;
     errs \<leftarrow> mtest_read incr end first pattern m1 [];
     Some (m1, errs) }"

text \<open>The rounds, one for every poll of the keyboard that finds no control-C. The code is \<open>None\<close> while the test still runs.
  \<open>rcode\<close> is set on an error, and never returned.\<close>

definition round_text :: "u32 \<Rightarrow> bytes list \<Rightarrow> bytes" where
  "round_text p errs = 13 # bytes_of ''Pattern '' @ hex_field 8 0 (unat p) @ bytes_of ''  Writing...'' @ replicate 12 32 @
     replicate 10 8 @ bytes_of ''Reading...'' @ concat errs"

fun mtest_loop :: "(u32 \<Rightarrow> u32 \<Rightarrow> space \<Rightarrow> space) \<Rightarrow> u32 \<Rightarrow> u32 \<Rightarrow> bool list \<Rightarrow> u32 \<Rightarrow> u32 \<Rightarrow> memsys \<Rightarrow> (int option \<times> memsys) option" where
  "mtest_loop store first end [] incr pattern s = Some (None, s)"
| "mtest_loop store first end (c # cs) incr pattern s =
     (if c then Some (Some 1, print_mem [10] s)
      else do {
        (m, errs) \<leftarrow> mtest_round store incr pattern first end (mem_of s);
        mtest_loop store first end cs (- incr) (next_pattern pattern) (print_mem (round_text pattern errs) (put_mem m s)) })"

definition CFG_MEMTEST_START :: u32 where "CFG_MEMTEST_START = 0x80200000"
definition CFG_MEMTEST_END :: u32 where "CFG_MEMTEST_END = 0x83800000"

definition do_mem_mtest :: "(u32 \<Rightarrow> u32 \<Rightarrow> space \<Rightarrow> space) \<Rightarrow> bytes list \<Rightarrow> bool list \<Rightarrow> memsys \<Rightarrow> (int option \<times> memsys) option" where
  "do_mem_mtest store argv ctrlc s = do {
     first \<leftarrow> (if length argv > 1 then hex_arg argv 1 else Some CFG_MEMTEST_START);
     end \<leftarrow> (if length argv > 2 then hex_arg argv 2 else Some CFG_MEMTEST_END);
     pattern \<leftarrow> (if length argv > 3 then hex_arg argv 3 else Some 0);
     mtest_loop store first end ctrlc 1 pattern s }"

end
