(* ===== verification/MemoryProps.thy ===== *)
theory MemoryProps
  imports Memory
begin

text \<open>
  The properties of the memory commands: copies and comparisons against the ranges of the address space, copies to flash
  through the flash layer, and what the memory test finds.
\<close>

section \<open>Ranges of the address space\<close>

lemma length_range_of [simp]: "length (range_of m a n) = n"
  by (simp add: range_of_def)

lemma range_of_0 [simp]: "range_of m a 0 = []"
  by (simp add: range_of_def)

lemma nth_range_of: "i < n \<Longrightarrow> range_of m a n ! i = m (a + of_nat i)"
  by (simp add: range_of_def)

lemma range_of_append: "range_of m a (i + j) = range_of m a i @ range_of m (a + of_nat i) j"
proof (rule nth_equalityI)
  fix k
  assume k: "k < length (range_of m a (i + j))"
  show "range_of m a (i + j) ! k = (range_of m a i @ range_of m (a + of_nat i) j) ! k"
  proof (cases "k < i")
    case False
    then obtain l where "k = i + l" using le_iff_add [of i k] by auto
    then show ?thesis using k by (simp add: nth_append nth_range_of add.assoc)
  qed (simp add: nth_append nth_range_of)
qed simp

lemma addr_offset: "unat (a :: u32) + i < 2 ^ 32 \<Longrightarrow> unat (a + of_nat i) = unat a + i"
  using unat_small [of i] by (subst unat_add_lem [THEN iffD1]) auto

lemma stored_outside:
  assumes "unat x < unat d \<or> unat d + length bs \<le> unat x" "unat d + length bs \<le> 2 ^ 32"
  shows "stored m d bs x = m x"
proof -
  have "length bs \<le> unat (x - d)" using assms by (auto simp: unat_sub_if')
  then show ?thesis by (simp add: stored_def)
qed

lemma range_of_stored:
  assumes "unat a + n \<le> 2 ^ 32" "unat d + length bs \<le> 2 ^ 32" "unat a + n \<le> unat d \<or> unat d + length bs \<le> unat a"
  shows "range_of (stored m d bs) a n = range_of m a n"
proof (rule nth_equalityI)
  fix i
  assume "i < length (range_of (stored m d bs) a n)"
  then have "i < n" by simp
  then have "unat (a + of_nat i) = unat a + i" using assms(1) by (intro addr_offset) simp
  then show "range_of (stored m d bs) a n ! i = range_of m a n ! i"
    using assms \<open>i < n\<close> stored_outside [of "a + of_nat i" d bs m] by (auto simp: range_of_def)
qed simp

section \<open>Objects of one, two and four bytes\<close>

definition item_size :: "int \<Rightarrow> bool" where
  "item_size sz \<longleftrightarrow> sz = 1 \<or> sz = 2 \<or> sz = 4"

lemma item_sizeE: "item_size sz \<Longrightarrow> (sz = 1 \<Longrightarrow> P) \<Longrightarrow> (sz = 2 \<Longrightarrow> P) \<Longrightarrow> (sz = 4 \<Longrightarrow> P) \<Longrightarrow> P"
  by (auto simp: item_size_def)

lemma be32_of_be32: "be32 (of_be32 a b c d) = [a, b, c, d]"
  by (auto simp: be32_def of_be32_def bit_eq_iff bit_simps dest: bit_imp_le_length)

lemma be16_join: "be16 (of_be16 a b) = [a, b]"
  by (auto simp: be16_def of_be16_def bit_eq_iff bit_simps dest: bit_imp_le_length)

lemma ucast_u16: "ucast (ucast (w :: u16) :: u32) = w"
  by (simp add: bit_eq_iff bit_simps)

lemma ucast_u8: "ucast (ucast (w :: u8) :: u32) = w"
  by (simp add: bit_eq_iff bit_simps)

lemma range_of_numeral: "range_of m a 4 = [m a, m (a + 1), m (a + 2), m (a + 3)]" "range_of m a 2 = [m a, m (a + 1)]"
    "range_of m a 1 = [m a]" "range_of m a (Suc 0) = [m a]"
  by (simp_all add: range_of_def numeral_eq_Suc upt_rec)

lemma length_poke_bytes: "item_size sz \<Longrightarrow> length (poke_bytes sz v) = nat sz"
  by (auto simp: poke_bytes_def elim: item_sizeE)

lemma peek_aligned:
  assumes "item_size sz" "aligned sz a"
  obtains v where "peek sz m a = Some v" "poke_bytes sz v = range_of m a (nat sz)"
  using assms by (auto simp: peek_def poke_bytes_def be32_of_be32 be16_join ucast_u16 ucast_u8 range_of_numeral elim!: item_sizeE)

lemma poke_aligned: "aligned sz a \<Longrightarrow> poke sz a v m = Some (stored m a (poke_bytes sz v))"
  by (auto simp: poke_def)

lemma aligned_next:
  assumes "item_size sz" "aligned sz a" "unat a + nat sz < 2 ^ 32"
  shows "aligned sz (a + word_of_int sz)"
proof -
  have "(word_of_int sz :: u32) = of_nat (nat sz)" using assms(1) by (auto elim: item_sizeE)
  then show ?thesis using assms addr_offset [of a "nat sz"] by (simp add: aligned_def)
qed

lemma word_of_item: "item_size sz \<Longrightarrow> (word_of_int sz :: u32) = of_nat (nat sz)"
  by (auto elim: item_sizeE)

section \<open>Copies\<close>

lemma cp_loop_ok:
  assumes "item_size (int k)" "aligned (int k) a" "aligned (int k) d" "unat a + n * k \<le> 2 ^ 32" "unat d + n * k \<le> 2 ^ 32"
    and "unat d \<le> unat a \<or> unat a + n * k \<le> unat d"
  shows "cp_loop (int k) n a d m = Some (stored m d (range_of m a (n * k)))"
  using assms
proof (induction n arbitrary: a d m)
  case 0
  then show ?case by (simp add: stored_def)
next
  case (Suc n)
  obtain v where v: "peek (int k) m a = Some v" "poke_bytes (int k) v = range_of m a k"
    using peek_aligned [OF Suc.prems(1,2)] by (metis nat_int)
  define m1 where "m1 = stored m d (range_of m a k)"
  have step: "cp_loop (int k) (Suc n) a d m = cp_loop (int k) n (a + of_nat k) (d + of_nat k) m1"
    using v poke_aligned [OF Suc.prems(3)] by (simp add: m1_def)
  have k: "0 < k" using Suc.prems(1) by (auto elim: item_sizeE)
  show ?case
  proof (cases "n = 0")
    case True
    then show ?thesis using step by (simp add: m1_def del: cp_loop.simps(2))
  next
    case False
    then have nk: "k \<le> n * k" by simp
    have s: "unat a + k + n * k \<le> 2 ^ 32" "unat d + k + n * k \<le> 2 ^ 32" "unat d \<le> unat a \<or> unat a + k + n * k \<le> unat d"
      using Suc.prems(4-6) by (simp_all add: add.assoc)
    have a: "unat (a + of_nat k) = unat a + k" "unat (d + of_nat k) = unat d + k"
      using s(1,2) nk k by (intro addr_offset, linarith)+
    have "cp_loop (int k) n (a + of_nat k) (d + of_nat k) m1 =
        Some (stored m1 (d + of_nat k) (range_of m1 (a + of_nat k) (n * k)))"
    proof (rule Suc.IH [OF Suc.prems(1)])
      have "unat a + nat (int k) < 2 ^ 32" "unat d + nat (int k) < 2 ^ 32" unfolding nat_int using s(1,2) nk k by linarith+
      then show "aligned (int k) (a + of_nat k)" "aligned (int k) (d + of_nat k)"
        using aligned_next [OF Suc.prems(1,2)] aligned_next [OF Suc.prems(1,3)] by simp_all
    qed (use s a in auto)
    moreover have "range_of m1 (a + of_nat k) (n * k) = range_of m (a + of_nat k) (n * k)"
      unfolding m1_def using s nk by (intro range_of_stored) (auto simp: a)
    moreover have "stored m1 (d + of_nat k) (range_of m (a + of_nat k) (n * k)) = stored m d (range_of m a (Suc n * k))"
      unfolding m1_def using stored_append [of "range_of m a k" "range_of m (a + of_nat k) (n * k)" m d] s(2)
      by (simp add: range_of_append)
    ultimately show ?thesis by (simp only: step)
  qed
qed

section \<open>Comparison\<close>

lemma peek_range:
  assumes "item_size (int k)" "aligned (int k) a" "aligned (int k) b"
  shows "\<exists>v w. peek (int k) m a = Some v \<and> peek (int k) m b = Some w \<and> (v = w \<longleftrightarrow> range_of m a k = range_of m b k)"
proof -
  obtain v w where v: "peek (int k) m a = Some v" "poke_bytes (int k) v = range_of m a k"
    and w: "peek (int k) m b = Some w" "poke_bytes (int k) w = range_of m b k"
    using peek_aligned [OF assms(1,2)] peek_aligned [OF assms(1,3)] by (metis nat_int)
  have "v = w" if "range_of m a k = range_of m b k"
  proof -
    have "k = 1 \<or> k = 2 \<or> k = 4" using assms(1) by (auto simp: item_size_def)
    then show ?thesis using v(1) w(1) that by (elim disjE) (auto simp: peek_def range_of_numeral split: if_splits)
  qed
  then show ?thesis using v w by metis
qed

lemma cmp_loop_ok:
  assumes "item_size (int k)" "aligned (int k) a" "aligned (int k) b" "unat a + n * k \<le> 2 ^ 32" "unat b + n * k \<le> 2 ^ 32"
  shows "\<exists>g diff. cmp_loop (int k) n a b c m = Some (c + of_nat g, diff) \<and> g \<le> n \<and>
    range_of m a (g * k) = range_of m b (g * k) \<and>
    (if diff = None then g = n else g < n \<and> range_of m a (Suc g * k) \<noteq> range_of m b (Suc g * k))"
  using assms
proof (induction n arbitrary: a b c)
  case 0
  then show ?case by simp
next
  case (Suc n)
  obtain v w where v: "peek (int k) m a = Some v" "peek (int k) m b = Some w" "v = w \<longleftrightarrow> range_of m a k = range_of m b k"
    using peek_range [OF Suc.prems(1-3)] by blast
  show ?case
  proof (cases "v = w")
    case False
    then show ?thesis using v by (intro exI [of _ 0]) auto
  next
    case True
    show ?thesis
    proof (cases "n = 0")
      case True
      then show ?thesis using v \<open>v = w\<close> by (intro exI [of _ 1] exI [of _ None]) simp
    next
      case False
      have k: "0 < k" using Suc.prems(1) by (auto elim: item_sizeE)
      have nk: "k \<le> n * k" using False by simp
      have s: "unat a + k + n * k \<le> 2 ^ 32" "unat b + k + n * k \<le> 2 ^ 32" using Suc.prems(4,5) by (simp_all add: add.assoc)
      have ab: "unat (a + of_nat k) = unat a + k" "unat (b + of_nat k) = unat b + k"
        using s nk k by (intro addr_offset, linarith)+
      have "unat a + nat (int k) < 2 ^ 32" "unat b + nat (int k) < 2 ^ 32" unfolding nat_int using s nk k by linarith+
      then have al: "aligned (int k) (a + of_nat k)" "aligned (int k) (b + of_nat k)"
        using aligned_next [OF Suc.prems(1,2)] aligned_next [OF Suc.prems(1,3)] by simp_all
      have "unat (a + of_nat k) + n * k \<le> 2 ^ 32" "unat (b + of_nat k) + n * k \<le> 2 ^ 32" using s ab by simp_all
      from Suc.IH [OF Suc.prems(1) al this, of "c + 1"] obtain g diff where
        g: "cmp_loop (int k) n (a + of_nat k) (b + of_nat k) (c + 1) m = Some (c + 1 + of_nat g, diff)" "g \<le> n"
          "range_of m (a + of_nat k) (g * k) = range_of m (b + of_nat k) (g * k)"
          "if diff = None then g = n else g < n \<and> range_of m (a + of_nat k) (Suc g * k) \<noteq> range_of m (b + of_nat k) (Suc g * k)" by blast
      have app: "range_of m x (Suc j * k) = range_of m x k @ range_of m (x + of_nat k) (j * k)" for x j
        using range_of_append [of m x k "j * k"] by simp
      have eq: "range_of m a k = range_of m b k" using v(3) \<open>v = w\<close> by simp
      have "cmp_loop (int k) (Suc n) a b c m = Some (c + of_nat (Suc g), diff)" using v(1,2) \<open>v = w\<close> g(1) by (simp add: algebra_simps)
      then show ?thesis using g(2-4) eq app [of _ g] app [of _ "Suc g"]
        by (intro exI [of _ "Suc g"] exI [of _ diff]) (auto split: if_splits)
    qed
  qed
qed

section \<open>The commands\<close>

text \<open>The words of a command with three numbers: its name with the object size, and the numbers.\<close>

definition words3 :: "bytes list \<Rightarrow> nat \<Rightarrow> u32 \<Rightarrow> u32 \<Rightarrow> u32 \<Rightarrow> bool" where
  "words3 argv k a b n \<longleftrightarrow> length argv = 4 \<and> item_size (int k) \<and> cmd_get_data_size (argv ! 0) 4 = int k \<and>
     hex_arg argv 1 = Some a \<and> hex_arg argv 2 = Some b \<and> hex_arg argv 3 = Some n"

lemma words3_size: "words3 argv k a b n \<Longrightarrow> 0 < k \<and> k \<le> 4"
  by (auto simp: words3_def elim: item_sizeE)

text \<open>C14: a copy outside flash. For objects of 1, 2 or 4 bytes, aligned, in ranges that do not wrap, \<^verbatim>\<open>cp\<close> moves exactly the bytes of the
  source range, as they were, to the destination, when it does not run over its own source: the ranges are disjoint or the
  destination is the lower one.\<close>

theorem cp_copies:
  assumes "words3 argv k a d n" "n \<noteq> 0" "addr2info (banks (fl s)) (d + base_address s) = Some None"
    and "aligned (int k) (a + base_address s)" "aligned (int k) (d + base_address s)"
    and "unat (a + base_address s) + unat n * k \<le> 2 ^ 32" "unat (d + base_address s) + unat n * k \<le> 2 ^ 32"
    and "unat (d + base_address s) \<le> unat (a + base_address s) \<or> unat (a + base_address s) + unat n * k \<le> unat (d + base_address s)"
  shows "do_mem_cp write_buff usage argv s =
    Some (0, put_mem (stored (mem_of s) (d + base_address s) (range_of (mem_of s) (a + base_address s) (unat n * k))) s)"
proof -
  have "at argv 0 = Some (argv ! 0)" "item_size (int k)" using assms(1) by (auto simp: words3_def at_def)
  then show ?thesis using assms(1,2,3) cp_loop_ok [OF _ assms(4-8), of "mem_of s"]
    by (simp add: do_mem_cp_def words3_def Let_def)
qed

subsection \<open>Samples\<close>

definition sample_mem :: "space \<Rightarrow> memsys" where
  "sample_mem m = \<lparr>fl = \<lparr>banks = [board_bank], chip = m, con = []\<rparr>, base_address = 0, dp_last_addr = 0, dp_last_size = 0,
     dp_last_length = 0x40, mm_last_addr = 0, mm_last_size = 0\<rparr>"

lemma sample_mem_simps [simp]:
  "base_address (sample_mem m) = 0" "banks (fl (sample_mem m)) = [board_bank]" "mem_of (sample_mem m) = m"
  by (simp_all add: sample_mem_def)

text \<open>A word written out, and its number.\<close>

lemma hex_arg_sample:
  "hex_arg [x, bytes_of ''80000000'', bytes_of ''80000010'', bytes_of ''3''] 1 = Some 0x80000000"
  "hex_arg [x, bytes_of ''80000000'', bytes_of ''80000010'', bytes_of ''3''] 2 = Some 0x80000010"
  "hex_arg [x, bytes_of ''80000000'', bytes_of ''80000010'', bytes_of ''3''] 3 = Some 3"
  by code_simp+

lemma words_sample: "c \<in> {''cp.w'', ''cmp.w''} \<Longrightarrow> words3 [bytes_of c, bytes_of ''80000000'', bytes_of ''80000010'', bytes_of ''3''] 2 0x80000000 0x80000010 3"
  unfolding words3_def hex_arg_sample by (auto simp: item_size_def cmd_get_data_size_def bytes_of_def byte_of_def)

theorem cp_copies_witness:
  "do_mem_cp store_bytes [] [bytes_of ''cp.w'', bytes_of ''80000000'', bytes_of ''80000010'', bytes_of ''3''] (sample_mem (\<lambda>x. ucast x)) =
    Some (0, put_mem (stored (\<lambda>x. ucast x) 0x80000010 (range_of (\<lambda>x. ucast x) 0x80000000 6)) (sample_mem (\<lambda>x. ucast x)))"
proof -
  have "addr2info [board_bank] 0x80000010 = Some None" by (simp add: addr2info_def bank_end_def at_def board_bank_def FLASH_UNKNOWN_def)
  then show ?thesis
    using cp_copies [OF words_sample [of "''cp.w''"], of "sample_mem (\<lambda>x. ucast x)" store_bytes "[]"] by (simp add: aligned_def)
qed

text \<open>C16: \<^verbatim>\<open>cmp\<close> returns 0 exactly if the two ranges are equal, and prints the number of objects before the first difference.\<close>

theorem mem_cmp_decides:
  assumes "words3 argv k a b n" "aligned (int k) (a + base_address s)" "aligned (int k) (b + base_address s)"
    and "unat (a + base_address s) + unat n * k \<le> 2 ^ 32" "unat (b + base_address s) + unat n * k \<le> 2 ^ 32"
  shows "\<exists>rc out g. do_mem_cmp usage argv s = Some (rc, print_mem out s) \<and>
    (rc = 0 \<longleftrightarrow> range_of (mem_of s) (a + base_address s) (unat n * k) = range_of (mem_of s) (b + base_address s) (unat n * k)) \<and>
    suffix (cmp_summary (int k) (of_nat g)) out \<and>
    g \<le> unat n \<and> range_of (mem_of s) (a + base_address s) (g * k) = range_of (mem_of s) (b + base_address s) (g * k) \<and>
    (rc = 0 \<or> g < unat n \<and> range_of (mem_of s) (a + base_address s) (Suc g * k) \<noteq> range_of (mem_of s) (b + base_address s) (Suc g * k))"
proof -
  let ?a = "a + base_address s" and ?b = "b + base_address s" and ?m = "mem_of s"
  have w: "at argv 0 = Some (argv ! 0)" "item_size (int k)" using assms(1) by (auto simp: words3_def at_def)
  obtain g diff where g: "cmp_loop (int k) (unat n) ?a ?b 0 ?m = Some (of_nat g, diff)" "g \<le> unat n"
      "range_of ?m ?a (g * k) = range_of ?m ?b (g * k)"
      "if diff = None then g = unat n else g < unat n \<and> range_of ?m ?a (Suc g * k) \<noteq> range_of ?m ?b (Suc g * k)"
    using cmp_loop_ok [OF w(2) assms(2-5), of 0 ?m] by auto
  have pre: "range_of ?m x (Suc g * k) = take (Suc g * k) (range_of ?m x (unat n * k))" if "g < unat n" for x
  proof -
    have "Suc g * k \<le> unat n * k" using that by (intro mult_le_mono1) simp
    then obtain j where "unat n * k = Suc g * k + j" using le_iff_add by auto
    then show ?thesis by (simp add: range_of_append)
  qed
  have eq: "diff = None \<longleftrightarrow> range_of ?m ?a (unat n * k) = range_of ?m ?b (unat n * k)"
    using g(3,4) pre by (auto split: if_splits)
  define out where "out = (case diff of None \<Rightarrow> [] | Some t \<Rightarrow> t) @ cmp_summary (int k) (of_nat g)"
  have run: "do_mem_cmp usage argv s = Some (if diff = None then 0 else 1, print_mem out s)"
    using assms(1) w g(1) by (simp add: do_mem_cmp_def words3_def Let_def out_def)
  have suf: "suffix (cmp_summary (int k) (of_nat g)) out" by (simp add: out_def suffix_def)
  show ?thesis
  proof (cases "diff = None")
    case True
    then show ?thesis using run suf g(2,3) eq by (intro exI [of _ 0] exI [of _ out] exI [of _ g]) simp
  next
    case False
    then show ?thesis using run suf g eq by (intro exI [of _ 1] exI [of _ out] exI [of _ g]) simp
  qed
qed

theorem mem_cmp_decides_witness:
  "\<exists>rc out g. do_mem_cmp [] [bytes_of ''cmp.w'', bytes_of ''80000000'', bytes_of ''80000010'', bytes_of ''3''] (sample_mem (\<lambda>x. ucast x)) =
      Some (rc, print_mem out (sample_mem (\<lambda>x. ucast x))) \<and>
    (rc = 0 \<longleftrightarrow> range_of (\<lambda>x. ucast x) 0x80000000 6 = (range_of (\<lambda>x. ucast x) 0x80000010 6 :: bytes)) \<and> suffix (cmp_summary 2 (of_nat g)) out"
  using mem_cmp_decides [OF words_sample [of "''cmp.w''"], of "sample_mem (\<lambda>x. ucast x)" "[]"] by (force simp: aligned_def)

text \<open>A destination in flash: the copy has stored all of the source when the command returns 0, and in every case nothing outside the
  destination range has changed.\<close>

lemma flash_write_outcome:
  assumes "flash_map infos" "sound_write infos write_buff" "0 < cnt" "unat addr + unat cnt \<le> 2 ^ 32" "unat cnt = length src"
  obtains rc m' where "flash_write write_buff infos src addr cnt m = Some (rc, m')"
    "rc = 0 \<longrightarrow> m' = stored m addr src" "\<forall>x. length src \<le> unat (x - addr) \<longrightarrow> m' x = m x"
proof -
  have le: "unat cnt \<le> length src" using assms(5) by simp
  note F = flash_write_cases [OF assms(1-4) le, of m]
  consider (inval) "\<not> in_flash infos addr \<or> \<not> in_flash infos (addr + cnt - 1)"
    | (prot) "in_flash infos addr" "in_flash infos (addr + cnt - 1)" "\<exists>a. addr \<le> a \<and> a \<le> addr + cnt - 1 \<and> protected_at infos a"
    | (ok) "in_flash infos addr" "in_flash infos (addr + cnt - 1)" "\<not> (\<exists>a. addr \<le> a \<and> a \<le> addr + cnt - 1 \<and> protected_at infos a)"
    by blast
  then show thesis
  proof cases
    case inval
    then have "flash_write write_buff infos src addr cnt m = Some (ERR_INVAL, m)" using conjunct1 [OF F] by (simp only: if_True)
    then show thesis by (rule that) (simp_all add: ERR_INVAL_def)
  next
    case prot
    then have "flash_write write_buff infos src addr cnt m = Some (ERR_PROTECTED, m)" using conjunct1 [OF F] by (simp only: if_True if_False) simp
    then show thesis by (rule that) (simp_all add: ERR_PROTECTED_def)
  next
    case ok
    then obtain r where r: "flash_write write_buff infos src addr cnt m = Some r" "written m addr (take (unat cnt) src) r"
      using conjunct2 [OF F] by blast
    then show thesis using that [of "fst r" "snd r"] assms(5) by (simp add: written_def)
  qed
qed

lemma cp_to_flash:
  assumes "words3 argv k a d n" "0 < n" "flash_map (banks (fl s))" "sound_write (banks (fl s)) write_buff"
    and "in_flash (banks (fl s)) (d + base_address s)" "unat (d + base_address s) + unat n * k \<le> 2 ^ 32" "unat n * k < 2 ^ 32"
  shows "\<exists>rc s'. do_mem_cp write_buff usage argv s = Some (rc, s') \<and> banks (fl s') = banks (fl s) \<and> (rc = 0 \<or> rc = 1) \<and>
    (rc = 0 \<longrightarrow> mem_of s' = stored (mem_of s) (d + base_address s) (range_of (mem_of s) (a + base_address s) (unat n * k))) \<and>
    (\<forall>x. unat n * k \<le> unat (x - (d + base_address s)) \<longrightarrow> mem_of s' x = mem_of s x)"
proof -
  let ?d = "d + base_address s" and ?a = "a + base_address s" and ?m = "mem_of s" and ?c = "n * of_nat k"
  have w: "at argv 0 = Some (argv ! 0)" using assms(1) by (auto simp: words3_def at_def)
  have k: "0 < k" "k \<le> 4" using words3_size [OF assms(1)] by auto
  then have uk: "unat (of_nat k :: u32) = k" by (intro unat_small) simp
  have c: "unat ?c = unat n * k" using assms(7) uk by (simp add: unat_mult_lem [THEN iffD1])
  have pos: "0 < ?c" using assms(2) k c by (simp add: word_less_nat_alt)
  have nz: "n \<noteq> 0" using assms(2) by auto
  obtain b where b: "addr2info (banks (fl s)) ?d = Some (Some b)" using addr2info_in [OF assms(3)] assms(5) unfolding in_flash_def by blast
  have b1: "unat ?d + unat ?c \<le> 2 ^ 32" "unat ?c = length (range_of ?m ?a (unat ?c))" using assms(6) c by simp_all
  obtain rc m where r: "flash_write write_buff (banks (fl s)) (range_of ?m ?a (unat ?c)) ?d ?c ?m = Some (rc, m)"
      "rc = 0 \<longrightarrow> m = stored ?m ?d (range_of ?m ?a (unat ?c))" "\<forall>x. unat ?c \<le> unat (x - ?d) \<longrightarrow> m x = ?m x"
    using flash_write_outcome [OF assms(3,4) pos b1, of ?m] by (metis length_range_of)
  have run: "do_mem_cp write_buff usage argv s =
      (if rc \<noteq> 0 then Some (1, print_mem (flash_perror rc) (put_mem m (print_mem (bytes_of ''Copy to Flash... '') s)))
       else Some (0, print_mem (line ''done'') (put_mem m (print_mem (bytes_of ''Copy to Flash... '') s))))"
    using assms(1) nz w b r(1) by (simp add: do_mem_cp_def words3_def Let_def)
  then show ?thesis using r(2,3) c by (auto simp: print_mem_def put_mem_def puts_to_def)
qed

section \<open>The memory test\<close>

text \<open>What \<open>n\<close> words of hardware hold after the writing pass: word \<open>i\<close> was given \<open>v + i * incr\<close>, and keeps \<open>f\<close> of it.\<close>

definition hw_store :: "(u32 \<Rightarrow> u32 \<Rightarrow> u32) \<Rightarrow> u32 \<Rightarrow> u32 \<Rightarrow> space \<Rightarrow> space" where
  "hw_store f a v m = stored m a (be32 (f a v))"

definition word_at :: "u32 \<Rightarrow> nat \<Rightarrow> u32" where
  "word_at a i = a + of_nat (4 * i)"

text \<open>A test range of \<open>n\<close> words from \<open>a\<close>.\<close>

definition test_range :: "u32 \<Rightarrow> u32 \<Rightarrow> nat \<Rightarrow> bool" where
  "test_range a end n \<longleftrightarrow> aligned 4 a \<and> unat a + 4 * n < 2 ^ 32 \<and> unat a + 4 * n < unat end + 4 \<and> unat end \<le> unat a + 4 * n"

lemma test_range_Suc:
  assumes "test_range a end (Suc n)"
  shows "a < end" "test_range (a + 4) end n" "unat (a + 4) = unat a + 4" "aligned 4 a"
proof -
  have u: "unat (a + 4) = unat a + 4" using assms addr_offset [of a 4] by (simp add: test_range_def)
  then show "unat (a + 4) = unat a + 4" .
  show "a < end" "aligned 4 a" using assms by (auto simp: test_range_def word_less_nat_alt)
  show "test_range (a + 4) end n" using assms u by (auto simp: test_range_def aligned_def)
qed

lemma test_range_0: "test_range a end 0 \<Longrightarrow> \<not> a < end"
  by (simp add: test_range_def word_less_nat_alt)

fun hw_write :: "(u32 \<Rightarrow> u32 \<Rightarrow> u32) \<Rightarrow> u32 \<Rightarrow> nat \<Rightarrow> u32 \<Rightarrow> u32 \<Rightarrow> space \<Rightarrow> space" where
  "hw_write f incr 0 a v m = m"
| "hw_write f incr (Suc n) a v m = hw_write f incr n (a + 4) (v + incr) (hw_store f a v m)"

lemma mtest_write_ok: "test_range a end n \<Longrightarrow> mtest_write (hw_store f) incr end a v m = Some (hw_write f incr n a v m)"
proof (induction n arbitrary: a v m)
  case 0
  then show ?case using test_range_0 by (subst mtest_write.simps) simp
next
  case (Suc n)
  from test_range_Suc [OF Suc.prems] Suc.IH show ?case by (subst mtest_write.simps) simp
qed

lemma hw_write_below:
  "unat x < unat a \<Longrightarrow> unat a + 4 * n < 2 ^ 32 \<Longrightarrow> hw_write f incr n a v m x = m x"
proof (induction n arbitrary: a v m)
  case (Suc n)
  have u: "unat (a + 4) = unat a + 4" using Suc.prems addr_offset [of a 4] by simp
  have "hw_store f a v m x = m x" unfolding hw_store_def using Suc.prems by (intro stored_outside) auto
  then show ?case using Suc.IH [of "a + 4" "v + incr" "hw_store f a v m"] Suc.prems u by simp
qed simp

lemma peek4_stored:
  assumes "aligned 4 a"
  shows "peek 4 (stored m a (be32 w)) a = Some w"
proof -
  have "range_of (stored m a (be32 w)) a 4 = be32 w"
  proof (rule nth_equalityI)
    fix i
    assume "i < length (range_of (stored m a (be32 w)) a 4)"
    then show "range_of (stored m a (be32 w)) a 4 ! i = be32 w ! i"
      using unat_small [of i] by (simp add: nth_range_of stored_def)
  qed simp
  then have "[stored m a (be32 w) a, stored m a (be32 w) (a + 1), stored m a (be32 w) (a + 2), stored m a (be32 w) (a + 3)] = be32 w"
    by (simp only: range_of_numeral)
  then show ?thesis using assms by (simp add: peek_def be32_def of_be32_be32)
qed

lemma peek_cong: "m a = m' a \<Longrightarrow> m (a + 1) = m' (a + 1) \<Longrightarrow> m (a + 2) = m' (a + 2) \<Longrightarrow> m (a + 3) = m' (a + 3) \<Longrightarrow> peek 4 m a = peek 4 m' a"
  by (simp add: peek_def)

lemma hw_write_first:
  assumes "test_range a end (Suc n)"
  shows "peek 4 (hw_write f incr (Suc n) a v m) a = Some (f a v)"
proof -
  note t = test_range_Suc [OF assms]
  have b: "unat (a + 4) + 4 * n < 2 ^ 32" using t(2) by (simp add: test_range_def)
  have "hw_write f incr n (a + 4) (v + incr) (hw_store f a v m) (a + of_nat i) = hw_store f a v m (a + of_nat i)" if "i < 4" for i
    using that t(3) addr_offset [of a i] b by (intro hw_write_below) auto
  from this [of 0] this [of 1] this [of 2] this [of 3]
  have "peek 4 (hw_write f incr (Suc n) a v m) a = peek 4 (hw_store f a v m) a" by (intro peek_cong) simp_all
  also have "\<dots> = Some (f a v)" unfolding hw_store_def by (rule peek4_stored [OF t(4)])
  finally show ?thesis .
qed

text \<open>The reading pass reports an error exactly if some word does not hold what it was given.\<close>

lemma mtest_read_ok:
  assumes "test_range a end n" "\<forall>i<n. peek 4 m (word_at a i) = Some (g i)"
  shows "\<exists>es. mtest_read incr end a v m errs = Some es \<and> (es = [] \<longleftrightarrow> errs = [] \<and> (\<forall>i<n. g i = v + of_nat i * incr))"
  using assms
proof (induction n arbitrary: a v errs g)
  case 0
  then show ?case using test_range_0 by (subst mtest_read.simps) simp
next
  case (Suc n)
  note t = test_range_Suc [OF Suc.prems(1)]
  have g0: "peek 4 m a = Some (g 0)" using Suc.prems(2) by (auto simp: word_at_def)
  have "word_at (a + 4) i = word_at a (Suc i)" for i by (simp add: word_at_def)
  then have gs: "\<forall>i<n. peek 4 m (word_at (a + 4) i) = Some (g (Suc i))" using Suc.prems(2) by simp
  from Suc.IH [OF t(2) gs, of "v + incr" "if g 0 \<noteq> v then errs @ [mem_error a (g 0) v] else errs"] obtain es where
    es: "mtest_read incr end (a + 4) (v + incr) m (if g 0 \<noteq> v then errs @ [mem_error a (g 0) v] else errs) = Some es"
      "es = [] \<longleftrightarrow> (if g 0 \<noteq> v then errs @ [mem_error a (g 0) v] else errs) = [] \<and> (\<forall>i<n. g (Suc i) = v + incr + of_nat i * incr)" by blast
  have "mtest_read incr end a v m errs = Some es" using t(1) g0 es(1) by (subst mtest_read.simps) simp
  moreover have "(\<forall>i<Suc n. g i = v + of_nat i * incr) \<longleftrightarrow> g 0 = v \<and> (\<forall>i<n. g (Suc i) = v + incr + of_nat i * incr)"
    by (auto simp: All_less_Suc2 algebra_simps)
  ultimately show ?case using es(2) by (intro exI [of _ es]) (auto split: if_splits)
qed

lemma hw_write_at:
  assumes "test_range a end n" "i < n"
  shows "peek 4 (hw_write f incr n a v m) (word_at a i) = Some (f (word_at a i) (v + of_nat i * incr))"
  using assms
proof (induction n arbitrary: a v m i)
  case (Suc n)
  show ?case
  proof (cases i)
    case 0
    then show ?thesis using hw_write_first [OF Suc.prems(1)] by (simp add: word_at_def)
  next
    case (Suc j)
    have "word_at a i = word_at (a + 4) j" "v + of_nat i * incr = v + incr + of_nat j * incr"
      using Suc by (simp_all add: word_at_def algebra_simps)
    then show ?thesis using Suc.IH [OF test_range_Suc(2) [OF Suc.prems(1)], of j "v + incr"] Suc Suc.prems(2) by (simp add: add.assoc)
  qed
qed simp

lemma mtest_round_ok:
  assumes "test_range a end n"
  shows "\<exists>m' es. mtest_round (hw_store f) incr p a end m = Some (m', es) \<and>
    (es = [] \<longleftrightarrow> (\<forall>i<n. f (word_at a i) (p + of_nat i * incr) = p + of_nat i * incr))"
proof -
  let ?m = "hw_write f incr n a p m"
  have "\<forall>i<n. peek 4 ?m (word_at a i) = Some (f (word_at a i) (p + of_nat i * incr))" using hw_write_at [OF assms] by blast
  from mtest_read_ok [OF assms this, of incr p "[]"] show ?thesis
    using mtest_write_ok [OF assms, of f incr p m] by (auto simp: mtest_round_def)
qed



text \<open>The code of the test is 1 whatever it has found: it ends only by control-C.\<close>

lemma mtest_loop_code: "mtest_loop store a z cs incr p s = Some (Some rc, s') \<Longrightarrow> rc = 1"
  by (induction store a z cs incr p s rule: mtest_loop.induct) (auto split: if_splits Option.bind_splits)

lemma mtest_always_fails: "do_mem_mtest store argv cs s = Some (Some rc, s') \<Longrightarrow> rc = 1"
  by (auto simp: do_mem_mtest_def split: Option.bind_splits dest: mtest_loop_code)

end
