(* ===== verification/Httpd.thy ===== *)
theory Httpd
  imports FlashProps
begin

text \<open>
  \<^verbatim>\<open>httpd/httpd.c\<close> and \<^verbatim>\<open>httpd/fs.c\<close>: the web server of the recovery mode, which serves pages and takes a firmware
  image by a POST request. It is called by the uIP stack with what happened on a connection (\<open>uip\<close>) and answers
  with flags and data to send. The build is that of the boards of this fork (\<^verbatim>\<open>CONFIG_FOR_GL_BOARD\<close>, without
  \<^verbatim>\<open>CONFIG_AR300M\<close> and \<^verbatim>\<open>CONFIG_GL_RSA\<close>); messages are not modelled, except the progress line.
  The pages are generated by the build, so their list and names are arguments. The allocator's answer is part of the
  call; the calls of \<^verbatim>\<open>malloc\<close> and \<^verbatim>\<open>free\<close> are logged, and reading the freed block is \<open>None\<close>.
\<close>

section \<open>State\<close>

datatype app_state = STATE_NONE | STATE_FILE_REQUEST | STATE_UPLOAD_REQUEST

record httpd_state =
  hs_state :: app_state
  hs_count :: u16
  dataptr :: "bytes \<times> nat"   \<comment> \<open>a file and the position in it\<close>
  upload :: u32
  upload_total :: u32

datatype upgrade_type = FIRMWARE | UBOOT | ART | NOR_FIRMWARE

datatype heap_op = Malloc nat | Free nat

record httpd =
  appstate :: "nat \<Rightarrow> httpd_state"   \<comment> \<open>of each connection\<close>
  webfailsafe_post_done :: bool
  webfailsafe_upload_failed :: bool
  data_start_found :: bool
  post_packet_counter :: u8
  post_line_counter :: u8
  boundary_value :: "nat option"   \<comment> \<open>the pointer\<close>
  boundary_text :: bytes           \<comment> \<open>what was stored in its block\<close>
  heap_log :: "heap_op list"       \<comment> \<open>newest first\<close>
  webfailsafe_ready_for_upgrade :: bool
  webfailsafe_upgrade_type :: upgrade_type
  webfailsafe_data_pointer :: u32
  http_xfer_size :: u32            \<comment> \<open>\<^verbatim>\<open>NetBootFileXferSize\<close>\<close>
  uip_file_post_done :: bool
  memory :: space
  green_led :: bool
  progress :: bytes
  http_env :: gd

text \<open>One call of the application: the connection and what happened on it; the flags and the data to send are
  the answer.\<close>

record uip =
  conn :: nat
  lport :: u16
  uip_flags :: u8
  uip_appdata :: mem      \<comment> \<open>the packet buffer from the data on\<close>
  uip_len :: u16
  uip_mss :: u16
  conn_len :: u16         \<comment> \<open>length of the data sent last\<close>
  malloc_ret :: "nat option"
  uip_sappdata :: "bytes \<times> nat"
  uip_slen :: u16

record http_world =
  fs_files :: "(bytes \<times> bytes) list"   \<comment> \<open>names with their NUL, contents\<close>
  index_page :: bytes
  page_404 :: bytes
  flashing_page :: bytes
  fail_page :: bytes
  switch_enabled_page :: bytes
  switch_disabled_page :: bytes
  flash0_size :: u32
  http_saveenv :: "gd \<Rightarrow> gd option"

definition UIP_ACKDATA :: u8 where "UIP_ACKDATA = 1"
definition UIP_NEWDATA :: u8 where "UIP_NEWDATA = 2"
definition UIP_REXMIT :: u8 where "UIP_REXMIT = 4"
definition UIP_POLL :: u8 where "UIP_POLL = 8"
definition UIP_CLOSE :: u8 where "UIP_CLOSE = 16"
definition UIP_ABORT :: u8 where "UIP_ABORT = 32"
definition UIP_CONNECTED :: u8 where "UIP_CONNECTED = 64"
definition UIP_TIMEDOUT :: u8 where "UIP_TIMEDOUT = 128"

lemmas uip_flag_defs = UIP_ACKDATA_def UIP_NEWDATA_def UIP_REXMIT_def UIP_POLL_def UIP_CLOSE_def UIP_ABORT_def
  UIP_CONNECTED_def UIP_TIMEDOUT_def

definition uip_is :: "u8 \<Rightarrow> uip \<Rightarrow> bool" where
  "uip_is f u \<longleftrightarrow> uip_flags u AND f \<noteq> 0"

definition uip_close :: "uip \<Rightarrow> uip" where "uip_close u = u\<lparr>uip_flags := UIP_CLOSE\<rparr>"
definition uip_abort :: "uip \<Rightarrow> uip" where "uip_abort u = u\<lparr>uip_flags := UIP_ABORT\<rparr>"

definition WEBFAILSAFE_UPLOAD_RAM_ADDRESS :: u32 where "WEBFAILSAFE_UPLOAD_RAM_ADDRESS = 0x80800000"
definition WEBFAILSAFE_UPLOAD_UBOOT_SIZE :: u32 where "WEBFAILSAFE_UPLOAD_UBOOT_SIZE = 256 * 1024"
definition WEBFAILSAFE_UPLOAD_ART_SIZE :: u32 where "WEBFAILSAFE_UPLOAD_ART_SIZE = 64 * 1024"
definition WEBFAILSAFE_UPLOAD_LIMITED_AREA :: u32 where "WEBFAILSAFE_UPLOAD_LIMITED_AREA = 192 * 1024"

definition eol :: bytes where "eol = [13, 10]"
definition eol2 :: bytes where "eol2 = [13, 10, 13, 10]"

abbreviation hs_of :: "uip \<Rightarrow> httpd \<Rightarrow> httpd_state" where
  "hs_of u s \<equiv> appstate s (conn u)"

definition set_hs :: "uip \<Rightarrow> httpd_state \<Rightarrow> httpd \<Rightarrow> httpd" where
  "set_hs u h s = s\<lparr>appstate := (appstate s)(conn u := h)\<rparr>"

text \<open>The blocks that are allocated after a log of calls, and whether every \<^verbatim>\<open>free\<close> was of one of them.\<close>

fun live_blocks :: "heap_op list \<Rightarrow> nat list" where
  "live_blocks [] = []"
| "live_blocks (Malloc a # l) = a # live_blocks l"
| "live_blocks (Free a # l) = remove1 a (live_blocks l)"

fun heap_ok :: "heap_op list \<Rightarrow> bool" where
  "heap_ok [] = True"
| "heap_ok (Malloc a # l) = heap_ok l"
| "heap_ok (Free a # l) \<longleftrightarrow> a \<in> set (live_blocks l) \<and> heap_ok l"

definition boundary_string :: "httpd \<Rightarrow> bytes option" where
  "boundary_string s = (case boundary_value s of None \<Rightarrow> None
     | Some a \<Rightarrow> if a \<in> set (live_blocks (heap_log s)) then Some (boundary_text s) else None)"

section \<open>The read-only files\<close>

text \<open>\<^verbatim>\<open>fs_strcmp\<close> counts in a \<^verbatim>\<open>u8_t\<close>: on two equal strings of 256 characters or more it goes round for ever.\<close>

partial_function (option) fs_strcmp_loop :: "mem \<Rightarrow> addr \<Rightarrow> mem \<Rightarrow> u8 \<Rightarrow> u8 option" where
  "fs_strcmp_loop m p name i = do {
     c \<leftarrow> rd m (p + unat i);
     d \<leftarrow> rd name (unat i);
     if c \<noteq> d then Some 1 else if c = 0 then Some 0 else fs_strcmp_loop m p name (i + 1) }"

definition fs_strcmp :: "mem \<Rightarrow> addr \<Rightarrow> mem \<Rightarrow> u8 option" where
  "fs_strcmp m p name = fs_strcmp_loop m p name 0"

fun fs_open :: "(bytes \<times> bytes) list \<Rightarrow> mem \<Rightarrow> addr \<Rightarrow> bytes option option" where
  "fs_open [] m p = Some None"
| "fs_open ((name, contents) # fs) m p = do {
     r \<leftarrow> fs_strcmp m p name;
     if r = 0 then Some (Some contents) else fs_open fs m p }"

text \<open>Opening one of the server's own pages; when it is not found the local \<^verbatim>\<open>fsfile\<close> stays uninitialised.\<close>

definition open_page :: "http_world \<Rightarrow> bytes \<Rightarrow> bytes option" where
  "open_page w name = do { r \<leftarrow> fs_open (fs_files w) name 0; r }"

section \<open>Helpers\<close>

text \<open>\<^verbatim>\<open>strstr\<close> in the packet buffer for a string kept elsewhere; the buffer has to hold the end of its own string.\<close>

definition find_in :: "mem \<Rightarrow> addr \<Rightarrow> bytes \<Rightarrow> addr option option" where
  "find_in buf p pat = do { _ \<leftarrow> strlen p buf; strstr p (length buf) (buf @ pat @ [0]) }"

function httpd_atoi_loop :: "mem \<Rightarrow> addr \<Rightarrow> u32 \<Rightarrow> u32 option" where
  "httpd_atoi_loop m p i = do {
     c \<leftarrow> rd m p;
     if 48 \<le> c \<and> c \<le> 57 then httpd_atoi_loop m (Suc p) (i * 10 + ucast c - 48) else Some i }"
  by pat_completeness auto
termination
  by (relation "measure (\<lambda>(m, p, i). length m - p)") auto

definition httpd_atoi :: "mem \<Rightarrow> addr \<Rightarrow> u32 option" where
  "httpd_atoi m p = httpd_atoi_loop m p 0"

definition httpd_download_progress :: "httpd \<Rightarrow> httpd" where
  "httpd_download_progress s =
     (let s1 = (if post_packet_counter s = 39 then
                  s\<lparr>progress := progress s @ bytes_of (CHR 0x0A # ''         ''), post_packet_counter := 0,
                    post_line_counter := post_line_counter s + 1, green_led := False\<rparr>
                else s);
          s2 = (if post_line_counter s1 = 20 then s1\<lparr>green_led := True\<rparr> else s1);
          s3 = (if post_line_counter s2 = 40 then s2\<lparr>green_led := False, post_line_counter := 0\<rparr> else s2)
      in s3\<lparr>progress := progress s3 @ bytes_of ''#'', post_packet_counter := post_packet_counter s3 + 1\<rparr>)"

definition empty_hs :: httpd_state where
  "empty_hs = \<lparr>hs_state = STATE_NONE, hs_count = 0, dataptr = ([], 0), upload = 0, upload_total = 0\<rparr>"

definition httpd_state_reset :: "uip \<Rightarrow> httpd \<Rightarrow> httpd" where
  "httpd_state_reset u s =
     (set_hs u empty_hs s)\<lparr>data_start_found := False, post_packet_counter := 0,
        heap_log := (case boundary_value s of None \<Rightarrow> heap_log s | Some a \<Rightarrow> Free a # heap_log s)\<rparr>"

definition reset_abort :: "uip \<Rightarrow> httpd \<Rightarrow> httpd \<times> uip" where
  "reset_abort u s = (httpd_state_reset u s, uip_abort u)"

text \<open>Send the first segment of what is left of the file.\<close>

definition send_chunk :: "uip \<Rightarrow> httpd \<Rightarrow> httpd \<times> uip" where
  "send_chunk u s = (let h = hs_of u s in
     (s, u\<lparr>uip_sappdata := dataptr h, uip_slen := (if ucast (uip_mss u) < upload h then uip_mss u else ucast (upload h))\<rparr>))"

definition serve_file :: "bytes \<Rightarrow> uip \<Rightarrow> httpd \<Rightarrow> httpd \<times> uip" where
  "serve_file contents u s =
     send_chunk u (set_hs u ((hs_of u s)\<lparr>hs_state := STATE_FILE_REQUEST, dataptr := (contents, 0),
       upload := of_nat (length contents)\<rparr>) s)"

section \<open>The start of an upload\<close>

definition name_field :: "string \<Rightarrow> bytes" where
  "name_field n = bytes_of ''name='' @ 34 # bytes_of n @ [34]"

definition has_text :: "mem \<Rightarrow> addr \<Rightarrow> bytes \<Rightarrow> bool option" where
  "has_text m p pat = map_option (\<lambda>r. r \<noteq> None) (find_in m p pat)"

text \<open>The form field decides what is upgraded; \<open>None\<close> is an unknown name or file suffix.\<close>

definition find_upgrade_type :: "mem \<Rightarrow> addr \<Rightarrow> upgrade_type option option" where
  "find_upgrade_type m bstart = do {
     nand \<leftarrow> has_text m bstart (name_field ''nand_firmware'');
     if nand then Some (Some FIRMWARE) else do {
     uboot \<leftarrow> has_text m bstart (name_field ''uboot'');
     if uboot then Some (Some UBOOT) else do {
     art \<leftarrow> has_text m bstart (name_field ''art'');
     if art then Some (Some ART) else do {
     nor \<leftarrow> has_text m bstart (name_field ''nor__firmware'');
     if nor then Some (Some NOR_FIRMWARE) else do {
     gl \<leftarrow> has_text m bstart (name_field ''gl_firmware'');
     if gl then do {
       img \<leftarrow> has_text m bstart (bytes_of ''.img'' @ [34]);
       ubi \<leftarrow> (if img then Some True else has_text m bstart (bytes_of ''.ubi'' @ [34]));
       if ubi then Some (Some FIRMWARE) else do {
       bin \<leftarrow> has_text m bstart (bytes_of ''.bin'' @ [34]);
       if bin then Some (Some NOR_FIRMWARE) else Some None } }
     else Some None } } } } }"

definition wrong_size :: "http_world \<Rightarrow> upgrade_type \<Rightarrow> u32 \<Rightarrow> bool" where
  "wrong_size w t n =
     (if t = UBOOT \<and> WEBFAILSAFE_UPLOAD_UBOOT_SIZE < n then True
      else if t = ART \<and> n \<noteq> WEBFAILSAFE_UPLOAD_ART_SIZE then True
      else if flash0_size w - WEBFAILSAFE_UPLOAD_LIMITED_AREA < n then t = NOR_FIRMWARE
      else False)"

text \<open>The part from the boundary at \<open>bstart\<close>; its data begin after the empty line at \<open>e\<close>.\<close>

definition store_first :: "http_world \<Rightarrow> uip \<Rightarrow> nat \<Rightarrow> addr \<Rightarrow> addr \<Rightarrow> httpd \<Rightarrow> httpd option" where
  "store_first w u blen bstart e s =
     (let h = hs_of u s; d = e + 4;
          total = upload_total h - of_nat (d - bstart) - of_nat blen - 6;
          n = of_nat (unat (uip_len u)) - (of_nat d :: u32)
      in if d + unat n \<le> length (uip_appdata u) then
           Some (httpd_download_progress ((set_hs u (h\<lparr>upload_total := total, upload := n\<rparr>) s)
             \<lparr>webfailsafe_upload_failed := webfailsafe_upload_failed s \<or> wrong_size w (webfailsafe_upgrade_type s) total,
              memory := stored (memory s) (webfailsafe_data_pointer s) (slice (uip_appdata u) d (unat n)),
              webfailsafe_data_pointer := webfailsafe_data_pointer s + n\<rparr>))
         else None)"

definition httpd_findandstore_firstchunk :: "http_world \<Rightarrow> uip \<Rightarrow> httpd \<Rightarrow> (bool \<times> httpd) option" where
  "httpd_findandstore_firstchunk w u s =
     (if boundary_value s = None then Some (False, s) else do {
        b \<leftarrow> boundary_string s;
        r \<leftarrow> find_in (uip_appdata u) 0 b;
        case r of None \<Rightarrow> Some (False, s)
        | Some bstart \<Rightarrow> do {
            t \<leftarrow> find_upgrade_type (uip_appdata u) bstart;
            case t of None \<Rightarrow> Some (False, s)
            | Some ty \<Rightarrow> do {
                let s1 = s\<lparr>webfailsafe_upgrade_type := ty\<rparr>;
                r2 \<leftarrow> find_in (uip_appdata u) bstart eol2;
                case r2 of None \<Rightarrow> Some (False, s1)
                | Some e \<Rightarrow> if e < unat (uip_len u)
                            then map_option (Pair True) (store_first w u (length b) bstart e s1)
                            else Some (False, s1) } } })"

section \<open>Requests\<close>

text \<open>End the buffer with a NUL.\<close>

definition end_packet :: "uip \<Rightarrow> uip option" where
  "end_packet u = map_option (\<lambda>m. u\<lparr>uip_appdata := m\<rparr>) (wr (uip_appdata u) (unat (uip_len u)) 0)"

definition is_blank :: "u8 \<Rightarrow> bool" where "is_blank c \<longleftrightarrow> c = 32 \<or> c = 9"

text \<open>The request line: \<^verbatim>\<open>&&\<close> reads the bytes up to the first difference.\<close>

fun starts_at :: "mem \<Rightarrow> addr \<Rightarrow> bytes \<Rightarrow> bool option" where
  "starts_at m p [] = map_option is_blank (rd m p)"
| "starts_at m p (b # bs) = do { c \<leftarrow> rd m p; if c = b then starts_at m (Suc p) bs else Some False }"

definition request_state :: "mem \<Rightarrow> app_state option" where
  "request_state m = do {
     get \<leftarrow> starts_at m 0 (bytes_of ''GET'');
     if get then Some STATE_FILE_REQUEST else do {
     post \<leftarrow> starts_at m 0 (bytes_of ''POST'');
     if post then Some STATE_UPLOAD_REQUEST else Some STATE_NONE } }"

text \<open>The switch of the boot device, a form with another answer.\<close>

definition switch_boot_dev :: "http_world \<Rightarrow> string \<Rightarrow> bytes \<Rightarrow> uip \<Rightarrow> httpd \<Rightarrow> (httpd \<times> uip) option" where
  "switch_boot_dev w val page u s = do {
     g \<leftarrow> setenv (bytes_of ''boot_dev'') (Some (bytes_of val)) (http_env s);
     g \<leftarrow> http_saveenv w g;
     f \<leftarrow> open_page w page;
     Some (serve_file f u (httpd_state_reset u (s\<lparr>http_env := g\<rparr>))) }"

function file_name_end :: "mem \<Rightarrow> nat \<Rightarrow> addr option option" where
  "file_name_end m i =
     (if i < 30 then do {
        c \<leftarrow> rd m i;
        if c = 32 \<or> c = 13 \<or> c = 10 \<or> c = 9 then Some (Some i) else file_name_end m (Suc i) }
      else Some None)"
  by pat_completeness auto
termination
  by (relation "measure (\<lambda>(m, i). 30 - i)") auto

definition get_request :: "http_world \<Rightarrow> uip \<Rightarrow> httpd \<Rightarrow> (httpd \<times> uip) option" where
  "get_request w u s = do {
     r \<leftarrow> file_name_end (uip_appdata u) 4;
     case r of None \<Rightarrow> Some (reset_abort u s)
     | Some i \<Rightarrow> do {
         m \<leftarrow> wr (uip_appdata u) i 0;
         c4 \<leftarrow> rd m 4;
         c5 \<leftarrow> (if c4 = 47 then rd m 5 else Some 1);
         f \<leftarrow> (if c4 = 47 \<and> c5 = 0 then open_page w (index_page w)
              else do {
                r \<leftarrow> fs_open (fs_files w) m 4;
                case r of Some f \<Rightarrow> Some f | None \<Rightarrow> open_page w (page_404 w) });
         Some (serve_file f (u\<lparr>uip_appdata := m\<rparr>) s) } }"

text \<open>\<^verbatim>\<open>Content-Length:\<close>; \<^verbatim>\<open>sizeof\<close> counts the NUL of the literal, which steps over the blank.\<close>

definition content_length :: "mem \<Rightarrow> u32 option option" where
  "content_length m = do {
     r \<leftarrow> find_in m 0 (bytes_of ''Content-Length:'');
     case r of None \<Rightarrow> Some None
     | Some p \<Rightarrow> do {
         e \<leftarrow> find_in m (p + 16) eol;
         if e = None then Some None else map_option Some (httpd_atoi m (p + 16)) } }"

definition request_boundary :: "mem \<Rightarrow> bytes option option" where
  "request_boundary m = do {
     r \<leftarrow> find_in m 0 (bytes_of ''boundary='');
     case r of None \<Rightarrow> Some None
     | Some p \<Rightarrow> do {
         e \<leftarrow> find_in m (p + 9) eol;
         Some (map_option (\<lambda>e. slice m (p + 9) (e - (p + 9))) e) } }"

definition post_request :: "http_world \<Rightarrow> uip \<Rightarrow> httpd \<Rightarrow> (httpd \<times> uip) option" where
  "post_request w u s = do {
     l \<leftarrow> content_length (uip_appdata u);
     case l of None \<Rightarrow> Some (reset_abort u s)
     | Some n \<Rightarrow> do {
         let s1 = set_hs u ((hs_of u s)\<lparr>upload_total := n\<rparr>) s;
         if n < 10240 then Some (reset_abort u s1)
         else do {
           b \<leftarrow> request_boundary (uip_appdata u);
           case b of None \<Rightarrow> Some (reset_abort u s1)
           | Some t \<Rightarrow> (case malloc_ret u of
               None \<Rightarrow> Some (reset_abort u (s1\<lparr>boundary_value := None\<rparr>))
             | Some a \<Rightarrow> do {
                 let s2 = s1\<lparr>boundary_value := Some a, boundary_text := bytes_of ''--'' @ t,
                   heap_log := Malloc a # heap_log s1, webfailsafe_data_pointer := WEBFAILSAFE_UPLOAD_RAM_ADDRESS\<rparr>;
                 (found, s3) \<leftarrow> httpd_findandstore_firstchunk w u s2;
                 Some (s3\<lparr>data_start_found := found\<rparr>, u) }) } } }"

text \<open>New data on a connection without a request.\<close>

definition first_data :: "http_world \<Rightarrow> uip \<Rightarrow> httpd \<Rightarrow> (httpd \<times> uip) option" where
  "first_data w u s = do {
     st \<leftarrow> request_state (uip_appdata u);
     let s1 = set_hs u ((hs_of u s)\<lparr>hs_state := st\<rparr>) s;
     if st = STATE_NONE then Some (reset_abort u s1)
     else if st = STATE_FILE_REQUEST then get_request w u s1
     else do {
       u1 \<leftarrow> end_packet u;
       yes \<leftarrow> has_text (uip_appdata u1) 0 (bytes_of ''gl_yes'');
       if yes then switch_boot_dev w ''on'' (switch_enabled_page w) u1 s1
       else do {
         no \<leftarrow> has_text (uip_appdata u1) 0 (bytes_of ''gl_no'');
         if no then switch_boot_dev w ''off'' (switch_disabled_page w) u1 s1
         else post_request w u1 s1 } } }"

section \<open>An established connection\<close>

definition acked :: "uip \<Rightarrow> httpd \<Rightarrow> httpd \<times> uip" where
  "acked u s = (let h = hs_of u s in
     if hs_state h = STATE_FILE_REQUEST then
       if upload h \<le> ucast (uip_mss u) then
         (httpd_state_reset u
            (if webfailsafe_post_done s then
               s\<lparr>webfailsafe_ready_for_upgrade := webfailsafe_ready_for_upgrade s \<or> \<not> webfailsafe_upload_failed s,
                 webfailsafe_post_done := False, uip_file_post_done := False, webfailsafe_upload_failed := False\<rparr>
             else s),
          uip_close u)
       else send_chunk u (set_hs u (h\<lparr>dataptr := (fst (dataptr h), snd (dataptr h) + unat (conn_len u)),
              upload := upload h - ucast (conn_len u)\<rparr>) s)
     else (s, u))"

definition rexmit :: "uip \<Rightarrow> httpd \<Rightarrow> httpd \<times> uip" where
  "rexmit u s = (if hs_state (hs_of u s) = STATE_FILE_REQUEST then send_chunk u s else (s, u))"

text \<open>The last packet of an upload: the page that tells the result is sent.\<close>

definition upload_done :: "http_world \<Rightarrow> uip \<Rightarrow> httpd \<Rightarrow> (httpd \<times> uip) option" where
  "upload_done w u s = do {
     f \<leftarrow> open_page w (if webfailsafe_upload_failed s then fail_page w else flashing_page w);
     Some (serve_file f u (httpd_state_reset u
       (s\<lparr>uip_file_post_done := True, webfailsafe_post_done := True, http_xfer_size := upload_total (hs_of u s)\<rparr>))) }"

definition upload_data :: "http_world \<Rightarrow> uip \<Rightarrow> httpd \<Rightarrow> (httpd \<times> uip) option" where
  "upload_data w u s = (let h = hs_of u s in
     if unat (uip_len u) \<le> length (uip_appdata u) then do {
       let s1 = set_hs u (h\<lparr>upload := upload h + ucast (uip_len u)\<rparr>) s;
       let s2 = (if webfailsafe_upload_failed s then s1
                 else s1\<lparr>memory := stored (memory s1) (webfailsafe_data_pointer s1) (slice (uip_appdata u) 0 (unat (uip_len u))),
                         webfailsafe_data_pointer := webfailsafe_data_pointer s1 + ucast (uip_len u)\<rparr>);
       let s3 = httpd_download_progress s2;
       if upload_total (hs_of u s3) \<le> upload (hs_of u s3) then upload_done w u s3 else Some (s3, u) }
     else None)"

definition more_data :: "http_world \<Rightarrow> uip \<Rightarrow> httpd \<Rightarrow> (httpd \<times> uip) option" where
  "more_data w u s =
     (if hs_state (hs_of u s) = STATE_UPLOAD_REQUEST then do {
        u1 \<leftarrow> end_packet u;
        if \<not> data_start_found s then do {
          (found, s1) \<leftarrow> httpd_findandstore_firstchunk w u1 s;
          Some (if found then (s1\<lparr>data_start_found := True\<rparr>, u1) else reset_abort u1 s1) }
        else upload_data w u1 s }
      else Some (s, u))"

definition poll :: "uip \<Rightarrow> httpd \<Rightarrow> httpd \<times> uip" where
  "poll u s = (let h = hs_of u s; s1 = set_hs u (h\<lparr>hs_count := hs_count h + 1\<rparr>) s in
     if 100 \<le> hs_count h then reset_abort u s1 else (s1, u))"

definition httpd_appcall :: "http_world \<Rightarrow> uip \<Rightarrow> httpd \<Rightarrow> (httpd \<times> uip) option" where
  "httpd_appcall w u s =
     (if lport u \<noteq> 80 then Some (s, uip_abort u)
      else if uip_is UIP_CLOSE u then Some (httpd_state_reset u s, uip_close u)
      else if uip_is UIP_ABORT u \<or> uip_is UIP_TIMEDOUT u then Some (reset_abort u s)
      else if uip_is UIP_POLL u then Some (poll u s)
      else if uip_is UIP_CONNECTED u then Some (httpd_state_reset u s, u)
      else if uip_is UIP_NEWDATA u \<and> hs_state (hs_of u s) = STATE_NONE then first_data w u s
      else if uip_is UIP_ACKDATA u then Some (acked u s)
      else if uip_is UIP_REXMIT u then Some (rexmit u s)
      else if uip_is UIP_NEWDATA u then more_data w u s
      else Some (s, u))"

end
