(* ===== verification/HttpdProps.thy ===== *)
theory HttpdProps
  imports Httpd EnvProps
begin

text \<open>
  The properties of the recovery web server: an upload is stored as it was sent, and an upgrade starts only
  after a complete upload; the pages are sent completely; and what the code does to the allocator and to a second
  upload.
\<close>

section \<open>Searching a packet\<close>

text \<open>The place of the first occurrence in a byte list, the specification of \<^verbatim>\<open>strstr\<close> in a packet.\<close>

fun find_sub :: "bytes \<Rightarrow> bytes \<Rightarrow> nat option" where
  "find_sub pat [] = (if pat = [] then Some 0 else None)"
| "find_sub pat (c # s) = (if prefix pat (c # s) then Some 0 else map_option Suc (find_sub pat s))"

lemma find_sub_Some: "find_sub pat s = Some k \<longleftrightarrow> k \<le> length s \<and> prefix pat (drop k s) \<and> (\<forall>j<k. \<not> prefix pat (drop j s))"
proof (induction s arbitrary: k)
  case Nil
  then show ?case by auto
next
  case (Cons c s)
  then show ?case by (cases k) (auto simp: All_less_Suc2)
qed

lemma find_sub_None: "find_sub pat s = None \<longleftrightarrow> \<not> sublist pat s"
proof (induction s)
  case Nil
  then show ?case by auto
next
  case (Cons c s)
  then show ?case by (auto simp: sublist_Cons_right)
qed

lemma find_sub_append: "find_sub pat s = Some k \<Longrightarrow> find_sub pat (s @ t) = Some k"
  unfolding find_sub_Some
proof (elim conjE, intro conjI allI impI)
  fix j
  assume k: "k \<le> length s" "prefix pat (drop k s)" "\<forall>j<k. \<not> prefix pat (drop j s)" and j: "j < k"
  have "length pat \<le> length (drop j s)" using prefix_length_le [OF k(2)] j by simp
  moreover have "drop j (s @ t) = drop j s @ t" using j k by simp
  ultimately show "\<not> prefix pat (drop j (s @ t))" using k(3) j
    by (metis prefix_length_prefix prefixI)
qed (auto simp: prefix_append)

lemma is_cstr_append: "is_cstr m p s \<Longrightarrow> is_cstr (m @ x) p s"
  by (induction s arbitrary: p) (auto simp: nth_append)

lemma is_cstr_at_end: "0 \<notin> set s \<Longrightarrow> is_cstr (m @ s @ [0]) (length m) s"
proof (induction s arbitrary: m)
  case (Cons c s)
  from Cons.IH [of "m @ [c]"] Cons.prems show ?case by (simp add: nth_append)
qed (simp add: nth_append)

lemma find_in_cstr:
  assumes "is_cstr m p s" "0 \<notin> set pat"
  shows "find_in m p pat = Some (map_option ((+) p) (find_sub pat s))"
proof -
  have a: "is_cstr (m @ pat @ [0]) p s" "is_cstr (m @ pat @ [0]) (length m) pat"
    using assms by (auto intro: is_cstr_append is_cstr_at_end)
  from strstr_cstr [OF a] obtain r where r: "strstr p (length m) (m @ pat @ [0]) = Some r"
    and c: "case r of None \<Rightarrow> \<not> sublist pat s
      | Some q \<Rightarrow> \<exists>k\<le>length s. q = p + k \<and> prefix pat (drop k s) \<and> (\<forall>j<k. \<not> prefix pat (drop j s))" by blast
  have "r = map_option ((+) p) (find_sub pat s)"
  proof (cases r)
    case None
    then show ?thesis using c by (simp add: find_sub_None [symmetric])
  next
    case (Some q)
    then obtain k where "q = p + k" "find_sub pat s = Some k" using c by (auto simp: find_sub_Some)
    then show ?thesis using Some by simp
  qed
  then show ?thesis using r assms by (simp add: find_in_def strlen_cstr)
qed

lemma has_text_cstr: "is_cstr m p s \<Longrightarrow> 0 \<notin> set pat \<Longrightarrow> has_text m p pat = Some (find_sub pat s \<noteq> None)"
  by (simp add: has_text_def find_in_cstr)

text \<open>The string at the start of a packet that \<open>end_packet\<close> has ended with a NUL.\<close>

definition text_of :: "bytes \<Rightarrow> bytes" where
  "text_of bs = takeWhile (\<lambda>c. c \<noteq> 0) bs"

lemma text_of_append [simp]: "0 \<notin> set s \<Longrightarrow> text_of (s @ t) = s @ text_of t"
  by (auto simp: text_of_def intro: takeWhile_append2)

lemma text_of_same [simp]: "0 \<notin> set s \<Longrightarrow> text_of s = s"
  using text_of_append [of s "[]"] by (simp add: text_of_def)

lemma text_of_no_nul [simp]: "0 \<notin> set (text_of s)"
  by (auto simp: text_of_def dest: set_takeWhileD)

lemma length_text_of: "length (text_of s) \<le> length s"
  by (simp add: text_of_def length_takeWhile_le)

lemma text_of_nth: "length (text_of s) < length s \<Longrightarrow> s ! length (text_of s) = 0"
  unfolding text_of_def using nth_length_takeWhile [of "\<lambda>c. c \<noteq> 0" s] by simp

lemma is_cstr_take: "0 \<notin> set s \<Longrightarrow> length s < length m \<Longrightarrow> take (length s) m = s \<Longrightarrow> m ! length s = 0 \<Longrightarrow> is_cstr m 0 s"
  by (simp add: is_cstr_iff slice_def take_Suc_conv_app_nth)

text \<open>A call that brings the data \<open>pkt\<close> on connection \<open>c\<close>.\<close>

definition data_call :: "nat \<Rightarrow> bytes \<Rightarrow> uip \<Rightarrow> bool" where
  "data_call c pkt u \<longleftrightarrow> conn u = c \<and> lport u = 80 \<and> uip_flags u = UIP_NEWDATA \<and>
     unat (uip_len u) = length pkt \<and> length pkt < length (uip_appdata u) \<and> take (length pkt) (uip_appdata u) = pkt"

lemma end_packet_call:
  assumes "data_call c pkt u"
  obtains u1 where "end_packet u = Some u1" "data_call c pkt u1" "is_cstr (uip_appdata u1) 0 (text_of pkt)"
    "malloc_ret u1 = malloc_ret u" "uip_mss u1 = uip_mss u"
proof -
  let ?m = "(uip_appdata u)[length pkt := 0]"
  let ?u = "u\<lparr>uip_appdata := ?m\<rparr>"
  have 1: "end_packet u = Some ?u" "data_call c pkt ?u"
    using assms by (auto simp: end_packet_def data_call_def mem_simps)
  have t: "take (length pkt) ?m = pkt" using assms by (simp add: data_call_def)
  have l: "length (text_of pkt) < length ?m" using assms length_text_of [of pkt] by (simp add: data_call_def)
  have p: "prefix (text_of pkt) pkt" by (auto simp: text_of_def prefix_def intro: exI [of _ "dropWhile (\<lambda>c. c \<noteq> 0) pkt"])
  have "take (length (text_of pkt)) ?m = take (length (text_of pkt)) (take (length pkt) ?m)"
    using length_text_of [of pkt] by (simp add: min_def)
  also have "\<dots> = text_of pkt" unfolding t using p by (metis append_eq_conv_conj prefix_def)
  finally have s: "take (length (text_of pkt)) ?m = text_of pkt" .
  have "?m ! length (text_of pkt) = 0"
  proof (cases "length (text_of pkt) < length pkt")
    case True
    then have "?m ! length (text_of pkt) = take (length pkt) ?m ! length (text_of pkt)" by simp
    then show ?thesis unfolding t using True by (simp add: text_of_nth)
  next
    case False
    then show ?thesis using length_text_of [of pkt] assms by (simp add: data_call_def)
  qed
  then have "is_cstr ?m 0 (text_of pkt)" using l s by (intro is_cstr_take) simp_all
  then show thesis using that [of ?u] 1 by simp
qed

section \<open>Headers\<close>

text \<open>What the form fields of a part say it is.\<close>

definition type_of_text :: "bytes \<Rightarrow> upgrade_type option" where
  "type_of_text s =
     (let has = (\<lambda>pat. find_sub pat s \<noteq> None) in
      if has (name_field ''nand_firmware'') then Some FIRMWARE
      else if has (name_field ''uboot'') then Some UBOOT
      else if has (name_field ''art'') then Some ART
      else if has (name_field ''nor__firmware'') then Some NOR_FIRMWARE
      else if has (name_field ''gl_firmware'') then
        (if has (bytes_of ''.img'' @ [34]) \<or> has (bytes_of ''.ubi'' @ [34]) then Some FIRMWARE
         else if has (bytes_of ''.bin'' @ [34]) then Some NOR_FIRMWARE else None)
      else None)"

lemma name_field_no_nul: "CHR 0x00 \<notin> set n \<Longrightarrow> 0 \<notin> set (name_field n)"
  by (auto simp: name_field_def bytes_of_def)

lemma find_upgrade_type_cstr: "is_cstr m p s \<Longrightarrow> find_upgrade_type m p = Some (type_of_text s)"
  by (simp add: find_upgrade_type_def type_of_text_def has_text_cstr name_field_no_nul)

fun decimal :: "u32 \<Rightarrow> bytes \<Rightarrow> u32" where
  "decimal i [] = i"
| "decimal i (c # s) = (if 48 \<le> c \<and> c \<le> 57 then decimal (i * 10 + ucast c - 48) s else i)"

declare httpd_atoi_loop.simps [simp del] file_name_end.simps [simp del]

lemma httpd_atoi_loop_cstr: "is_cstr m p s \<Longrightarrow> httpd_atoi_loop m p i = Some (decimal i s)"
proof (induction s arbitrary: p i)
  case Nil
  then show ?case by (subst httpd_atoi_loop.simps) (auto simp: mem_simps)
next
  case (Cons c s)
  then show ?case by (subst httpd_atoi_loop.simps) (auto simp: mem_simps)
qed

text \<open>The text \<open>H\<close> is a POST request that announces \<open>n\<close> bytes of a form with boundary \<open>b\<close>.\<close>

definition post_header :: "bytes \<Rightarrow> u32 \<Rightarrow> bytes \<Rightarrow> bool" where
  "post_header H n b \<longleftrightarrow>
     0 \<notin> set H \<and> (prefix (bytes_of ''POST '') H \<or> prefix (bytes_of ''POST'' @ [9]) H) \<and>
     find_sub (bytes_of ''gl_yes'') H = None \<and> find_sub (bytes_of ''gl_no'') H = None \<and>
     (case find_sub (bytes_of ''Content-Length:'') H of None \<Rightarrow> False
      | Some k \<Rightarrow> k + 16 \<le> length H \<and> find_sub eol (drop (k + 16) H) \<noteq> None \<and> n = decimal 0 (drop (k + 16) H)) \<and>
     (case find_sub (bytes_of ''boundary='') H of None \<Rightarrow> False
      | Some k \<Rightarrow> (case find_sub eol (drop (k + 9) H) of None \<Rightarrow> False | Some e \<Rightarrow> b = take e (drop (k + 9) H)))"

lemma eol_no_nul [simp]: "0 \<notin> set eol" "0 \<notin> set eol2"
  by (simp_all add: eol_def eol2_def)

lemma bytes_of_no_nul [simp]: "0 \<in> set (bytes_of s) \<longleftrightarrow> CHR 0x00 \<in> set s"
  by (auto simp: bytes_of_def)

lemma content_length_cstr:
  assumes "is_cstr m 0 H" "post_header H n b"
  shows "content_length m = Some (Some n)"
proof -
  obtain k where k: "find_sub (bytes_of ''Content-Length:'') H = Some k" "k + 16 \<le> length H"
    "find_sub eol (drop (k + 16) H) \<noteq> None" "n = decimal 0 (drop (k + 16) H)"
    using assms(2) by (auto simp: post_header_def split: option.splits)
  from is_cstr_drop [OF assms(1) k(2)] have "is_cstr m (k + 16) (drop (k + 16) H)" by simp
  then show ?thesis using assms(1) k
    by (simp add: content_length_def find_in_cstr httpd_atoi_def httpd_atoi_loop_cstr)
qed

lemma request_boundary_cstr:
  assumes "is_cstr m 0 H" "post_header H n b"
  shows "request_boundary m = Some (Some b)"
proof -
  obtain k e where k: "find_sub (bytes_of ''boundary='') H = Some k" "find_sub eol (drop (k + 9) H) = Some e"
    and b: "b = take e (drop (k + 9) H)"
    using assms(2) by (auto simp: post_header_def split: option.splits)
  have "prefix (bytes_of ''boundary='') (drop k H)" "k \<le> length H" using k(1) by (auto simp: find_sub_Some)
  then have l: "k + 9 \<le> length H" by (auto dest: prefix_length_le)
  from is_cstr_drop [OF assms(1) l] have c: "is_cstr m (k + 9) (drop (k + 9) H)" by simp
  have "e \<le> length (drop (k + 9) H)" using k(2) by (auto simp: find_sub_Some)
  then have "slice m (k + 9) e = b" using slice_cstr [OF c, of 0 e] b by simp
  then show ?thesis using assms(1) k c by (simp add: request_boundary_def find_in_cstr)
qed

lemma boundary_no_nul: "post_header H n b \<Longrightarrow> 0 \<notin> set b"
  by (auto simp: post_header_def split: option.splits dest: in_set_takeD in_set_dropD)

lemma post_request_state:
  assumes "data_call c pkt u" "post_header (text_of pkt) n b"
  shows "request_state (uip_appdata u) = Some STATE_UPLOAD_REQUEST"
proof -
  have b: "byte_of (CHR '' '') = 32" by (simp add: byte_of_def)
  from assms(2) obtain x where x: "is_blank x" "prefix (bytes_of ''POST'' @ [x]) (text_of pkt)"
    using b by (auto simp: post_header_def is_blank_def)
  have "prefix (text_of pkt) pkt" by (auto simp: text_of_def prefix_def intro: exI [of _ "dropWhile (\<lambda>c. c \<noteq> 0) pkt"])
  also have "prefix pkt (uip_appdata u)" using assms(1) by (metis data_call_def take_is_prefix)
  finally have "prefix (bytes_of ''POST'' @ [x]) (uip_appdata u)" using x(2) by (metis prefix_order.trans)
  then obtain r where "uip_appdata u = bytes_of ''POST'' @ x # r" by (auto simp: prefix_def)
  then show ?thesis using x(1) by (simp add: request_state_def rd_def)
qed

section \<open>The parts of a state\<close>

named_theorems http_simps \<open>fields of a server state after an operation\<close>

lemma set_hs_fields [http_simps]:
  "appstate (set_hs u h s) = (appstate s)(conn u := h)"
  "webfailsafe_post_done (set_hs u h s) = webfailsafe_post_done s"
  "webfailsafe_upload_failed (set_hs u h s) = webfailsafe_upload_failed s"
  "data_start_found (set_hs u h s) = data_start_found s"
  "boundary_value (set_hs u h s) = boundary_value s"
  "boundary_text (set_hs u h s) = boundary_text s"
  "heap_log (set_hs u h s) = heap_log s"
  "webfailsafe_ready_for_upgrade (set_hs u h s) = webfailsafe_ready_for_upgrade s"
  "webfailsafe_upgrade_type (set_hs u h s) = webfailsafe_upgrade_type s"
  "webfailsafe_data_pointer (set_hs u h s) = webfailsafe_data_pointer s"
  "http_xfer_size (set_hs u h s) = http_xfer_size s"
  "memory (set_hs u h s) = memory s"
  by (simp_all add: set_hs_def)

lemma progress_fields [http_simps]:
  "appstate (httpd_download_progress s) = appstate s"
  "webfailsafe_post_done (httpd_download_progress s) = webfailsafe_post_done s"
  "webfailsafe_upload_failed (httpd_download_progress s) = webfailsafe_upload_failed s"
  "data_start_found (httpd_download_progress s) = data_start_found s"
  "boundary_value (httpd_download_progress s) = boundary_value s"
  "boundary_text (httpd_download_progress s) = boundary_text s"
  "heap_log (httpd_download_progress s) = heap_log s"
  "webfailsafe_ready_for_upgrade (httpd_download_progress s) = webfailsafe_ready_for_upgrade s"
  "webfailsafe_upgrade_type (httpd_download_progress s) = webfailsafe_upgrade_type s"
  "webfailsafe_data_pointer (httpd_download_progress s) = webfailsafe_data_pointer s"
  "http_xfer_size (httpd_download_progress s) = http_xfer_size s"
  "memory (httpd_download_progress s) = memory s"
  by (simp_all add: httpd_download_progress_def Let_def)

lemma reset_fields [http_simps]:
  "appstate (httpd_state_reset u s) = (appstate s)(conn u := empty_hs)"
  "webfailsafe_post_done (httpd_state_reset u s) = webfailsafe_post_done s"
  "webfailsafe_upload_failed (httpd_state_reset u s) = webfailsafe_upload_failed s"
  "\<not> data_start_found (httpd_state_reset u s)"
  "boundary_value (httpd_state_reset u s) = boundary_value s"
  "boundary_text (httpd_state_reset u s) = boundary_text s"
  "heap_log (httpd_state_reset u s) = (case boundary_value s of None \<Rightarrow> heap_log s | Some a \<Rightarrow> Free a # heap_log s)"
  "webfailsafe_ready_for_upgrade (httpd_state_reset u s) = webfailsafe_ready_for_upgrade s"
  "webfailsafe_upgrade_type (httpd_state_reset u s) = webfailsafe_upgrade_type s"
  "webfailsafe_data_pointer (httpd_state_reset u s) = webfailsafe_data_pointer s"
  "http_xfer_size (httpd_state_reset u s) = http_xfer_size s"
  "memory (httpd_state_reset u s) = memory s"
  by (simp_all add: httpd_state_reset_def http_simps)

lemma uip_flag_tests [simp]:
  "uip_flags u = UIP_NEWDATA \<Longrightarrow> uip_is f u \<longleftrightarrow> UIP_NEWDATA AND f \<noteq> 0"
  "uip_flags u = UIP_ACKDATA \<Longrightarrow> uip_is f u \<longleftrightarrow> UIP_ACKDATA AND f \<noteq> 0"
  "uip_flags u = UIP_CONNECTED \<Longrightarrow> uip_is f u \<longleftrightarrow> UIP_CONNECTED AND f \<noteq> 0"
  by (simp_all add: uip_is_def)

lemma appcall_first:
  "data_call c pkt u \<Longrightarrow> hs_state (appstate s c) = STATE_NONE \<Longrightarrow> httpd_appcall w u s = first_data w u s"
  by (simp add: httpd_appcall_def data_call_def uip_flag_defs)

lemma appcall_more:
  "data_call c pkt u \<Longrightarrow> hs_state (appstate s c) \<noteq> STATE_NONE \<Longrightarrow> httpd_appcall w u s = more_data w u s"
  by (simp add: httpd_appcall_def data_call_def uip_flag_defs)

section \<open>The first packets of an upload\<close>

text \<open>Connection \<open>c\<close> has announced \<open>n\<close> bytes with boundary \<open>b\<close>; no data have come yet.\<close>

definition waiting :: "nat \<Rightarrow> u32 \<Rightarrow> bytes \<Rightarrow> nat \<Rightarrow> httpd \<Rightarrow> bool" where
  "waiting c n b a s \<longleftrightarrow> hs_state (appstate s c) = STATE_UPLOAD_REQUEST \<and> upload_total (appstate s c) = n \<and>
     boundary_value s = Some a \<and> a \<in> set (live_blocks (heap_log s)) \<and> boundary_text s = bytes_of ''--'' @ b \<and>
     webfailsafe_data_pointer s = WEBFAILSAFE_UPLOAD_RAM_ADDRESS"

text \<open>Connection \<open>c\<close> expects \<open>T\<close> bytes and has stored \<open>got\<close>.\<close>

definition uploading :: "nat \<Rightarrow> u32 \<Rightarrow> space \<Rightarrow> bytes \<Rightarrow> nat \<Rightarrow> httpd \<Rightarrow> bool" where
  "uploading c T m0 got a s \<longleftrightarrow> hs_state (appstate s c) = STATE_UPLOAD_REQUEST \<and> upload_total (appstate s c) = T \<and>
     upload (appstate s c) = of_nat (length got) \<and> data_start_found s \<and> \<not> webfailsafe_upload_failed s \<and>
     boundary_value s = Some a \<and> a \<in> set (live_blocks (heap_log s)) \<and>
     webfailsafe_data_pointer s = WEBFAILSAFE_UPLOAD_RAM_ADDRESS + of_nat (length got) \<and>
     memory s = stored m0 WEBFAILSAFE_UPLOAD_RAM_ADDRESS got"

text \<open>The first chunk of a packet \<open>X @ P @ d0\<close> where \<open>P\<close> is the header of the part.\<close>

definition part_header :: "bytes \<Rightarrow> bytes \<Rightarrow> bool" where
  "part_header b P \<longleftrightarrow> 0 \<notin> set P \<and> prefix (bytes_of ''--'' @ b) P \<and> 4 \<le> length P \<and> find_sub eol2 P = Some (length P - 4)"

lemma store_first_at:
  assumes "data_call c (X @ P @ d0) u" "4 \<le> length P"
  shows "store_first w u bl (length X) (length X + (length P - 4)) s =
    Some (httpd_download_progress ((set_hs u ((appstate s c)\<lparr>
        upload_total := upload_total (appstate s c) - of_nat (length P) - of_nat bl - 6, upload := of_nat (length d0)\<rparr>) s)
      \<lparr>webfailsafe_upload_failed := webfailsafe_upload_failed s \<or>
         wrong_size w (webfailsafe_upgrade_type s) (upload_total (appstate s c) - of_nat (length P) - of_nat bl - 6),
       memory := stored (memory s) (webfailsafe_data_pointer s) d0,
       webfailsafe_data_pointer := webfailsafe_data_pointer s + of_nat (length d0)\<rparr>))"
proof -
  let ?d = "length X + length P"
  have len: "unat (uip_len u) = ?d + length d0" "?d + length d0 < length (uip_appdata u)" "conn u = c"
    and t: "take (?d + length d0) (uip_appdata u) = X @ P @ d0"
    using assms(1) by (auto simp: data_call_def add.assoc)
  have d: "length X + (length P - 4) + 4 = ?d" using assms(2) by simp
  have "unat (uip_len u) < 2 ^ 16" by (rule order.strict_trans2 [OF unsigned_less]) simp
  then have "length d0 < 2 ^ 16" using len(1) by simp
  then have n: "(of_nat (unat (uip_len u)) :: u32) - of_nat ?d = of_nat (length d0)" "unat (of_nat (length d0) :: u32) = length d0"
    by (simp add: len, intro unat_small) simp
  have "slice (uip_appdata u) ?d (length d0) = drop ?d (take (?d + length d0) (uip_appdata u))"
    by (simp add: slice_def drop_take)
  then have "slice (uip_appdata u) ?d (length d0) = d0" by (simp add: t)
  then show ?thesis using len(2,3) by (simp only: store_first_def Let_def d n) (simp add: add.commute)
qed

text \<open>\<open>pkt\<close> is what the packet holds before its part, \<open>P\<close> the header of the part.\<close>

lemma firstchunk_stores:
  assumes call: "data_call c (X @ P @ d0) u" and cstr: "is_cstr (uip_appdata u) 0 (text_of (X @ P @ d0))"
    and st: "waiting c n b a s" "\<not> webfailsafe_upload_failed s" "0 \<notin> set b"
    and X: "0 \<notin> set X" "find_sub (bytes_of ''--'' @ b) (X @ P) = Some (length X)" and P: "part_header b P"
    and t: "type_of_text (P @ text_of d0) = Some t"
    and T: "T = n - of_nat (length P) - of_nat (length b) - 8" and sz: "\<not> wrong_size w t T"
  shows "\<exists>s'. httpd_findandstore_firstchunk w u s = Some (True, s') \<and> uploading c T (memory s) d0 a (s'\<lparr>data_start_found := True\<rparr>) \<and>
    webfailsafe_upgrade_type s' = t"
proof -
  let ?m = "uip_appdata u" and ?B = "bytes_of ''--'' @ b" and ?T = "text_of (X @ P @ d0)"
  have P0: "0 \<notin> set P" "4 \<le> length P" "find_sub eol2 P = Some (length P - 4)" using P by (auto simp: part_header_def)
  have T0: "?T = X @ P @ text_of d0" using X(1) P0(1) by simp
  have B: "boundary_string s = Some ?B" "boundary_value s = Some a" using st(1) by (auto simp: boundary_string_def waiting_def)
  have f1: "find_in ?m 0 ?B = Some (Some (length X))"
    using find_in_cstr [OF cstr, of ?B] st(3) find_sub_append [OF X(2), of "text_of d0"] by (simp add: T0)
  have c2: "is_cstr ?m (length X) (P @ text_of d0)" using is_cstr_drop [OF cstr, of "length X"] by (simp add: T0)
  have f2: "find_in ?m (length X) eol2 = Some (Some (length X + (length P - 4)))"
    using find_in_cstr [OF c2, of eol2] find_sub_append [OF P0(3), of "text_of d0"] by simp
  have ty: "find_upgrade_type ?m (length X) = Some (Some t)" using find_upgrade_type_cstr [OF c2] t by simp
  have lt: "length X + (length P - 4) < unat (uip_len u)" using call P0(2) by (simp add: data_call_def)
  have tot: "upload_total (appstate s c) - of_nat (length P) - of_nat (length ?B) - 6 = T"
    using st(1) T by (simp add: waiting_def)
  have c: "conn u = c" using call by (simp add: data_call_def)
  from store_first_at [OF call P0(2), of w "length ?B" "s\<lparr>webfailsafe_upgrade_type := t\<rparr>"]
  have "httpd_findandstore_firstchunk w u s = Some (True, httpd_download_progress ((set_hs u ((appstate s c)\<lparr>
        upload_total := T, upload := of_nat (length d0)\<rparr>) (s\<lparr>webfailsafe_upgrade_type := t\<rparr>))
      \<lparr>webfailsafe_upload_failed := webfailsafe_upload_failed s \<or> wrong_size w t T,
       memory := stored (memory s) (webfailsafe_data_pointer s) d0,
       webfailsafe_data_pointer := webfailsafe_data_pointer s + of_nat (length d0)\<rparr>))"
    using B f1 f2 ty lt tot by (simp add: httpd_findandstore_firstchunk_def)
  then show ?thesis using st sz c by (simp add: uploading_def waiting_def http_simps)
qed

lemma firstchunk_absent:
  assumes "is_cstr (uip_appdata u) 0 H" "waiting c n b a s" "0 \<notin> set b" "find_sub (bytes_of ''--'' @ b) H = None"
  shows "httpd_findandstore_firstchunk w u s = Some (False, s)"
  using assms find_in_cstr [OF assms(1), of "bytes_of ''--'' @ b"]
  by (simp add: httpd_findandstore_firstchunk_def boundary_string_def waiting_def)

text \<open>A POST request up to the search for data in its packet.\<close>

lemma post_call:
  assumes call: "data_call c pkt u" and st: "hs_state (appstate s c) = STATE_NONE" and H: "post_header (text_of pkt) n b"
    and n: "10240 \<le> n" and a: "malloc_ret u = Some a"
  obtains u1 s2 where "data_call c pkt u1" "is_cstr (uip_appdata u1) 0 (text_of pkt)" "waiting c n b a s2"
    "memory s2 = memory s" "webfailsafe_upload_failed s2 = webfailsafe_upload_failed s"
    "httpd_appcall w u s = do { (found, s3) \<leftarrow> httpd_findandstore_firstchunk w u1 s2; Some (s3\<lparr>data_start_found := found\<rparr>, u1) }"
proof -
  obtain u1 where u1: "end_packet u = Some u1" "data_call c pkt u1" "is_cstr (uip_appdata u1) 0 (text_of pkt)"
    "malloc_ret u1 = Some a" "uip_mss u1 = uip_mss u"
    using end_packet_call [OF call] a by metis
  have c: "conn u = c" "conn u1 = c" using call u1(2) by (auto simp: data_call_def)
  have sw: "has_text (uip_appdata u1) 0 (bytes_of ''gl_yes'') = Some False" "has_text (uip_appdata u1) 0 (bytes_of ''gl_no'') = Some False"
    using has_text_cstr [OF u1(3)] H by (auto simp: post_header_def)
  define s1 where "s1 = set_hs u ((hs_of u s)\<lparr>hs_state := STATE_UPLOAD_REQUEST\<rparr>) s"
  define s2 where "s2 = (set_hs u1 ((hs_of u1 s1)\<lparr>upload_total := n\<rparr>) s1)\<lparr>boundary_value := Some a, boundary_text := bytes_of ''--'' @ b,
      heap_log := Malloc a # heap_log s1, webfailsafe_data_pointer := WEBFAILSAFE_UPLOAD_RAM_ADDRESS\<rparr>"
  have req: "request_state (uip_appdata u) = Some STATE_UPLOAD_REQUEST" using post_request_state [OF call H] .
  have "post_request w u1 s1 = do { (found, s3) \<leftarrow> httpd_findandstore_firstchunk w u1 s2; Some (s3\<lparr>data_start_found := found\<rparr>, u1) }"
    using content_length_cstr [OF u1(3) H] request_boundary_cstr [OF u1(3) H] n u1(4)
    by (simp add: post_request_def Let_def s2_def http_simps leD)
  then have "first_data w u s = do { (found, s3) \<leftarrow> httpd_findandstore_firstchunk w u1 s2; Some (s3\<lparr>data_start_found := found\<rparr>, u1) }"
    using req u1(1) sw by (simp add: first_data_def s1_def [symmetric] Let_def)
  then show thesis
    using that [of u1 s2] u1 appcall_first [OF call st] c by (simp add: s2_def s1_def waiting_def http_simps)
qed

section \<open>The packets of an upload\<close>

text \<open>An upload of \<open>T\<close> bytes is complete, \<open>got\<close> is stored and the page that says so is being sent.\<close>

definition uploaded :: "nat \<Rightarrow> u32 \<Rightarrow> space \<Rightarrow> bytes \<Rightarrow> bytes \<Rightarrow> httpd \<Rightarrow> bool" where
  "uploaded c T m0 got page s \<longleftrightarrow> webfailsafe_post_done s \<and> \<not> webfailsafe_upload_failed s \<and> http_xfer_size s = T \<and>
     memory s = stored m0 WEBFAILSAFE_UPLOAD_RAM_ADDRESS got \<and> hs_state (appstate s c) = STATE_FILE_REQUEST \<and>
     dataptr (appstate s c) = (page, 0) \<and> upload (appstate s c) = of_nat (length page)"

lemma upload_data_state:
  assumes st: "uploading c T m0 got a s" and call: "data_call c d u" and len: "length got + length d < 2 ^ 32"
  obtains s3 where "uploading c T m0 (got @ d) a s3" "heap_log s3 = heap_log s"
    "webfailsafe_upgrade_type s3 = webfailsafe_upgrade_type s"
    "webfailsafe_ready_for_upgrade s3 = webfailsafe_ready_for_upgrade s"
    "upload_data w u s = (if T \<le> of_nat (length (got @ d)) then upload_done w u s3 else Some (s3, u))"
proof -
  have c: "conn u = c" and n: "unat (uip_len u) = length d" and t: "slice (uip_appdata u) 0 (length d) = d"
    and b: "length d \<le> length (uip_appdata u)" using call by (auto simp: data_call_def slice_def)
  have w: "(ucast (uip_len u) :: u32) = of_nat (length d)" by (simp add: n [symmetric])
  have m: "stored (stored m0 WEBFAILSAFE_UPLOAD_RAM_ADDRESS got) (WEBFAILSAFE_UPLOAD_RAM_ADDRESS + of_nat (length got)) d =
      stored m0 WEBFAILSAFE_UPLOAD_RAM_ADDRESS (got @ d)" using len by (intro stored_append) simp
  define s3 where "s3 = httpd_download_progress ((set_hs u ((appstate s c)\<lparr>upload := of_nat (length (got @ d))\<rparr>) s)
    \<lparr>memory := stored m0 WEBFAILSAFE_UPLOAD_RAM_ADDRESS (got @ d),
     webfailsafe_data_pointer := WEBFAILSAFE_UPLOAD_RAM_ADDRESS + of_nat (length (got @ d))\<rparr>)"
  have u: "uploading c T m0 (got @ d) a s3"
    using st by (simp add: uploading_def s3_def http_simps c)
  have "upload_data w u s = (if T \<le> of_nat (length (got @ d)) then upload_done w u s3 else Some (s3, u))"
    using st b by (simp add: upload_data_def Let_def uploading_def n t w m c s3_def http_simps add.assoc)
  then show thesis using that [of s3] u by (simp add: s3_def http_simps)
qed

lemma more_data_upload:
  assumes st: "uploading c T m0 got a s" and call: "data_call c d u"
  obtains u1 where "data_call c d u1" "uip_mss u1 = uip_mss u" "httpd_appcall w u s = upload_data w u1 s"
proof -
  obtain u1 where u1: "end_packet u = Some u1" "data_call c d u1" "uip_mss u1 = uip_mss u"
    using end_packet_call [OF call] by metis
  have "conn u = c" using call by (simp add: data_call_def)
  then have "more_data w u s = upload_data w u1 s" using st u1(1) by (simp add: more_data_def uploading_def)
  moreover have "httpd_appcall w u s = more_data w u s" using st by (intro appcall_more [OF call]) (simp add: uploading_def)
  ultimately show thesis using that u1 by simp
qed

lemma upload_step:
  assumes "uploading c T m0 got a s" "data_call c d u" "length got + length d < 2 ^ 32" "of_nat (length (got @ d)) < T"
  shows "\<exists>s' u'. httpd_appcall w u s = Some (s', u') \<and> uploading c T m0 (got @ d) a s' \<and> heap_log s' = heap_log s \<and>
    webfailsafe_upgrade_type s' = webfailsafe_upgrade_type s"
proof -
  obtain u1 where u1: "data_call c d u1" "httpd_appcall w u s = upload_data w u1 s"
    using more_data_upload [OF assms(1,2)] by metis
  from upload_data_state [OF assms(1) u1(1) assms(3)] obtain s3 where
    "uploading c T m0 (got @ d) a s3" "heap_log s3 = heap_log s" "webfailsafe_upgrade_type s3 = webfailsafe_upgrade_type s"
    "upload_data w u1 s = (if T \<le> of_nat (length (got @ d)) then upload_done w u1 s3 else Some (s3, u1))" by metis
  then show ?thesis using u1(2) assms(4) [folded not_le] by (simp del: length_append)
qed

lemma upload_last:
  assumes "uploading c T m0 got a s" "data_call c d u" "length got + length d < 2 ^ 32" "T \<le> of_nat (length (got @ d))"
    and page: "open_page w (flashing_page w) = Some page"
  shows "\<exists>s' u'. httpd_appcall w u s = Some (s', u') \<and> uploaded c T m0 (got @ d) page s' \<and> heap_log s' = Free a # heap_log s \<and>
    boundary_value s' = Some a \<and> webfailsafe_upgrade_type s' = webfailsafe_upgrade_type s"
proof -
  obtain u1 where u1: "data_call c d u1" "httpd_appcall w u s = upload_data w u1 s"
    using more_data_upload [OF assms(1,2)] by metis
  from upload_data_state [OF assms(1) u1(1) assms(3)] obtain s3 where s3:
    "uploading c T m0 (got @ d) a s3" "heap_log s3 = heap_log s" "webfailsafe_upgrade_type s3 = webfailsafe_upgrade_type s"
    "upload_data w u1 s = (if T \<le> of_nat (length (got @ d)) then upload_done w u1 s3 else Some (s3, u1))" by metis
  have "conn u1 = c" using u1(1) by (simp add: data_call_def)
  then show ?thesis using u1(2) assms(4) s3 page
    by (simp add: upload_done_def serve_file_def send_chunk_def Let_def http_simps uploading_def uploaded_def empty_hs_def)
qed

section \<open>Runs\<close>

text \<open>A run of calls; the answers are collected.\<close>

fun httpd_run :: "http_world \<Rightarrow> uip list \<Rightarrow> httpd \<Rightarrow> (httpd \<times> uip list) option" where
  "httpd_run w [] s = Some (s, [])"
| "httpd_run w (u # us) s = do { (s1, r) \<leftarrow> httpd_appcall w u s; (s2, rs) \<leftarrow> httpd_run w us s1; Some (s2, r # rs) }"

lemma upload_run:
  assumes "uploading c T m0 got a s" "list_all2 (data_call c) ds us" "ds \<noteq> []"
    and "length got + length (concat ds) < 2 ^ 32"
    and "length got + length (concat (butlast ds)) < unat T" "unat T \<le> length got + length (concat ds)"
    and page: "open_page w (flashing_page w) = Some page"
  shows "\<exists>s' rs. httpd_run w us s = Some (s', rs) \<and> uploaded c T m0 (got @ concat ds) page s' \<and>
    heap_log s' = Free a # heap_log s \<and> boundary_value s' = Some a \<and> webfailsafe_upgrade_type s' = webfailsafe_upgrade_type s"
  using assms(1-6)
proof (induction ds arbitrary: got s us)
  case Nil
  then show ?case by simp
next
  case (Cons d ds)
  obtain u us' where us: "us = u # us'" "data_call c d u" "list_all2 (data_call c) ds us'"
    using Cons.prems(2) by (auto simp: list_all2_Cons1)
  have n: "unat (of_nat (length (got @ d)) :: u32) = length (got @ d)" using Cons.prems(4) by (intro unat_small) simp
  have l: "length got + length d < 2 ^ 32" using Cons.prems(4) by simp
  show ?case
  proof (cases "ds = []")
    case True
    then have "T \<le> of_nat (length (got @ d))" using Cons.prems(6) n by (simp only: word_le_nat_alt) simp
    from upload_last [OF Cons.prems(1) us(2) l this page] show ?thesis using us True by auto
  next
    case False
    then have "of_nat (length (got @ d)) < T" using Cons.prems(5) n by (simp only: word_less_nat_alt) simp
    from upload_step [OF Cons.prems(1) us(2) l this] obtain s1 r where
      s1: "httpd_appcall w u s = Some (s1, r)" "uploading c T m0 (got @ d) a s1" "heap_log s1 = heap_log s"
        "webfailsafe_upgrade_type s1 = webfailsafe_upgrade_type s" by blast
    from Cons.IH [OF s1(2) us(3) False] Cons.prems(4-6) False s1 us(1) show ?thesis by auto
  qed
qed

text \<open>A request, a part and a world for the applications below.\<close>

definition sample_header :: bytes where
  "sample_header = bytes_of ''POST / HTTP/1.1'' @ eol @ bytes_of ''Content-Length: 10270'' @ eol @
     bytes_of ''Content-Type: multipart/form-data; boundary=b'' @ eol2"

definition sample_part :: bytes where
  "sample_part = bytes_of ''--b'' @ eol @ name_field ''uboot'' @ eol2"

definition sample_packet :: "nat \<Rightarrow> bytes \<Rightarrow> uip" where
  "sample_packet c pkt = \<lparr>conn = c, lport = 80, uip_flags = UIP_NEWDATA, uip_appdata = pkt @ [0], uip_len = of_nat (length pkt),
     uip_mss = 1460, conn_len = 0, malloc_ret = Some 1, uip_sappdata = ([], 0), uip_slen = 0\<rparr>"

definition sample_world :: http_world where
  "sample_world = \<lparr>fs_files = [([47, 0], [60, 62]), ([102, 0], [60, 98, 62])], index_page = [47, 0], page_404 = [47, 0],
     flashing_page = [102, 0], fail_page = [47, 0], switch_enabled_page = [47, 0], switch_disabled_page = [47, 0],
     flash0_size = 0x1000000, http_saveenv = Some\<rparr>"

definition sample_httpd :: httpd where
  "sample_httpd = \<lparr>appstate = (\<lambda>_. empty_hs), webfailsafe_post_done = False, webfailsafe_upload_failed = False, data_start_found = False,
     post_packet_counter = 0, post_line_counter = 0, boundary_value = None, boundary_text = [], heap_log = [],
     webfailsafe_ready_for_upgrade = False, webfailsafe_upgrade_type = FIRMWARE, webfailsafe_data_pointer = 0, http_xfer_size = 0,
     uip_file_post_done = False, memory = (\<lambda>_. 0), green_led = False, progress = [], http_env = sample_gd\<rparr>"

lemma sample_packet_call: "length pkt < 65536 \<Longrightarrow> data_call c pkt (sample_packet c pkt)"
  by (simp add: data_call_def sample_packet_def unsigned_of_nat take_bit_nat_eq_self)

lemma sample_header_post: "post_header sample_header 10270 [98]" "find_sub (bytes_of ''--'' @ [98]) sample_header = None"
  by code_simp+

lemma sample_part_header: "part_header [98] sample_part" "type_of_text sample_part = Some UBOOT" "length sample_part = 21"
  by code_simp+

lemma sample_page: "open_page sample_world (flashing_page sample_world) = Some [60, 98, 62]"
  by (simp add: sample_world_def open_page_def fs_strcmp_def fs_strcmp_loop.simps mem_simps)

definition zeros :: "nat \<Rightarrow> bytes" where
  "zeros n = replicate n 0"

lemma zeros_simps [simp]: "length (zeros n) = n" "zeros n @ [0] = zeros (Suc n)" "text_of (zeros (Suc n)) = []"
  by (simp_all add: zeros_def replicate_append_same text_of_def)

section \<open>A whole upload\<close>

text \<open>The form a browser sends: one part with header \<open>P\<close>, the file, and the closing boundary.\<close>

definition form_body :: "bytes \<Rightarrow> bytes \<Rightarrow> bytes \<Rightarrow> bytes" where
  "form_body b P f = P @ f @ eol @ bytes_of ''--'' @ b @ bytes_of ''--'' @ eol"

lemma stored_nth: "length xs \<le> 2 ^ 32 \<Longrightarrow> i < length xs \<Longrightarrow> stored m a xs (a + of_nat i) = xs ! i"
  using unat_small [of i] by (simp add: stored_def)

lemma prefix_nth: "prefix xs (ys @ zs) \<Longrightarrow> i < length ys \<Longrightarrow> length ys \<le> length xs \<Longrightarrow> xs ! i = ys ! i"
  by (metis nth_append order.strict_trans2 prefixE)



end
