(* ===== verification/HttpdSafety.thy ===== *)
theory HttpdSafety
  imports HttpdProps
begin

text \<open>
  What holds of every sequence of calls of the web server, on any connections: when an upgrade can start. Then the read-only
  files, the sending of pages, and the mistakes of the code: a block freed twice, and a second connection that breaks an upload.
\<close>

section \<open>When an upgrade starts\<close>

text \<open>What a call may do to the three flags that decide about an upgrade.\<close>

definition keeps_flags :: "httpd \<Rightarrow> httpd \<Rightarrow> bool" where
  "keeps_flags s s' \<longleftrightarrow> webfailsafe_ready_for_upgrade s' = webfailsafe_ready_for_upgrade s \<and>
     webfailsafe_post_done s' = webfailsafe_post_done s \<and> (webfailsafe_upload_failed s \<longrightarrow> webfailsafe_upload_failed s')"

lemma keeps_flags_refl [simp]: "keeps_flags s s"
  by (simp add: keeps_flags_def)

lemma keeps_flags_trans: "keeps_flags s t \<Longrightarrow> keeps_flags t r \<Longrightarrow> keeps_flags s r"
  by (simp add: keeps_flags_def)

lemma keeps_flags_fields [simp]:
  "keeps_flags s (set_hs u h s)" "keeps_flags s (httpd_state_reset u s)" "keeps_flags s (httpd_download_progress s)"
  "keeps_flags s (s\<lparr>data_start_found := b\<rparr>)" "keeps_flags s (s\<lparr>http_env := g\<rparr>)" "keeps_flags s (fst (reset_abort u s))"
  "keeps_flags s (fst (serve_file f u s))" "keeps_flags s (fst (reset_abort u (set_hs u h s)))"
  by (simp_all add: keeps_flags_def http_simps reset_abort_def serve_file_def send_chunk_def Let_def)

lemma store_first_flags: "store_first w u bl p e s = Some s' \<Longrightarrow> keeps_flags s s'"
  by (auto simp: store_first_def keeps_flags_def http_simps Let_def split: if_splits)

lemma firstchunk_flags: "httpd_findandstore_firstchunk w u s = Some (b, s') \<Longrightarrow> keeps_flags s s'"
proof -
  assume *: "httpd_findandstore_firstchunk w u s = Some (b, s')"
  have ty: "keeps_flags s (s\<lparr>webfailsafe_upgrade_type := t\<rparr>)" for t by (simp add: keeps_flags_def)
  from * ty show ?thesis
    unfolding httpd_findandstore_firstchunk_def Let_def
    by (auto split: if_splits option.splits Option.bind_splits dest!: store_first_flags intro: keeps_flags_trans)
qed

lemma get_request_flags: "get_request w u s = Some (s', r) \<Longrightarrow> keeps_flags s s'"
  unfolding get_request_def
  by (auto split: if_splits option.splits Option.bind_splits dest!: arg_cong [where f = fst, of _ "(s', r)"])

lemma switch_boot_dev_flags: "switch_boot_dev w v p u s = Some (s', r) \<Longrightarrow> keeps_flags s s'"
  unfolding switch_boot_dev_def
  by (auto split: Option.bind_splits dest!: arg_cong [where f = fst, of _ "(s', r)"]
      simp: keeps_flags_def http_simps serve_file_def send_chunk_def Let_def)

lemma post_request_flags: "post_request w u s = Some (s', r) \<Longrightarrow> keeps_flags s s'"
proof -
  assume *: "post_request w u s = Some (s', r)"
  have a: "keeps_flags s (fst (reset_abort u (set_hs u h s)))" "keeps_flags s (fst (reset_abort u ((set_hs u h s)\<lparr>boundary_value := None\<rparr>)))" for h
    by (simp_all add: keeps_flags_def http_simps reset_abort_def)
  have b: "keeps_flags s x" if "httpd_findandstore_firstchunk w u ((set_hs u h s)\<lparr>boundary_value := v, boundary_text := t,
      heap_log := l, webfailsafe_data_pointer := q\<rparr>) = Some (found, s3)" "x = s3\<lparr>data_start_found := d\<rparr>" for h v t l q found s3 x d
    using firstchunk_flags [OF that(1)] that(2) by (simp add: keeps_flags_def http_simps)
  from * show ?thesis unfolding post_request_def Let_def
    by (auto split: if_splits option.splits Option.bind_splits dest: b dest!: arg_cong [where f = fst, of _ "(s', r)"] simp: a [simplified])
qed

lemma first_data_flags: "first_data w u s = Some (s', r) \<Longrightarrow> keeps_flags s s'"
proof -
  assume *: "first_data w u s = Some (s', r)"
  have k: "keeps_flags s x" if "keeps_flags (set_hs u h s) x" for h x
    using that by (auto intro: keeps_flags_trans keeps_flags_fields)
  from * show ?thesis unfolding first_data_def Let_def
    by (auto split: if_splits Option.bind_splits intro: k
        dest!: get_request_flags switch_boot_dev_flags post_request_flags arg_cong [where f = fst, of _ "(s', r)"])
qed

text \<open>The call \<open>u\<close> brings the last data of an upload.\<close>

definition ends_upload :: "uip \<Rightarrow> httpd \<Rightarrow> bool" where
  "ends_upload u s \<longleftrightarrow> hs_state (hs_of u s) = STATE_UPLOAD_REQUEST \<and> data_start_found s \<and>
     upload_total (hs_of u s) \<le> upload (hs_of u s) + ucast (uip_len u)"

lemma upload_data_flags:
  assumes "upload_data w u s = Some (s', r)" "data_start_found s" "hs_state (hs_of u s) = STATE_UPLOAD_REQUEST"
  shows "keeps_flags s s' \<or> ends_upload u s \<and> keeps_flags (s\<lparr>webfailsafe_post_done := True\<rparr>) s'"
proof -
  have d: "keeps_flags (s\<lparr>webfailsafe_post_done := True\<rparr>) x" if "upload_done w u s3 = Some (x, r)" "keeps_flags s s3" for s3 x
    using that by (auto simp: upload_done_def keeps_flags_def http_simps serve_file_def send_chunk_def Let_def split: Option.bind_splits)
  from assms show ?thesis unfolding upload_data_def Let_def
    by (auto split: if_splits Option.bind_splits simp: ends_upload_def http_simps keeps_flags_def
        dest!: d [unfolded keeps_flags_def])
qed

lemma end_packet_fields: "end_packet u = Some u1 \<Longrightarrow> conn u1 = conn u \<and> uip_len u1 = uip_len u"
  by (auto simp: end_packet_def)

lemma more_data_flags:
  assumes "more_data w u s = Some (s', r)"
  shows "keeps_flags s s' \<or> ends_upload u s \<and> keeps_flags (s\<lparr>webfailsafe_post_done := True\<rparr>) s'"
proof (cases "hs_state (hs_of u s) = STATE_UPLOAD_REQUEST")
  case False
  then show ?thesis using assms by (auto simp: more_data_def)
next
  case True
  then obtain u1 where u1: "end_packet u = Some u1" using assms by (auto simp: more_data_def split: Option.bind_splits)
  show ?thesis
  proof (cases "data_start_found s")
    case False
    with True u1 assms obtain found s1 where s1: "httpd_findandstore_firstchunk w u1 s = Some (found, s1)"
      "(s', r) = (if found then (s1\<lparr>data_start_found := True\<rparr>, u1) else reset_abort u1 s1)"
      by (auto simp: more_data_def split: Option.bind_splits)
    have "s' = (if found then s1\<lparr>data_start_found := True\<rparr> else fst (reset_abort u1 s1))"
      using s1(2) by (auto simp: prod_eq_iff split: if_splits)
    then have "keeps_flags s1 s'" by simp
    then have "keeps_flags s s'" using firstchunk_flags [OF s1(1)] by (rule keeps_flags_trans [rotated])
    then show ?thesis ..
  next
    case ds: True
    from end_packet_fields [OF u1] have e: "ends_upload u1 s = ends_upload u s" by (simp add: ends_upload_def)
    from True ds u1 assms have "upload_data w u1 s = Some (s', r)" by (simp add: more_data_def)
    moreover have "hs_state (hs_of u1 s) = STATE_UPLOAD_REQUEST" using True end_packet_fields [OF u1] by simp
    ultimately show ?thesis using upload_data_flags ds by (simp only: e [symmetric])
  qed
qed

text \<open>An upgrade is due: it has been started, or will be when the page is acknowledged.\<close>

definition upgrade_due :: "httpd \<Rightarrow> bool" where
  "upgrade_due s \<longleftrightarrow> webfailsafe_ready_for_upgrade s \<or> webfailsafe_post_done s \<and> \<not> webfailsafe_upload_failed s"

lemma keeps_flags_due: "keeps_flags s s' \<Longrightarrow> upgrade_due s' \<Longrightarrow> upgrade_due s"
  by (auto simp: keeps_flags_def upgrade_due_def)

lemma acked_due: "upgrade_due (fst (acked u s)) \<Longrightarrow> upgrade_due s"
  by (auto simp: acked_def upgrade_due_def http_simps send_chunk_def Let_def split: if_splits)

lemma appcall_due:
  assumes "httpd_appcall w u s = Some (s', r)" "upgrade_due s'" "\<not> upgrade_due s"
  shows "ends_upload u s \<and> \<not> webfailsafe_upload_failed s"
proof -
  have p: "keeps_flags s (fst (poll u s))" by (simp add: poll_def Let_def)
  have r: "keeps_flags s (fst (rexmit u s))" by (simp add: rexmit_def send_chunk_def Let_def)
  have ra: "fst (reset_abort u s) \<noteq> s'" using assms(2,3) keeps_flags_due keeps_flags_fields(6) by blast
  have n: "\<not> keeps_flags s s'" using assms keeps_flags_due by blast
  have q: "fst x = s'" if "Some x = Some (s', r)" for x using that by auto
  have a: "fst (acked u s) \<noteq> s'" using assms acked_due by blast
  have f: "first_data w u s \<noteq> Some (s', r)" using n first_data_flags by blast
  from assms(1) p r n a f ra have "more_data w u s = Some (s', r)"
    by (auto simp: httpd_appcall_def dest!: q split: if_splits)
  from more_data_flags [OF this] n have "ends_upload u s" "keeps_flags (s\<lparr>webfailsafe_post_done := True\<rparr>) s'" by auto
  then show ?thesis using assms(2,3) by (auto simp: keeps_flags_def upgrade_due_def)
qed

lemma run_due:
  assumes "httpd_run w us s = Some (s', rs)" "upgrade_due s'" "\<not> upgrade_due s"
  shows "\<exists>us1 u us2 s1 rs1. us = us1 @ u # us2 \<and> httpd_run w us1 s = Some (s1, rs1) \<and> ends_upload u s1 \<and> \<not> webfailsafe_upload_failed s1"
  using assms
proof (induction us arbitrary: s rs)
  case Nil
  then show ?case by simp
next
  case (Cons u us)
  from Cons.prems(1) obtain s1 r rs1 where s1: "httpd_appcall w u s = Some (s1, r)" "httpd_run w us s1 = Some (s', rs1)"
    by (auto split: Option.bind_splits)
  show ?case
  proof (cases "upgrade_due s1")
    case True
    from appcall_due [OF s1(1) True Cons.prems(3)] show ?thesis by (intro exI [of _ "[]"] exI [of _ u] exI [of _ us]) simp
  next
    case False
    from Cons.IH [OF s1(2) Cons.prems(2) False] obtain us1 v us2 s2 rs2 where
      v: "us = us1 @ v # us2" "httpd_run w us1 s1 = Some (s2, rs2)" "ends_upload v s2 \<and> \<not> webfailsafe_upload_failed s2" by blast
    then have "httpd_run w (u # us1) s = Some (s2, r # rs2)" using s1(1) by simp
    then show ?thesis using v by (intro exI [of _ "u # us1"] exI [of _ v] exI [of _ us2]) auto
  qed
qed

text \<open>C4: an upgrade starts only after a complete upload. Whatever calls the server gets, on whatever connections and in whatever
  order, from a state in which no upgrade is due: when an upgrade has become due, there was a call before that brought the last data
  of an upload that had found its data and had not been rejected.\<close>

theorem upgrade_needs_upload:
  assumes "httpd_run w us s = Some (s', rs)" "webfailsafe_ready_for_upgrade s'"
    and "\<not> webfailsafe_ready_for_upgrade s" "\<not> webfailsafe_post_done s"
  shows "\<exists>us1 u us2 s1 rs1. us = us1 @ u # us2 \<and> httpd_run w us1 s = Some (s1, rs1) \<and> \<not> webfailsafe_upload_failed s1 \<and>
    hs_state (appstate s1 (conn u)) = STATE_UPLOAD_REQUEST \<and> data_start_found s1 \<and>
    upload_total (appstate s1 (conn u)) \<le> upload (appstate s1 (conn u)) + ucast (uip_len u)"
proof -
  have "upgrade_due s'" "\<not> upgrade_due s" using assms(2-4) by (auto simp: upgrade_due_def)
  from run_due [OF assms(1) this] show ?thesis unfolding ends_upload_def by blast
qed

text \<open>A rejected upload that is broken off leaves its mark: as long as no upload is finished, nothing resets
  \<^verbatim>\<open>webfailsafe_upload_failed\<close>, so a good upload after it is not stored and ends with the failure page.\<close>

lemma appcall_keeps:
  assumes "httpd_appcall w u s = Some (s', r)" "\<not> webfailsafe_post_done s" "\<not> ends_upload u s"
  shows "keeps_flags s s'"
proof -
  have p: "keeps_flags s (fst (poll u s))" by (simp add: poll_def Let_def)
  have r: "keeps_flags s (fst (rexmit u s))" by (simp add: rexmit_def send_chunk_def Let_def)
  have a: "keeps_flags s (fst (acked u s))" using assms(2) by (simp add: acked_def send_chunk_def Let_def)
  have q: "fst x = s'" if "Some x = Some (s', r)" for x using that by auto
  have m: "keeps_flags s s'" if "more_data w u s = Some (s', r)" using more_data_flags [OF that] assms(3) by blast
  have ra: "keeps_flags s (fst (reset_abort u s))" by simp
  have e: "keeps_flags s s'" if "keeps_flags s (fst x)" "x = (s', r)" for x using that by simp
  from assms(1) show ?thesis unfolding httpd_appcall_def
    by (auto split: if_splits intro: m first_data_flags e [OF p] e [OF r] e [OF a] e [OF ra])
qed

lemma rejected_upload_sticks:
  assumes "httpd_run w us s = Some (s', rs)" "webfailsafe_upload_failed s" "\<not> webfailsafe_post_done s"
    and "\<forall>us1 u us2 s1 rs1. us = us1 @ u # us2 \<longrightarrow> httpd_run w us1 s = Some (s1, rs1) \<longrightarrow> \<not> ends_upload u s1"
  shows "webfailsafe_upload_failed s'"
  using assms
proof (induction us arbitrary: s rs)
  case Nil
  then show ?case by simp
next
  case (Cons u us)
  from Cons.prems(1) obtain s1 r rs1 where s1: "httpd_appcall w u s = Some (s1, r)" "httpd_run w us s1 = Some (s', rs1)"
    by (auto split: Option.bind_splits)
  have "\<not> ends_upload u s" using Cons.prems(4) [rule_format, of "[]" u us s "[]"] by simp
  then have k: "webfailsafe_upload_failed s1" "\<not> webfailsafe_post_done s1"
    using appcall_keeps [OF s1(1) Cons.prems(3)] Cons.prems(2,3) by (auto simp: keeps_flags_def)
  have "\<not> ends_upload v s2" if "us = us1 @ v # us2" "httpd_run w us1 s1 = Some (s2, rs2)" for us1 v us2 s2 rs2
    using Cons.prems(4) [rule_format, of "u # us1" v us2 s2 "r # rs2"] that s1(1) by simp
  then show ?case using Cons.IH [OF s1(2) k] by blast
qed

section \<open>The read-only files\<close>

lemma fs_strcmp_loop_cstr:
  assumes "is_cstr m p s" "is_cstr name 0 t" "length t < 256" "i \<le> length s" "i \<le> length t" "take i s = take i t"
  shows "fs_strcmp_loop m p name (of_nat i) = Some (if s = t then 0 else 1)"
  using assms(4-6)
proof (induction "length t - i" arbitrary: i)
  case 0
  then have i: "i = length t" by simp
  have u: "unat (of_nat i :: u8) = i" using i assms(3) by (simp add: unsigned_of_nat take_bit_nat_eq_self)
  show ?case
  proof (cases "length s = i")
    case True
    then show ?thesis using 0 i u assms(1,2) is_cstr_end [OF assms(1)] is_cstr_end [OF assms(2)] is_cstr_bound [OF assms(1)] is_cstr_bound [OF assms(2)]
      by (subst fs_strcmp_loop.simps) (auto simp: mem_simps)
  next
    case False
    then have l: "i < length s" using 0 by simp
    then have "m ! (p + i) \<noteq> 0" using is_cstr_nth [OF assms(1) l] is_cstr_nul_free [OF assms(1)] by (metis nth_mem)
    then show ?thesis using l i u is_cstr_end [OF assms(2)] is_cstr_bound [OF assms(1)] is_cstr_bound [OF assms(2)]
      by (subst fs_strcmp_loop.simps) (auto simp: mem_simps)
  qed
next
  case (Suc k)
  then have l: "i < length t" by simp
  have u: "unat (of_nat i :: u8) = i" using l assms(3) by (simp add: unsigned_of_nat take_bit_nat_eq_self)
  have t: "name ! i = t ! i" "t ! i \<noteq> 0"
    using is_cstr_nth [OF assms(2) l] is_cstr_nul_free [OF assms(2)] l nth_mem by fastforce+
  note b = is_cstr_bound [OF assms(1)] is_cstr_bound [OF assms(2)]
  show ?case
  proof (cases "i < length s \<and> s ! i = t ! i")
    case True
    then have "take (Suc i) s = take (Suc i) t" using l Suc.prems by (simp add: take_Suc_conv_app_nth)
    from Suc.hyps(1) [of "Suc i", OF _ _ _ this] Suc.hyps(2) True l
    have "fs_strcmp_loop m p name (of_nat i + 1) = Some (if s = t then 0 else 1)" by (simp add: add.commute)
    then show ?thesis using True u t l b is_cstr_nth [OF assms(1), of i]
      by (subst fs_strcmp_loop.simps) (auto simp: mem_simps)
  next
    case False
    have "m ! (p + i) \<noteq> t ! i"
    proof (cases "i < length s")
      case True
      then show ?thesis using False is_cstr_nth [OF assms(1) True] by simp
    next
      case f: False
      then show ?thesis using Suc.prems(1) is_cstr_end [OF assms(1)] t(2) by (metis le_neq_implies_less)
    qed
    moreover have "s \<noteq> t" using False l by auto
    ultimately show ?thesis using u t l b Suc.prems(1)
      by (subst fs_strcmp_loop.simps) (auto simp: mem_simps)
  qed
qed

lemma fs_strcmp_cstr: "is_cstr m p s \<Longrightarrow> is_cstr name 0 t \<Longrightarrow> length t < 256 \<Longrightarrow> fs_strcmp m p name = Some (if s = t then 0 else 1)"
  using fs_strcmp_loop_cstr [of m p s name t 0] by (simp add: fs_strcmp_def)

text \<open>The counter of \<^verbatim>\<open>fs_strcmp\<close> has 8 bits: two equal strings of 256 or more bytes are compared for ever.\<close>

lemma fs_strcmp_loop_never_returns:
  "fs_strcmp_loop m p name i = Some y \<Longrightarrow> \<not> (\<forall>i<256. m ! (p + i) = name ! i \<and> name ! i \<noteq> 0)"
proof (rule fs_strcmp_loop.raw_induct [of "\<lambda>m p name i y. \<not> (\<forall>i<256. m ! (p + i) = name ! i \<and> name ! i \<noteq> 0)"], rule notI)
  fix f :: "mem \<Rightarrow> addr \<Rightarrow> mem \<Rightarrow> u8 \<Rightarrow> u8 option" and m :: mem and p :: addr and name :: mem and i y :: u8
  assume IH: "\<And>m p name i y. f m p name i = Some y \<Longrightarrow> \<not> (\<forall>i<256. m ! (p + i) = name ! i \<and> name ! i \<noteq> 0)"
    and hyp: "rd m (p + unat i) \<bind> (\<lambda>c. rd name (unat i) \<bind> (\<lambda>d. if c \<noteq> d then Some 1 else if c = 0 then Some 0 else f m p name (i + 1))) = Some y"
    and same: "\<forall>i<256. m ! (p + i) = name ! i \<and> name ! i \<noteq> 0"
  have "unat i < 256" by (rule order.strict_trans2 [OF unsigned_less]) simp
  then have "m ! (p + unat i) = name ! unat i" "name ! unat i \<noteq> 0" using same by auto
  with hyp have "f m p name (i + 1) = Some y" by (auto split: Option.bind_splits)
  from IH [OF this] same show False by blast
qed

lemma fs_strcmp_never_returns:
  "\<forall>i<256. m ! (p + i) = name ! i \<and> name ! i \<noteq> 0 \<Longrightarrow> fs_strcmp m p name = None"
  using fs_strcmp_loop_never_returns [of m p name 0] by (cases "fs_strcmp m p name") (simp_all add: fs_strcmp_def)

text \<open>So a name of less than 256 bytes opens the first file that has it.\<close>

lemma fs_open_cstr:
  assumes "is_cstr m p s" "length s < 256"
  shows "list_all2 (\<lambda>(n, c) (t, c'). n = t @ [0] \<and> c = c' \<and> 0 \<notin> set t \<and> length t < 256) fs ts \<Longrightarrow>
    fs_open fs m p = Some (map_of ts s)"
proof (induction fs ts rule: list_all2_induct)
  case (Cons x xs y ys)
  obtain n c t where xy: "x = (n, c)" "y = (t, c)" "n = t @ [0]" "0 \<notin> set t" "length t < 256" using Cons.hyps(1) by (auto split: prod.splits)
  have "is_cstr n 0 t" using is_cstr_at_end [of t "[]"] xy by simp
  from fs_strcmp_cstr [OF assms(1) this xy(5)] show ?case using Cons.IH xy by simp
qed simp

lemma unat_u16: "unat (x :: u16) < 2 ^ 16"
  by (rule order.strict_trans2 [OF unsigned_less]) simp

section \<open>Sending a page\<close>

text \<open>Segment \<open>i\<close> of a file sent \<open>m\<close> bytes at a time; an acknowledgement of a segment of length \<open>n\<close>.\<close>

definition segment :: "nat \<Rightarrow> bytes \<Rightarrow> nat \<Rightarrow> bytes" where
  "segment m f i = take m (drop (i * m) f)"

definition ack_call :: "nat \<Rightarrow> nat \<Rightarrow> nat \<Rightarrow> uip \<Rightarrow> bool" where
  "ack_call c m n u \<longleftrightarrow> conn u = c \<and> lport u = 80 \<and> uip_flags u = UIP_ACKDATA \<and> unat (uip_mss u) = m \<and> unat (conn_len u) = n"

text \<open>What the stack sends for an answer.\<close>

definition sent_data :: "uip \<Rightarrow> bytes" where
  "sent_data r = slice (fst (uip_sappdata r)) (snd (uip_sappdata r)) (unat (uip_slen r))"

definition serving :: "nat \<Rightarrow> bytes \<Rightarrow> nat \<Rightarrow> httpd \<Rightarrow> bool" where
  "serving c f p s \<longleftrightarrow> hs_state (appstate s c) = STATE_FILE_REQUEST \<and> dataptr (appstate s c) = (f, p) \<and>
     upload (appstate s c) = of_nat (length f - p) \<and> p \<le> length f"

lemma appcall_ack:
  "ack_call c m n u \<Longrightarrow> hs_state (appstate s c) = STATE_FILE_REQUEST \<Longrightarrow> httpd_appcall w u s = Some (acked u s)"
  by (simp add: httpd_appcall_def ack_call_def uip_flag_defs uip_is_def)

lemma ack_more:
  assumes st: "serving c f p s" and u: "ack_call c m n u" and f: "length f < 2 ^ 32" and n: "n = min m (length f - p)" "m < length f - p"
  shows "\<exists>s' r. httpd_appcall w u s = Some (s', r) \<and> serving c f (p + n) s' \<and> sent_data r = take m (drop (p + n) f) \<and>
    uip_flags r = UIP_ACKDATA"
proof -
  have c: "conn u = c" "unat (uip_mss u) = m" "unat (conn_len u) = m" using u n by (auto simp: ack_call_def)
  have w: "(ucast (uip_mss u) :: u32) = of_nat m" by (simp add: c(2) [symmetric])
  have w2: "(ucast (conn_len u) :: u32) = of_nat m" by (simp add: c(3) [symmetric])
  have l: "unat (of_nat (length f - p) :: u32) = length f - p" "unat (of_nat m :: u32) = m"
    using f n by (intro unat_small, linarith)+
  have gt: "\<not> (of_nat (length f - p) :: u32) \<le> of_nat m" using l n by (simp only: word_le_nat_alt not_le)
  have d: "(of_nat (length f - p) :: u32) - of_nat m = of_nat (length f - (p + m))" using n by (simp add: of_nat_diff)
  have l2: "unat (of_nat (length f - (p + m)) :: u32) = length f - (p + m)" using f by (intro unat_small) simp
  have sl: "unat (if (of_nat m :: u32) < of_nat (length f - (p + m)) then uip_mss u else ucast (of_nat (length f - (p + m)) :: u32)) = min m (length f - (p + m))"
  proof (cases "m < length f - (p + m)")
    case True
    then show ?thesis using l(2) l2 c(2) by (simp only: word_less_nat_alt) simp
  next
    case False
    then have "length f - (p + m) < 2 ^ 16" using c(2) unat_u16 [of "uip_mss u"] by simp
    then have "unat (ucast (of_nat (length f - (p + m)) :: u32) :: u16) = length f - (p + m)"
      using l2 by (simp add: unsigned_ucast_eq unsigned_take_bit_eq take_bit_nat_eq_self)
    then show ?thesis using False l(2) l2 by (simp only: word_less_nat_alt) simp
  qed
  have "hs_state (appstate s c) = STATE_FILE_REQUEST" using st by (simp add: serving_def)
  from appcall_ack [OF u this] have "httpd_appcall w u s = Some (acked u s)" .
  moreover have "serving c f (p + n) (fst (acked u s))" "uip_flags (snd (acked u s)) = UIP_ACKDATA"
    "uip_sappdata (snd (acked u s)) = (f, p + n)"
    "uip_slen (snd (acked u s)) = (if (of_nat m :: u32) < of_nat (length f - (p + m)) then uip_mss u else ucast (of_nat (length f - (p + m)) :: u32))"
    using st gt n u unfolding acked_def send_chunk_def Let_def serving_def
    by (simp_all add: http_simps c w w2 d ack_call_def del: of_nat_diff)
  ultimately show ?thesis using sl n by (cases "acked u s") (simp add: sent_data_def slice_def min_def)
qed

lemma ack_end:
  assumes st: "serving c f p s" and u: "ack_call c m n u" and f: "length f < 2 ^ 32" "length f - p \<le> m"
  shows "\<exists>s' r. httpd_appcall w u s = Some (s', r) \<and> uip_flags r = UIP_CLOSE \<and>
    (webfailsafe_post_done s \<and> \<not> webfailsafe_upload_failed s \<longrightarrow> webfailsafe_ready_for_upgrade s') \<and>
    boundary_value s' = boundary_value s \<and>
    heap_log s' = (case boundary_value s of None \<Rightarrow> heap_log s | Some a \<Rightarrow> Free a # heap_log s)"
proof -
  have c: "conn u = c" "unat (uip_mss u) = m" using u by (auto simp: ack_call_def)
  have w: "(ucast (uip_mss u) :: u32) = of_nat m" by (simp add: c(2) [symmetric])
  have l: "unat (of_nat (length f - p) :: u32) = length f - p" using f by (intro unat_small) simp
  have "unat (of_nat m :: u32) = m" using unat_u16 [of "uip_mss u"] c(2) by (intro unat_small) simp
  then have "(of_nat (length f - p) :: u32) \<le> of_nat m" using l f by (simp only: word_le_nat_alt)
  moreover have "hs_state (appstate s c) = STATE_FILE_REQUEST" using st by (simp add: serving_def)
  ultimately show ?thesis using st appcall_ack [OF u]
    by (simp add: acked_def serving_def c w uip_close_def http_simps split: option.splits)
qed

lemma serve_file_serving:
  assumes "conn u = c" "unat (uip_mss u) = m" "length f < 2 ^ 32"
  shows "serving c f 0 (fst (serve_file f u s))" "sent_data (snd (serve_file f u s)) = take m f"
proof -
  show "serving c f 0 (fst (serve_file f u s))"
    using assms(1) by (simp add: serve_file_def send_chunk_def Let_def serving_def http_simps)
  have w: "(ucast (uip_mss u) :: u32) = of_nat m" by (simp add: assms(2) [symmetric])
  have "m < 2 ^ 16" using assms(2) unat_u16 [of "uip_mss u"] by simp
  then have l: "unat (of_nat (length f) :: u32) = length f" "unat (of_nat m :: u32) = m"
    using assms(3) by (intro unat_small, simp)+
  let ?W = "if (of_nat m :: u32) < of_nat (length f) then uip_mss u else ucast (of_nat (length f) :: u32)"
  have "unat ?W = min m (length f)"
  proof (cases "m < length f")
    case True
    then show ?thesis using l assms(2) by (simp only: word_less_nat_alt) simp
  next
    case False
    then have "length f < 2 ^ 16" using assms(2) unat_u16 [of "uip_mss u"] by simp
    then have "unat (ucast (of_nat (length f) :: u32) :: u16) = length f"
      using l(1) by (simp add: unsigned_ucast_eq unsigned_take_bit_eq take_bit_nat_eq_self)
    then show ?thesis using False l by (simp only: word_less_nat_alt) simp
  qed
  moreover have "uip_slen (snd (serve_file f u s)) = ?W" "uip_sappdata (snd (serve_file f u s)) = (f, 0)"
    using assms(1) w by (simp_all add: serve_file_def send_chunk_def Let_def http_simps)
  ultimately show "sent_data (snd (serve_file f u s)) = take m f" by (simp only: sent_data_def slice_def) (simp add: min_def)
qed

lemma page_run:
  assumes "serving c f p s" "0 < m" "p < length f" "length f < 2 ^ 32" "length us = Suc ((length f - p - 1) div m)"
    and "\<forall>i<length us. ack_call c m (length (take m (drop (p + i * m) f))) (us ! i)"
  shows "\<exists>s' rs. httpd_run w us s = Some (s', rs) \<and> rs \<noteq> [] \<and> take m (drop p f) @ concat (map sent_data (butlast rs)) = drop p f \<and>
    (\<forall>r\<in>set (butlast rs). uip_flags r = UIP_ACKDATA) \<and> uip_flags (last rs) = UIP_CLOSE"
  using assms
proof (induction us arbitrary: p s)
  case Nil
  then show ?case by simp
next
  case (Cons u us)
  have u: "ack_call c m (min m (length f - p)) u" using Cons.prems(6) by (auto dest!: spec [of _ 0] simp: min.commute)
  show ?case
  proof (cases "length f - p \<le> m")
    case True
    then have "us = []" using Cons.prems(3,5) by (simp add: div_less)
    then show ?thesis using ack_end [OF Cons.prems(1) u Cons.prems(4) True, of w] True by auto
  next
    case False
    from ack_more [OF Cons.prems(1) u Cons.prems(4), of w] False obtain s1 r where
      s1: "httpd_appcall w u s = Some (s1, r)" "serving c f (p + m) s1" "sent_data r = take m (drop (p + m) f)" "uip_flags r = UIP_ACKDATA"
      by auto
    have pm: "p + m < length f" using False by simp
    have "length us = Suc ((length f - (p + m) - 1) div m)"
      using Cons.prems(2,5) False le_div_geq [of m "length f - p - 1"] by (simp add: diff_commute add.commute)
    moreover have "ack_call c m (length (take m (drop (p + m + i * m) f))) (us ! i)" if "i < length us" for i
      using Cons.prems(6) [rule_format, of "Suc i"] that by (simp add: add.assoc)
    ultimately obtain s' rs where rs: "httpd_run w us s1 = Some (s', rs)" "rs \<noteq> []"
        "take m (drop (p + m) f) @ concat (map sent_data (butlast rs)) = drop (p + m) f"
        "\<forall>r\<in>set (butlast rs). uip_flags r = UIP_ACKDATA" "uip_flags (last rs) = UIP_CLOSE"
      using Cons.IH [OF s1(2) Cons.prems(2) pm Cons.prems(4)] by blast
    have "take m (drop p f) @ drop (p + m) f = drop p f" by (metis append_take_drop_id drop_drop add.commute)
    then show ?thesis using rs s1 by auto
  qed
qed


text \<open>A page is cut short when the window opens: the acknowledgement of the first, smaller, segment is taken for that of the
  last one, because what is left is compared with the present segment size.\<close>

lemma page_cut_short:
  assumes "conn u0 = c" "unat (uip_mss u0) = m0" "m0 < length f" "length f \<le> m" "length f < 2 ^ 32" "ack_call c m m0 u"
  shows "\<exists>s' r. httpd_appcall w u (fst (serve_file f u0 s)) = Some (s', r) \<and> uip_flags r = UIP_CLOSE \<and>
    sent_data (snd (serve_file f u0 s)) = take m0 f"
  using ack_end [OF serve_file_serving(1) [OF assms(1,2,5)] assms(6,5)] serve_file_serving(2) [OF assms(1,2,5)] assms(4) by fastforce

section \<open>The allocator, and a second connection\<close>

lemma upload_then_ack:
  assumes "uploading c T m0 got a s" "data_call c d u1" "length got + length d < 2 ^ 32" "T \<le> of_nat (length (got @ d))"
    and "open_page w (flashing_page w) = Some page" "ack_call c m n u2" "length page < 2 ^ 32" "length page \<le> m"
    and "distinct (live_blocks (heap_log s))"
  shows "\<exists>s' rs. httpd_run w [u1, u2] s = Some (s', rs) \<and> webfailsafe_ready_for_upgrade s' \<and>
    heap_log s' = Free a # Free a # heap_log s \<and> \<not> heap_ok (heap_log s')"
proof -
  from upload_last [OF assms(1-5)] obtain s1 r1 where s1: "httpd_appcall w u1 s = Some (s1, r1)"
    "uploaded c T m0 (got @ d) page s1" "heap_log s1 = Free a # heap_log s" "boundary_value s1 = Some a" by blast
  have sv: "serving c page 0 s1" "webfailsafe_post_done s1" "\<not> webfailsafe_upload_failed s1"
    using s1(2) by (auto simp: uploaded_def serving_def)
  from ack_end [OF sv(1) assms(6,7), of w] assms(8) sv(2,3) s1(3,4) obtain s2 r2 where
    s2: "httpd_appcall w u2 s1 = Some (s2, r2)" "webfailsafe_ready_for_upgrade s2" "heap_log s2 = Free a # Free a # heap_log s" by auto
  have "a \<notin> set (remove1 a (live_blocks (heap_log s)))" using assms(9) by simp
  then show ?thesis using s1(1) s2 by simp
qed


text \<open>C19: a second connection breaks an upload. When a browser opens another connection while an upload is under way, the next
  packet of the upload makes the server search for the boundary again, in the string that the new connection has freed.\<close>

theorem second_connection_breaks_upload:
  assumes "uploading c T m0 got a s" "distinct (live_blocks (heap_log s))" "data_call c d u"
    and "lport v = 80" "uip_flags v = UIP_CONNECTED" "conn v \<noteq> c"
  shows "httpd_run w [v, u] s = None"
proof -
  have "httpd_appcall w v s = Some (httpd_state_reset v s, v)"
    using assms(4,5) by (simp add: httpd_appcall_def uip_flag_defs uip_is_def)
  moreover have "httpd_appcall w u (httpd_state_reset v s) = more_data w u (httpd_state_reset v s)"
    using assms(1,6) by (intro appcall_more [OF assms(3)]) (simp add: http_simps uploading_def)
  moreover obtain u1 where "end_packet u = Some u1" using end_packet_call [OF assms(3)] by metis
  moreover have "conn u = c" using assms(3) by (simp add: data_call_def)
  ultimately show ?thesis using assms(1,2,6)
    by (simp add: more_data_def http_simps uploading_def httpd_findandstore_firstchunk_def boundary_string_def)
qed

section \<open>A header without a blank\<close>

text \<open>\<^verbatim>\<open>sizeof\<close> of the literal counts its NUL: without the customary blank the first digit is skipped.\<close>

lemma content_length_skips_digit:
  "content_length (bytes_of ''Content-Length:20480'' @ eol @ [0]) = Some (Some 480)"
  by code_simp

section \<open>Applications\<close>

definition sample_ack :: "nat \<Rightarrow> uip" where
  "sample_ack n = (sample_packet 1 [])\<lparr>uip_flags := UIP_ACKDATA, conn_len := of_nat n\<rparr>"

lemma sample_ack_call: "n < 65536 \<Longrightarrow> ack_call 1 1460 n (sample_ack n)"
  by (simp add: ack_call_def sample_ack_def sample_packet_def unsigned_of_nat take_bit_nat_eq_self)

definition sample_upload :: httpd where
  "sample_upload = sample_httpd\<lparr>appstate := (\<lambda>_. empty_hs\<lparr>hs_state := STATE_UPLOAD_REQUEST, upload_total := 3\<rparr>), data_start_found := True,
     boundary_value := Some 7, heap_log := [Malloc 7], webfailsafe_data_pointer := WEBFAILSAFE_UPLOAD_RAM_ADDRESS\<rparr>"

lemma sample_uploading: "uploading 1 3 (\<lambda>_. 0) [] 7 sample_upload" "distinct (live_blocks (heap_log sample_upload))"
    "\<not> webfailsafe_ready_for_upgrade sample_upload" "\<not> webfailsafe_post_done sample_upload"
  by (auto simp: uploading_def sample_upload_def sample_httpd_def empty_hs_def stored_def)


lemma upgrade_needs_upload_witness:
  "\<exists>us1 u us2 s1 rs1. [sample_packet 1 [1, 2, 3], sample_ack 3] = us1 @ u # us2 \<and>
    httpd_run sample_world us1 sample_upload = Some (s1, rs1) \<and> data_start_found s1"
proof -
  obtain s' rs where "httpd_run sample_world [sample_packet 1 [1, 2, 3], sample_ack 3] sample_upload = Some (s', rs)" "webfailsafe_ready_for_upgrade s'"
    using upload_then_ack [OF sample_uploading(1) sample_packet_call [of "[1, 2, 3]"] _ _ sample_page sample_ack_call [of 3] _ _ sample_uploading(2)]
    by auto
  from upgrade_needs_upload [OF this sample_uploading(3,4)] show ?thesis by blast
qed


lemma second_connection_breaks_upload_witness:
  "httpd_run sample_world [(sample_packet 2 [])\<lparr>uip_flags := UIP_CONNECTED\<rparr>, sample_packet 1 [1]] sample_upload = None"
  using second_connection_breaks_upload [OF sample_uploading(1,2) sample_packet_call [of "[1]"]] by (simp add: sample_packet_def)

end
