(* ===== verification/Upgrade.thy ===== *)
theory Upgrade
  imports MemoryProps ParserProps HttpdSafety SrecLoad
begin

text \<open>
  The upgrade of the recovery mode: \<^verbatim>\<open>do_http_upgrade\<close> of \<^verbatim>\<open>net/httpd.c\<close>, which writes an uploaded image with the command
  line of the monitor, and the loop of \<^verbatim>\<open>NetLoopHttpd\<close> in \<^verbatim>\<open>net/net.c\<close> around it, which resets the board when that has worked.
  It is the build for the boards of this fork (\<^verbatim>\<open>CONFIG_FOR_GL_BOARD\<close>, without \<^verbatim>\<open>CONFIG_AR300M\<close>, \<^verbatim>\<open>CONFIG_X750\<close> and
  \<^verbatim>\<open>CONFIG_GL_RSA\<close>). \<open>boot_addr\<close> is the address of the kernel, a constant of the build; \<^verbatim>\<open>show_kernel\<close>, which is not part of
  the repository, and the commands on NAND flash are arguments.
\<close>

section \<open>The machine of the commands\<close>

text \<open>The state of the interpreter with the memory and its flash. Both print on one console.\<close>

record machine = sys +
  msys :: memsys

type_synonym mroutine = "cmd_tbl \<Rightarrow> int \<Rightarrow> bytes list \<Rightarrow> machine \<Rightarrow> (machine \<times> int) option"

abbreviation ram :: "machine \<Rightarrow> space" where
  "ram s \<equiv> mem_of (msys s)"

definition mem_in :: "machine \<Rightarrow> memsys" where
  "mem_in s = (msys s)\<lparr>fl := (fl (msys s))\<lparr>con := console s\<rparr>\<rparr>"

definition mem_out :: "machine \<Rightarrow> int \<times> memsys \<Rightarrow> machine \<times> int" where
  "mem_out s r = (s\<lparr>console := con (fl (snd r)), msys := snd r\<rparr>, fst r)"

definition usage_bytes :: "cmd_tbl \<Rightarrow> bytes" where
  "usage_bytes t = (case usage_text t of None \<Rightarrow> bytes_of ''<NULL>'' | Some u \<Rightarrow> u)"

text \<open>The commands the upgrade uses, by the addresses of their routines in the command table; \<open>rest\<close> are all others.\<close>

definition flash_call :: "space write_buff \<Rightarrow> space flash_erase \<Rightarrow> nat \<Rightarrow> nat \<Rightarrow> mroutine \<Rightarrow> mroutine" where
  "flash_call write_buff flash_erase erase_fn cp_fn rest t flag argv s =
     (if cmd t = erase_fn then
        map_option (\<lambda>(rc, st). mem_out s (rc, (mem_in s)\<lparr>fl := st\<rparr>)) (do_flerase flash_erase (usage_bytes t) argv (fl (mem_in s)))
      else if cmd t = cp_fn then map_option (mem_out s) (do_mem_cp write_buff (usage_bytes t) argv (mem_in s))
      else rest t flag argv s)"

section \<open>\<^verbatim>\<open>do_http_upgrade\<close>\<close>

definition WEBFAILSAFE_UPLOAD_UBOOT_ADDRESS :: u32 where "WEBFAILSAFE_UPLOAD_UBOOT_ADDRESS = 0x9f000000"
definition WEBFAILSAFE_UPLOAD_ART_ADDRESS :: u32 where
  "WEBFAILSAFE_UPLOAD_ART_ADDRESS = WEBFAILSAFE_UPLOAD_UBOOT_ADDRESS + 0x50000"

text \<open>\<open>flash_text a n sz\<close>: erase \<open>n\<close> bytes at \<open>a\<close> and copy \<open>sz\<close> bytes from the load address there.\<close>

definition flash_text :: "u32 \<Rightarrow> u32 \<Rightarrow> u32 \<Rightarrow> bytes" where
  "flash_text a n sz = bytes_of ''erase 0x'' @ upper_hex a @ bytes_of '' +0x'' @ upper_hex n @
     bytes_of ''; cp.b 0x'' @ upper_hex WEBFAILSAFE_UPLOAD_RAM_ADDRESS @ bytes_of '' 0x'' @ upper_hex a @ bytes_of '' 0x'' @ upper_hex sz"

definition nand_text :: "u32 \<Rightarrow> u32 \<Rightarrow> bytes" where
  "nand_text a n = bytes_of ''; nand erase; nand write 0x'' @ upper_hex a @ bytes_of '' 0 0x'' @ upper_hex n"

definition upgrade_text :: "(u32 \<Rightarrow> u32) \<Rightarrow> u32 \<Rightarrow> u32 \<Rightarrow> upgrade_type \<Rightarrow> bytes" where
  "upgrade_text show_kernel boot_addr sz t = (case t of
     UBOOT \<Rightarrow> flash_text WEBFAILSAFE_UPLOAD_UBOOT_ADDRESS 0x50000 WEBFAILSAFE_UPLOAD_UBOOT_SIZE
   | FIRMWARE \<Rightarrow>
       (let k = show_kernel WEBFAILSAFE_UPLOAD_RAM_ADDRESS
        in flash_text boot_addr k k @ nand_text (WEBFAILSAFE_UPLOAD_RAM_ADDRESS + k) (sz - k))
   | ART \<Rightarrow> flash_text WEBFAILSAFE_UPLOAD_ART_ADDRESS WEBFAILSAFE_UPLOAD_ART_SIZE WEBFAILSAFE_UPLOAD_ART_SIZE
   | NOR_FIRMWARE \<Rightarrow> flash_text boot_addr sz sz)"

definition stars :: bytes where
  "stars = replicate 28 (byte_of (CHR ''*''))"

definition upgrade_banner :: "upgrade_type \<Rightarrow> bytes \<Rightarrow> bytes" where
  "upgrade_banner t nand_report =
     (let banner = (\<lambda>title. [10, 10] @ stars @ [10] @ title @ [10] @ bytes_of ''* DO NOT POWER OFF DEVICE! *'' @ [10] @ stars @ [10, 10])
      in case t of
        UBOOT \<Rightarrow> banner (bytes_of ''*     U-BOOT UPGRADING     *'')
      | FIRMWARE \<Rightarrow> banner (bytes_of ''*    FIRMWARE UPGRADING    *'')
      | ART \<Rightarrow> banner (bytes_of ''*      ART  UPGRADING      *'')
      | NOR_FIRMWARE \<Rightarrow> nand_report)"

text \<open>\<open>nand_report\<close> is what \<^verbatim>\<open>check_nand\<close> prints; the build does not use its answer. The text is made in a buffer of 200 bytes.
  \<open>run\<close> is \<^verbatim>\<open>run_command\<close>.\<close>

definition do_http_upgrade :: "(bytes option \<Rightarrow> int \<Rightarrow> machine \<Rightarrow> (machine \<times> int) option) \<Rightarrow> (u32 \<Rightarrow> u32) \<Rightarrow> u32 \<Rightarrow> bytes
    \<Rightarrow> u32 \<Rightarrow> upgrade_type \<Rightarrow> machine \<Rightarrow> (machine \<times> int) option" where
  "do_http_upgrade run show_kernel boot_addr nand_report sz t s =
     (let buf = upgrade_text show_kernel boot_addr sz t in
      if length buf \<ge> 200 then None
      else run (Some buf) 0 (puts (upgrade_banner t nand_report @ bytes_of ''Executing: '' @ buf @ [10, 10] @
        bytes_of ''{ '' @ [34] @ bytes_of ''system'' @ [34] @ bytes_of '': '' @ [34] @ bytes_of ''updating'' @ [34] @ bytes_of '' }'') s))"

section \<open>\<^verbatim>\<open>NetLoopHttpd\<close>\<close>

datatype progress_state = START | TIMEOUT | UPLOAD_READY | UPGRADE_READY | UPGRADE_FAILED

definition do_http_progress :: "progress_state \<Rightarrow> bytes" where
  "do_http_progress st = (case st of
     START \<Rightarrow> line ''HTTP server is ready!'' @ [10]
   | TIMEOUT \<Rightarrow> line ''Waiting for request...''
   | UPLOAD_READY \<Rightarrow> line ''HTTP upload is done! Upgrading...''
   | UPGRADE_READY \<Rightarrow> line ''HTTP ugrade is done! Rebooting...'' @ [10]
   | UPGRADE_FAILED \<Rightarrow> line ''## Error: HTTP ugrade failed!'' @ [10])"

record recovery =
  app :: httpd
  mach :: machine
  load_count :: nat

text \<open>The memory of the web server is that of the machine.\<close>

definition mach_with :: "space \<Rightarrow> machine \<Rightarrow> machine" where
  "mach_with m s = s\<lparr>msys := put_mem m (msys s)\<rparr>"

definition clear_upgrade :: "httpd \<Rightarrow> httpd" where
  "clear_upgrade h = h\<lparr>webfailsafe_ready_for_upgrade := False, webfailsafe_upgrade_type := NOR_FIRMWARE\<rparr>"

definition toggle_led :: "recovery \<Rightarrow> recovery" where
  "toggle_led r = (if load_count r + 1 = 50 then r\<lparr>app := (app r)\<lparr>green_led := \<not> green_led (app r)\<rparr>, load_count := 0\<rparr>
     else r\<lparr>load_count := load_count r + 1\<rparr>)"

datatype http_result = Serving | Aborted | Reset_Board | Link_Down

text \<open>One pass of the loop: the calls of the application that the frame received leads to (none without a frame), and whether
  control-C is typed. Then what is done after it, when the upgrade failed: the server is started again, if the interface comes up.\<close>

record http_event =
  app_calls :: "uip list"
  ctrlc_typed :: bool
  link_up :: bool

definition http_failed :: "bool \<Rightarrow> recovery \<Rightarrow> http_result \<times> recovery" where
  "http_failed up r =
     (let r1 = r\<lparr>app := (clear_upgrade (app r))\<lparr>http_xfer_size := 0\<rparr>, mach := puts (do_http_progress UPGRADE_FAILED) (mach r)\<rparr>
      in if up then (Serving, r1\<lparr>mach := puts (do_http_progress START) (mach r1)\<rparr>)
         else (Link_Down, r1\<lparr>mach := puts (bytes_of ''## Error: couldn't initialize eth (cable disconnected?)!'' @ [10, 10]) (mach r1)\<rparr>))"

definition http_pass :: "http_world \<Rightarrow> (upgrade_type \<Rightarrow> u32 \<Rightarrow> machine \<Rightarrow> (machine \<times> int) option) \<Rightarrow> http_event \<Rightarrow> recovery
    \<Rightarrow> (http_result \<times> recovery) option" where
  "http_pass w upgrade e r = do {
     (h, answers) \<leftarrow> httpd_run w (app_calls e) (app r);
     let r1 = r\<lparr>app := h\<rparr>;
     if ctrlc_typed e then
       Some (Aborted, r1\<lparr>app := (clear_upgrade h)\<lparr>green_led := False\<rparr>, mach := puts ([10] @ line ''Web failsafe mode aborted!'' @ [10]) (mach r)\<rparr>)
     else if \<not> webfailsafe_ready_for_upgrade h then Some (Serving, toggle_led r1)
     else do {
       let s1 = puts ([10] @ line ''stop eth interface!!'' @ do_http_progress UPLOAD_READY) (mach_with (memory h) (mach r));
       (s2, rc) \<leftarrow> upgrade (webfailsafe_upgrade_type h) (http_xfer_size h) s1;
       let r2 = r1\<lparr>app := h\<lparr>green_led := False, memory := ram s2\<rparr>, mach := s2\<rparr>;
       if rc \<ge> 0 then Some (Reset_Board, r2\<lparr>mach := puts (do_http_progress UPGRADE_READY) s2\<rparr>)
       else Some (http_failed (link_up e) r2) } }"

fun NetLoopHttpd :: "http_world \<Rightarrow> (upgrade_type \<Rightarrow> u32 \<Rightarrow> machine \<Rightarrow> (machine \<times> int) option) \<Rightarrow> http_event list \<Rightarrow> recovery
    \<Rightarrow> (http_result \<times> recovery) option" where
  "NetLoopHttpd w upgrade [] r = Some (Serving, r)"
| "NetLoopHttpd w upgrade (e # es) r = do {
     (res, r') \<leftarrow> http_pass w upgrade e r;
     if res = Serving then NetLoopHttpd w upgrade es r' else Some (res, r') }"

end
