(* ===== verification/Spec2Isabelle.thy ===== *)
theory Spec2Isabelle
  imports EnvProps Circbuf ParserProps ListsProps SrecLoad TftpProps Upgrade
begin

text \<open>
  A verification development of the U-Boot boot loader of this repository, a fork for boards with a MIPS
  core (\<^verbatim>\<open>src/include/configs/ar7240.h\<close>, \<^verbatim>\<open>board953x.h\<close>). It covers what every other part of the monitor
  is built on, the console interpreter and its environment, and the transfers into memory and flash over the
  console and the network; the board support, the drivers and the processor start-up are hardware accesses and
  are not modelled.

  How the parts work together. \<^verbatim>\<open>main_loop\<close> reads a line (\<^verbatim>\<open>readline\<close>), \<^verbatim>\<open>run_command\<close> cuts it into tokens,
  expands macros from the environment (\<^verbatim>\<open>process_macros\<close>, \<^verbatim>\<open>getenv\<close>), splits words (\<^verbatim>\<open>parse_line\<close>), looks the
  command up (\<^verbatim>\<open>find_cmd\<close>) and calls its routine. \<^verbatim>\<open>setenv\<close> edits the environment block and its CRC, and
  passes some names on to the console devices, the baud rate and the network addresses. All of it prints
  with \<^verbatim>\<open>vsprintf\<close> and works on C strings. Of the commands, \<^verbatim>\<open>loads\<close> and \<^verbatim>\<open>saves\<close> transfer memory as S-records over the
  console, store to memory or through \<^verbatim>\<open>flash_write\<close>, and leave the size in a variable; \<^verbatim>\<open>erase\<close> and \<^verbatim>\<open>protect\<close> work on
  the sector tables of the flash banks. \<^verbatim>\<open>tftpboot\<close> and \<^verbatim>\<open>ping\<close> run \<^verbatim>\<open>NetLoop\<close>: it starts a protocol, hands every frame
  of the driver to \<^verbatim>\<open>NetReceive\<close>, which answers ARP and echo requests itself and gives UDP payloads to the
  protocol's handler, and calls the handler's time-out when the clock has passed it; \<^verbatim>\<open>TftpHandler\<close> stores blocks
  with \<^verbatim>\<open>store_block\<close> and ends the loop by its state. In the recovery mode the web server \<^verbatim>\<open>httpd_appcall\<close> takes an
  image by a form upload, stores it at the load address and sets \<^verbatim>\<open>webfailsafe_ready_for_upgrade\<close>.

  How the code is modelled. An object of the C program is a flat memory, a list of bytes; a pointer into it is
  an index. A read or a write outside the memory is undefined behaviour in C and is the value \<open>None\<close> here, so a
  theorem \<open>f \<dots> = Some r\<close> also says that \<open>f\<close> stays inside. Loops that advance a pointer are recursive functions
  that terminate because they stop at the end of the memory; where a loop of the code runs off a missing
  terminator its model therefore ends with \<open>None\<close>. Machine integers are words of their width (\<open>u8\<close>, \<open>u16\<close>, \<open>u32\<close>)
  where they wrap, and \<^verbatim>\<open>int\<close> or \<^verbatim>\<open>nat\<close> where the code stays inside its range; the target is big-endian with
  32-bit \<^verbatim>\<open>long\<close>. Strings that are only read are byte lists without their NUL. What a routine prints is
  returned or appended to the console of the state. Routines that are called through a pointer, the allocator,
  the keyboard polls and the clock are arguments.

  The theories, in the order of their imports:

  \<^item> \<^verbatim>\<open>Prelude\<close>: words, memory, blocks, NUL-terminated strings, and the simplification rules for them
    (\<open>mem_simps\<close>, \<open>str_simps\<close>).
  \<^item> \<^verbatim>\<open>Ctype\<close>: \<^verbatim>\<open>lib_generic/ctype.c\<close> and \<^verbatim>\<open>include/linux/ctype.h\<close>.
  \<^item> \<^verbatim>\<open>CString\<close>, \<^verbatim>\<open>CStringProps\<close>: \<^verbatim>\<open>lib_generic/string.c\<close> and the MIPS inline \<^verbatim>\<open>strcmp\<close> and \<^verbatim>\<open>strncmp\<close>. Each
    routine on strings equals an operation on byte lists; \<^verbatim>\<open>memmove\<close> copies whatever the overlap. The locale
    \<open>str_compare\<close> is the contract of both comparisons, \<open>block_copy\<close> that of both copy directions.
  \<^item> \<^verbatim>\<open>Crc\<close>, \<^verbatim>\<open>CrcProps\<close>: \<^verbatim>\<open>lib_generic/crc32.c\<close> and \<^verbatim>\<open>common/crc16.c\<close>. The table-driven routines equal
    polynomial division bit by bit (locales \<open>table_crc\<close>, \<open>sound_crc\<close>), and the constant table is the one
    \<^verbatim>\<open>make_crc_table\<close> computes.
  \<^item> \<^verbatim>\<open>Vsprintf\<close>, \<^verbatim>\<open>VsprintfProps\<close>: \<^verbatim>\<open>lib_generic/vsprintf.c\<close>. The division-free decimal conversion is correct
    for all 32-bit words, \<^verbatim>\<open>vsnprintf\<close> writes only its buffer and what \<^verbatim>\<open>%n\<close> names, and the parsers read back
    what \<^verbatim>\<open>%u\<close>, \<^verbatim>\<open>%d\<close> and \<^verbatim>\<open>%x\<close> print.
  \<^item> \<^verbatim>\<open>Env\<close>, \<^verbatim>\<open>EnvProps\<close>: \<^verbatim>\<open>common/cmd_nvedit.c\<close>, \<^verbatim>\<open>common/env_common.c\<close>, and what setting a variable reaches in
    \<^verbatim>\<open>common/console.c\<close>, \<^verbatim>\<open>net/eth.c\<close> and \<^verbatim>\<open>net/net.c\<close>. The block refines an association list; the locale
    \<open>env_store\<close> is the contract of lookup and update, and sequences of updates are reasoned about inside it.
  \<^item> \<^verbatim>\<open>Circbuf\<close>: \<^verbatim>\<open>common/circbuf.c\<close>, a bounded queue (locale \<open>byte_fifo\<close>).
  \<^item> \<^verbatim>\<open>Command\<close>, \<^verbatim>\<open>CommandProps\<close>: \<^verbatim>\<open>common/command.c\<close>. Lookup against its specification by filtering, the bubble
    sort of \<^verbatim>\<open>help\<close>, the value of \<^verbatim>\<open>test\<close>, completion.
  \<^item> \<^verbatim>\<open>Parser\<close>, \<^verbatim>\<open>ParserProps\<close>: the interpreter and the line editor of \<^verbatim>\<open>common/main.c\<close>. A line of plain commands
    refines the script of its word lists; macros take their values from the environment block; the line editor
    refines an editor of lists, and every state it can reach (\<open>rl_reach\<close>) is inside its buffer.
  \<^item> \<^verbatim>\<open>FormatHex\<close>: what \<^verbatim>\<open>%0<n>X\<close>, \<^verbatim>\<open>%c\<close> and \<^verbatim>\<open>%s\<close> make \<^verbatim>\<open>vsprintf\<close> print, for the messages and records of the
    commands below.
  \<^item> \<^verbatim>\<open>Flash\<close>, \<^verbatim>\<open>FlashCmd\<close>, \<^verbatim>\<open>FlashProps\<close>: \<^verbatim>\<open>common/flash.c\<close> and the commands \<^verbatim>\<open>erase\<close> and \<^verbatim>\<open>protect\<close> of
    \<^verbatim>\<open>common/cmd_flash.c\<close>. \<^verbatim>\<open>write_buff\<close> and \<^verbatim>\<open>flash_erase\<close> of the board are arguments with named contracts
    (\<open>sound_write\<close>, \<open>sound_erase\<close>). Protection is exact, a write stores all of a range or reports an error, and an
    erase stays in its range; at the end are inputs on which the code does something else.
  \<^item> \<^verbatim>\<open>Srec\<close>, \<^verbatim>\<open>SrecProps\<close>, \<^verbatim>\<open>SrecLoad\<close>: \<^verbatim>\<open>common/s_record.c\<close> and the commands \<^verbatim>\<open>loads\<close> and \<^verbatim>\<open>saves\<close> of
    \<^verbatim>\<open>common/cmd_load.c\<close>. What \<^verbatim>\<open>saves\<close> prints, \<^verbatim>\<open>loads\<close> loads; this puts together the formatter, the flash
    layer and the environment.
  \<^item> \<^verbatim>\<open>NetBase\<close>: the globals of \<^verbatim>\<open>net/net.c\<close> as one record, the frame headers, ARP and sending, address parsing,
    and the parts of \<^verbatim>\<open>net/eth.c\<close> the loop calls. \<^verbatim>\<open>Tftp\<close>: \<^verbatim>\<open>net/tftp.c\<close>. \<^verbatim>\<open>Net\<close>: ping, \<^verbatim>\<open>NetReceive\<close> and \<^verbatim>\<open>NetLoop\<close>. Frames
    arrive as a list, the transmit driver's answer, the clock and its rate are arguments, and the consumers of
    frames outside this development (BOOTP, NFS, the web server and so on) are a record of functions.
  \<^item> \<^verbatim>\<open>NetProps\<close>, \<^verbatim>\<open>TftpProps\<close>: an ARP answer resolves the address and sends what waited for it, a datagram sent
    by \<^verbatim>\<open>NetSendUDPPacket\<close> is delivered by \<^verbatim>\<open>NetReceive\<close>, a loop without frames ends by its time-outs. A transfer is
    a run of \<open>tftp_step\<close>, in which packets are lost, repeated and delayed: memory holds a prefix of the file at
    every moment and all of it when success is reported, and every reachable state has a continuation that succeeds.
  \<^item> \<^verbatim>\<open>Httpd\<close>, \<^verbatim>\<open>HttpdProps\<close>, \<^verbatim>\<open>HttpdSafety\<close>: \<^verbatim>\<open>httpd/httpd.c\<close> and \<^verbatim>\<open>httpd/fs.c\<close>. One call of the application is an input
    \<open>uip\<close> (the connection, the flags, the packet buffer, the answer of the allocator); a run is a list of them. An upload
    is stored as it was sent, an upgrade needs a complete upload, pages are sent completely; lemmas at the end show a
    block freed twice, an upload broken by a second connection, and a page cut short.
  \<^item> \<^verbatim>\<open>Memory\<close>, \<^verbatim>\<open>MemoryProps\<close>: \<^verbatim>\<open>common/cmd_mem.c\<close> over the chip of the flash layer as the whole address space.
    \<^verbatim>\<open>cp\<close> copies ranges, into flash through \<^verbatim>\<open>flash_write\<close>, \<^verbatim>\<open>cmp\<close> decides their equality, and two rounds of the
    memory test, whose hardware is an argument, find every stuck bit.
  \<^item> \<^verbatim>\<open>ListsC\<close>, \<^verbatim>\<open>ListsProps\<close>: the resizable lists of \<^verbatim>\<open>common/lists.c\<close>, which refine lists of items (locale
    \<open>sequence\<close>).

  Bounds. The nesting of \<^verbatim>\<open>run\<close> and \<^verbatim>\<open>run_command\<close> (\<open>run_nested\<close>) has no bound in the code: the depth is an
  argument, and the theorem about it holds for every depth. \<^verbatim>\<open>ListRemoveDuplicates\<close> is given as many rounds
  as the list has items, which is what its loops can use up, since each round removes an item or ends. All other loops
  are proved to terminate by a measure; \<^verbatim>\<open>NetLoop\<close> is a run over the list of frames and time-outs it meets. The
  TFTP theorems are about files of at most 65535 blocks, the range of the block numbers of the protocol; the
  lemma \<open>wrap_counted_twice\<close> shows what the code does past it. The comparison of file names in \<^verbatim>\<open>httpd/fs.c\<close> may run
  for ever, so it is a partial function; it returns for names of less than 256 bytes (\<open>fs_strcmp_cstr\<close>).

  Not modelled: the start-up part of \<^verbatim>\<open>main_loop\<close> (LEDs, buttons, network recovery of a board), character input
  and output of the devices, the hush parser, the protocols BOOTP, DHCP, RARP, NFS, SNTP and
  CDP, the upgrade messages of \<^verbatim>\<open>net/net.c\<close>, the uIP stack and the generated pages of the web server, what the network
  code prints and the LEDs it switches, the extended-address forms of the flash commands, the environment in flash, the Kermit and modem transfers, file systems, image loading,
  drivers, board and processor code.
\<close>

end
